(* ===== verification/Prelude.thy ===== *)
theory Prelude
  imports Main "HOL-Library.Word" "HOL-Library.AList" "HOL-Library.Sublist"
begin

text \<open>
  Shared vocabulary of the development: Go's fixed-width integers, the parts of Go's
  \<^verbatim>\<open>strings\<close> package the server uses, Go maps as association lists, and the generic
  lemmas the component theories rest on.

  \<^item> Integers whose bit patterns matter (identifiers, counts, hashes, flags) are words;
    signed ones are read with \<open>sint\<close>. Coordinates are \<open>int\<close> with the wrap-around of
    their Go type written out by \<open>i16\<close>, \<open>i32\<close>.
  \<^item> A Go string is a byte sequence, so it is a \<open>string\<close> (a \<open>char\<close> is 8 bits).
  \<^item> A Go map whose size or contents are enumerated is an association list with distinct
    keys (\<open>AList.update\<close>, \<open>AList.delete\<close>, \<open>map_of\<close>); ranging over it visits the
    entries in list order, and theorems about loops whose order Go leaves open quantify
    over the permutations of the list.
\<close>

named_theorems trim_simps "facts about trimming white space"
named_theorems amap_simps "facts about association lists used as Go maps"

section \<open>Fixed-width integers\<close>

type_synonym u8 = "8 word"
type_synonym u16 = "16 word"
type_synonym u32 = "32 word"
type_synonym u64 = "64 word"
type_synonym bytes = "u8 list"

definition signed_wrap :: "nat \<Rightarrow> int \<Rightarrow> int" where
  "signed_wrap n x = (x + 2 ^ (n - 1)) mod 2 ^ n - 2 ^ (n - 1)"

abbreviation i16 :: "int \<Rightarrow> int" where
  "i16 \<equiv> signed_wrap 16"

abbreviation i32 :: "int \<Rightarrow> int" where
  "i32 \<equiv> signed_wrap 32"

abbreviation in_i16 :: "int \<Rightarrow> bool" where
  "in_i16 x \<equiv> - (2 ^ 15) \<le> x \<and> x < 2 ^ 15"

abbreviation in_i32 :: "int \<Rightarrow> bool" where
  "in_i32 x \<equiv> - (2 ^ 31) \<le> x \<and> x < 2 ^ 31"

lemma i16_id [simp]: "in_i16 x \<Longrightarrow> i16 x = x"
  by (simp add: signed_wrap_def)

lemma i32_id [simp]: "in_i32 x \<Longrightarrow> i32 x = x"
  by (simp add: signed_wrap_def)

lemma i32_range: "in_i32 (i32 x)"
proof -
  have "0 \<le> (x + 2147483648) mod 4294967296" "(x + 2147483648) mod 4294967296 < (4294967296::int)"
    by simp_all
  then show ?thesis by (simp add: signed_wrap_def)
qed

lemma i32_mod: "i32 x mod 2 ^ 32 = x mod 2 ^ 32"
  by (simp add: signed_wrap_def mod_diff_left_eq)

lemma i32_eq_iff: "i32 x = i32 y \<longleftrightarrow> x mod 2 ^ 32 = y mod 2 ^ 32"
proof
  assume "i32 x = i32 y"
  then show "x mod 2 ^ 32 = y mod 2 ^ 32"
    by (metis i32_mod)
next
  assume "x mod 2 ^ 32 = y mod 2 ^ 32"
  then have "(x + 2 ^ 31) mod 2 ^ 32 = (y + 2 ^ 31) mod 2 ^ 32"
    by (rule mod_add_cong) simp
  then show "i32 x = i32 y"
    by (simp add: signed_wrap_def)
qed

lemma ucast_8_16_inject: "(ucast (a :: u8) :: u16) = ucast b \<longleftrightarrow> a = b"
proof
  assume "(ucast a :: u16) = ucast b"
  then have "uint (ucast a :: u16) = uint (ucast b :: u16)" by simp
  moreover have "uint (ucast a :: u16) = uint a" for a :: u8
    using uint_bounded [of a] by (simp add: unsigned_ucast_eq take_bit_eq_mod)
  ultimately have "uint a = uint b" by metis
  then show "a = b" by (rule word_uint_eqI)
qed simp

lemma ucast_16_32_inject: "(ucast (a :: u16) :: u32) = ucast b \<longleftrightarrow> a = b"
proof
  assume "(ucast a :: u32) = ucast b"
  then have "uint (ucast a :: u32) = uint (ucast b :: u32)" by simp
  moreover have "uint (ucast a :: u32) = uint a" for a :: u16
    using uint_bounded [of a] by (simp add: unsigned_ucast_eq take_bit_eq_mod)
  ultimately have "uint a = uint b" by metis
  then show "a = b" by (rule word_uint_eqI)
qed simp

lemma ucast_8_16_zero: "(ucast (c :: u8) :: u16) = 0 \<longleftrightarrow> c = 0"
  by (metis ucast_8_16_inject unsigned_0)

section \<open>Byte strings\<close>

text \<open>
  \<^verbatim>\<open>strings.TrimSpace\<close> removes the white space runes of Unicode. A rune is present at an
  end of a byte string exactly when its UTF-8 encoding is (the encoding is
  self-synchronising), so trimming strips members of the list of encodings.
\<close>

definition spaceRunes :: "string list" where
  "spaceRunes =
     [[CHR 0x09], [CHR 0x0A], [CHR 0x0B], [CHR 0x0C], [CHR 0x0D], [CHR 0x20],
      [CHR 0xC2, CHR 0x85], [CHR 0xC2, CHR 0xA0], [CHR 0xE1, CHR 0x9A, CHR 0x80],
      [CHR 0xE2, CHR 0x80, CHR 0x80], [CHR 0xE2, CHR 0x80, CHR 0x81],
      [CHR 0xE2, CHR 0x80, CHR 0x82], [CHR 0xE2, CHR 0x80, CHR 0x83],
      [CHR 0xE2, CHR 0x80, CHR 0x84], [CHR 0xE2, CHR 0x80, CHR 0x85],
      [CHR 0xE2, CHR 0x80, CHR 0x86], [CHR 0xE2, CHR 0x80, CHR 0x87],
      [CHR 0xE2, CHR 0x80, CHR 0x88], [CHR 0xE2, CHR 0x80, CHR 0x89],
      [CHR 0xE2, CHR 0x80, CHR 0x8A], [CHR 0xE2, CHR 0x80, CHR 0xA8],
      [CHR 0xE2, CHR 0x80, CHR 0xA9], [CHR 0xE2, CHR 0x80, CHR 0xAF],
      [CHR 0xE2, CHR 0x81, CHR 0x9F], [CHR 0xE3, CHR 0x80, CHR 0x80]]"

function strip :: "string list \<Rightarrow> string \<Rightarrow> string" where
  "strip ws s =
     (case find (\<lambda>w. w \<noteq> [] \<and> prefix w s) ws of
        None \<Rightarrow> s
      | Some w \<Rightarrow> strip ws (drop (length w) s))"
  by pat_completeness auto
termination
  by (relation "measure (\<lambda>(ws, s). length s)")
    (auto simp: find_Some_iff prefix_def)

declare strip.simps [simp del]

definition TrimLeftSpace :: "string \<Rightarrow> string" where
  "TrimLeftSpace s = strip spaceRunes s"

definition TrimRightSpace :: "string \<Rightarrow> string" where
  "TrimRightSpace s = rev (strip (map rev spaceRunes) (rev s))"

definition TrimSpace :: "string \<Rightarrow> string" where
  "TrimSpace s = TrimRightSpace (TrimLeftSpace s)"

definition HasPrefix :: "string \<Rightarrow> string \<Rightarrow> bool" where
  "HasPrefix s p = prefix p s"

definition TrimPrefix :: "string \<Rightarrow> string \<Rightarrow> string" where
  "TrimPrefix s p = (if prefix p s then drop (length p) s else s)"

text \<open>\<^verbatim>\<open>strings.Cut\<close> with a one-byte separator: the parts around its first occurrence.\<close>

fun Cut :: "char \<Rightarrow> string \<Rightarrow> (string \<times> string) option" where
  "Cut c [] = None"
| "Cut c (x # xs) =
     (if x = c then Some ([], xs)
      else map_option (\<lambda>(before, after). (x # before, after)) (Cut c xs))"

text \<open>\<^verbatim>\<open>strings.Join\<close>.\<close>

fun Join :: "string list \<Rightarrow> string \<Rightarrow> string" where
  "Join [] sep = []"
| "Join [x] sep = x"
| "Join (x # y # xs) sep = x @ sep @ Join (y # xs) sep"

text \<open>
  \<^verbatim>\<open>strings.ToLower\<close> maps an ASCII string byte by byte; on any other string it uses the
  Unicode case tables, which are a parameter (\<open>ul\<close>) of every definition that lowers case.
\<close>

definition asciiLower :: "char \<Rightarrow> char" where
  "asciiLower c =
     (if 65 \<le> (of_char c :: nat) \<and> (of_char c :: nat) \<le> 90
      then char_of ((of_char c :: nat) + 32) else c)"

definition isASCII :: "string \<Rightarrow> bool" where
  "isASCII s = list_all (\<lambda>c. (of_char c :: nat) < 128) s"

definition ToLower :: "(string \<Rightarrow> string) \<Rightarrow> string \<Rightarrow> string" where
  "ToLower ul s = (if isASCII s then map asciiLower s else ul s)"

text \<open>A string with no white space rune at either end.\<close>

definition trimmed :: "string \<Rightarrow> bool" where
  "trimmed s \<longleftrightarrow>
     list_all (\<lambda>w. \<not> prefix w s \<and> \<not> prefix (rev w) (rev s)) spaceRunes"

lemma find_SomeD: "find P xs = Some x \<Longrightarrow> x \<in> set xs \<and> P x"
  by (induction xs) (auto split: if_splits)

lemma strip_id:
  assumes "\<And>w. w \<in> set ws \<Longrightarrow> w \<noteq> [] \<Longrightarrow> \<not> prefix w s"
  shows "strip ws s = s"
proof -
  have "find (\<lambda>w. w \<noteq> [] \<and> prefix w s) ws = None"
    using assms by (auto simp: find_None_iff)
  then show ?thesis by (subst strip.simps) simp
qed

lemma strip_suffix: "suffix (strip ws s) s"
proof (induction ws s rule: strip.induct)
  case (1 ws s)
  show ?case
  proof (cases "find (\<lambda>w. w \<noteq> [] \<and> prefix w s) ws")
    case None
    then show ?thesis by (subst strip.simps) simp
  next
    case (Some w)
    with 1 have "suffix (strip ws (drop (length w) s)) (drop (length w) s)" by simp
    then have "suffix (strip ws (drop (length w) s)) s"
      using suffix_drop suffix_order.trans by blast
    with Some show ?thesis by (subst strip.simps) simp
  qed
qed

lemma strip_done: "w \<in> set ws \<Longrightarrow> w \<noteq> [] \<Longrightarrow> \<not> prefix w (strip ws s)"
proof (induction ws s rule: strip.induct)
  case (1 ws s)
  show ?case
  proof (cases "find (\<lambda>w. w \<noteq> [] \<and> prefix w s) ws")
    case None
    then have "strip ws s = s" by (subst strip.simps) simp
    with None "1.prems" show ?thesis by (auto simp: find_None_iff)
  next
    case (Some v)
    with 1 show ?thesis by (subst strip.simps) simp
  qed
qed

lemma spaceRunes_nonempty: "w \<in> set spaceRunes \<Longrightarrow> w \<noteq> []"
  by (auto simp: spaceRunes_def)

lemma prefix_TrimRightSpace: "prefix (TrimRightSpace s) s"
  using strip_suffix [of "map rev spaceRunes" "rev s"]
  by (simp add: TrimRightSpace_def suffix_to_prefix)

lemma trimmed_TrimSpace [trim_simps, simp]: "trimmed (TrimSpace s)"
proof -
  let ?l = "TrimLeftSpace s"
  have "\<not> prefix w (TrimRightSpace ?l)" if "w \<in> set spaceRunes" for w
    using strip_done [of w spaceRunes s] prefix_TrimRightSpace [of ?l] that
    by (auto simp: TrimLeftSpace_def spaceRunes_nonempty dest: prefix_order.trans)
  moreover have "\<not> prefix (rev w) (rev (TrimRightSpace ?l))" if "w \<in> set spaceRunes" for w
    using strip_done [of "rev w" "map rev spaceRunes" "rev ?l"] that
    by (auto simp: TrimRightSpace_def spaceRunes_nonempty)
  ultimately show ?thesis
    by (auto simp: trimmed_def TrimSpace_def list_all_iff)
qed

lemma TrimSpace_trimmed [trim_simps]: "trimmed s \<Longrightarrow> TrimSpace s = s"
proof -
  assume t: "trimmed s"
  then have "strip spaceRunes s = s" "strip (map rev spaceRunes) (rev s) = rev s"
    by (auto simp: trimmed_def list_all_iff intro!: strip_id)
  then show ?thesis
    by (simp add: TrimSpace_def TrimLeftSpace_def TrimRightSpace_def)
qed

lemma TrimSpace_idem [trim_simps, simp]: "TrimSpace (TrimSpace s) = TrimSpace s"
  by (simp add: TrimSpace_trimmed)

lemma set_TrimSpace: "set (TrimSpace s) \<subseteq> set s"
proof -
  have "set (TrimSpace s) \<subseteq> set (TrimLeftSpace s)"
    using prefix_TrimRightSpace [of "TrimLeftSpace s"]
    by (simp add: TrimSpace_def set_mono_prefix)
  also have "\<dots> \<subseteq> set s"
    using strip_suffix [of spaceRunes s] by (simp add: TrimLeftSpace_def set_mono_suffix)
  finally show ?thesis .
qed

lemma TrimSpace_Nil [simp]: "TrimSpace [] = []"
  using set_TrimSpace [of "[]"] by simp

lemma length_TrimSpace: "length (TrimSpace s) \<le> length s"
proof -
  have "length (TrimSpace s) \<le> length (TrimLeftSpace s)"
    using prefix_TrimRightSpace [of "TrimLeftSpace s"]
    by (simp add: TrimSpace_def prefix_length_le)
  also have "\<dots> \<le> length s"
    using strip_suffix [of spaceRunes s] by (simp add: TrimLeftSpace_def suffix_length_le)
  finally show ?thesis .
qed

text \<open>
  A string whose first and last bytes are neither ASCII white space nor bytes that can begin
  or end a multi-byte white space rune is already trimmed. In particular every string that
  starts and ends with a printable ASCII byte is.
\<close>

definition printable :: "char \<Rightarrow> bool" where
  "printable c \<longleftrightarrow> 32 < (of_char c :: nat) \<and> (of_char c :: nat) < 127"

lemma trimmedI:
  assumes "s \<noteq> [] \<Longrightarrow> printable (hd s) \<and> printable (last s)"
  shows "trimmed s"
proof (cases "s = []")
  case True
  then show ?thesis by (simp add: trimmed_def list_all_iff spaceRunes_def)
next
  case False
  have p: "printable c \<Longrightarrow> \<not> prefix w (c # cs) \<and> \<not> prefix (rev w) (c # cs)"
    if "w \<in> set spaceRunes" for c cs w
    using that by (auto simp: spaceRunes_def printable_def)
  from False assms have "printable (hd s)" "printable (hd (rev s))"
    by (simp_all add: hd_rev)
  moreover obtain a as b bs where "s = a # as" "rev s = b # bs"
    using False by (metis list.exhaust rev_is_Nil_conv)
  ultimately show ?thesis
    using p by (auto simp: trimmed_def list_all_iff)
qed

lemma Cut_append: "c \<notin> set xs \<Longrightarrow> Cut c (xs @ c # ys) = Some (xs, ys)"
  by (induction xs) auto

lemma Cut_None: "Cut c xs = None \<longleftrightarrow> c \<notin> set xs"
  by (induction xs) auto

lemma Cut_Some: "Cut c s = Some (a, b) \<Longrightarrow> s = a @ c # b \<and> c \<notin> set a"
  by (induction s arbitrary: a) (auto split: if_splits)

section \<open>Go maps as association lists\<close>

type_synonym ('k, 'v) gomap = "('k \<times> 'v) list"

abbreviation wf_map :: "('k, 'v) gomap \<Rightarrow> bool" where
  "wf_map m \<equiv> distinct (map fst m)"

lemma map_of_update [amap_simps]:
  "map_of (AList.update k v m) x = (if x = k then Some v else map_of m x)"
  by (simp add: update_conv')

lemma map_of_delete_eq [amap_simps]:
  "map_of (AList.delete k m) x = (if x = k then None else map_of m x)"
  by (simp add: delete_conv')

lemma set_update_wf:
  "wf_map m \<Longrightarrow> set (AList.update k v m) = insert (k, v) {p \<in> set m. fst p \<noteq> k}"
  by (induction m) (auto simp: image_iff split: if_splits)

lemma map_of_Some_iff: "wf_map m \<Longrightarrow> map_of m k = Some v \<longleftrightarrow> (k, v) \<in> set m"
  by (simp add: map_of_eq_Some_iff)

lemma keys_map_of: "k \<in> fst ` set m \<longleftrightarrow> map_of m k \<noteq> None"
  by (simp add: map_of_eq_None_iff)

lemma map_of_perm:
  assumes "wf_map m" and "set m' = set m" and "wf_map m'"
  shows "map_of m' = map_of m"
  using assms by (metis map_of_inject_set)

section \<open>Loops that stop at the first error\<close>

text \<open>\<^verbatim>\<open>for _, a := range xs { if err := f(a); err != nil { return err } }\<close> over a state.\<close>

fun forE :: "('a \<Rightarrow> 's \<Rightarrow> 'e + 's) \<Rightarrow> 'a list \<Rightarrow> 's \<Rightarrow> 'e + 's" where
  "forE f [] s = Inr s"
| "forE f (a # as) s = (case f a s of Inl e \<Rightarrow> Inl e | Inr s' \<Rightarrow> forE f as s')"

lemma forE_append:
  "forE f (xs @ ys) s = (case forE f xs s of Inl e \<Rightarrow> Inl e | Inr s' \<Rightarrow> forE f ys s')"
  by (induction xs arbitrary: s) (auto split: sum.splits)

lemma forE_invariant:
  assumes "forE f xs s = Inr s'" and "P s"
    and "\<And>a s s'. a \<in> set xs \<Longrightarrow> P s \<Longrightarrow> f a s = Inr s' \<Longrightarrow> P s'"
  shows "P s'"
  using assms
proof (induction xs arbitrary: s)
  case (Cons a as)
  then obtain s1 where "f a s = Inr s1" "forE f as s1 = Inr s'"
    by (auto split: sum.splits)
  with Cons.IH [of s1] Cons.prems show ?case by (metis list.set_intros)
qed simp

section \<open>Cell stores\<close>

text \<open>
  The contract shared by the block and biome stores of a chunk: writes inside the valid
  range succeed and are read back, other valid cells keep their value, writes outside are
  refused. Clients fill a store cell by cell and need the value of every cell afterwards.
\<close>

locale cell_store =
  fixes invar :: "'c \<Rightarrow> bool"
    and valid :: "'c \<Rightarrow> 'p \<Rightarrow> bool"
    and get :: "'c \<Rightarrow> 'p \<Rightarrow> 'v"
    and put :: "'p \<Rightarrow> 'v \<Rightarrow> 'c \<Rightarrow> 'e + 'c"
  assumes put_valid: "invar c \<Longrightarrow> valid c p \<longleftrightarrow> (\<exists>c'. put p v c = Inr c')"
    and invar_put: "invar c \<Longrightarrow> put p v c = Inr c' \<Longrightarrow> invar c' \<and> valid c' = valid c"
    and get_put: "invar c \<Longrightarrow> put p v c = Inr c' \<Longrightarrow> valid c q \<Longrightarrow>
      get c' q = (if q = p then v else get c q)"
begin

lemma put_all_ok:
  "invar c \<Longrightarrow> \<forall>(p, v) \<in> set pvs. valid c p \<Longrightarrow>
     \<exists>c'. forE (\<lambda>(p, v). put p v) pvs c = Inr c' \<and> invar c' \<and> valid c' = valid c"
proof (induction pvs arbitrary: c)
  case (Cons pv pvs)
  obtain p v where pv: "pv = (p, v)" by (cases pv)
  with Cons.prems obtain c1 where c1: "put p v c = Inr c1" "invar c1" "valid c1 = valid c"
    using put_valid invar_put by fastforce
  moreover have "\<forall>(p, v) \<in> set pvs. valid c1 p"
    using Cons.prems(2) c1(3) by simp
  ultimately show ?case using Cons.IH [of c1] pv by simp
qed simp

lemma get_put_all:
  "invar c \<Longrightarrow> forE (\<lambda>(p, v). put p v) pvs c = Inr c' \<Longrightarrow> valid c q \<Longrightarrow>
     get c' q = (case map_of (rev pvs) q of Some v \<Rightarrow> v | None \<Rightarrow> get c q)"
proof (induction pvs arbitrary: c)
  case (Cons pv pvs)
  obtain p v where pv: "pv = (p, v)" by (cases pv)
  with Cons.prems obtain c1 where c1: "put p v c = Inr c1" "forE (\<lambda>(p, v). put p v) pvs c1 = Inr c'"
    by (auto split: sum.splits)
  with Cons.prems have "invar c1" "valid c1 q" using invar_put by metis+
  with Cons.IH c1(2) get_put [OF Cons.prems(1) c1(1) Cons.prems(3)] show ?case
    by (simp add: pv map_add_def split: option.split)
qed simp

end

section \<open>Runs of fallible steps\<close>

text \<open>
  A loop that applies one action after the other to a state and stops at the first error,
  keeping the state reached so far.
\<close>

fun runSteps :: "('a \<Rightarrow> 's \<Rightarrow> 'e option \<times> 's) \<Rightarrow> 'a list \<Rightarrow> 's \<Rightarrow> 'e option \<times> 's" where
  "runSteps step [] s = (None, s)"
| "runSteps step (a # as) s =
     (case step a s of (Some e, s') \<Rightarrow> (Some e, s') | (None, s') \<Rightarrow> runSteps step as s')"

text \<open>
  The contract of such steps: each one, successful or not, keeps an invariant, possibly using
  up one unit of a budget (identifiers that may still be allocated, for instance).
\<close>

locale invariant_steps =
  fixes step :: "'a \<Rightarrow> 's \<Rightarrow> 'e option \<times> 's"
    and allowed :: "'a \<Rightarrow> bool"
    and invar :: "nat \<Rightarrow> 's \<Rightarrow> bool"
  assumes weaken: "invar (Suc k) s \<Longrightarrow> invar k s"
    and step_invar: "invar (Suc k) s \<Longrightarrow> allowed a \<Longrightarrow> step a s = (r, s') \<Longrightarrow> invar k s'"
begin

lemma weaken_all: "invar (n + k) s \<Longrightarrow> invar k s"
  by (induction n) (auto dest: weaken)

lemma run_invar:
  "invar (length as + k) s \<Longrightarrow> list_all allowed as \<Longrightarrow> runSteps step as s = (r, s') \<Longrightarrow> invar k s'"
proof (induction as arbitrary: s)
  case (Cons a as)
  obtain r1 s1 where 1: "step a s = (r1, s1)" by (cases "step a s")
  with Cons.prems have "invar (length as + k) s1" by (auto intro: step_invar)
  with Cons 1 show ?case by (cases r1) (auto dest: weaken_all)
qed simp

end

end
