(* ===== verification/Command.thy ===== *)
theory Command
  imports Prelude "HOL-Library.List_Lexorder" "HOL-Library.Char_ord"
begin

unbundle bit_operations_syntax

text \<open>
  The command package (\<^verbatim>\<open>internal/command/command.go\<close>): the registry of commands and
  aliases, the line parser with its quoting rules, permission checks and dispatch.

  A command's executor runs against the state \<open>'s\<close> of the handler that owns the registry
  and returns a result with the new state. The registry's read/write mutex makes each
  operation atomic, so operations are functions on registry values. Error values carry the
  argument the message is formatted with.
\<close>

section \<open>Data\<close>

record 's sender =
  senderName :: string
  senderHasPermission :: "'s \<Rightarrow> string \<Rightarrow> bool"

record invocation =
  invLabel :: string
  invArgs :: "string list"
  invRawArgs :: string

record result =
  resSuccess :: bool
  resMessages :: "string list"

record parameter =
  parName :: string
  parType :: u32
  parOptional :: bool
  parOptions :: u8

type_synonym 's executor = "'s sender \<Rightarrow> invocation \<Rightarrow> 's \<Rightarrow> result \<times> 's"

record 's command =
  cmdName :: string
  cmdDescription :: string
  cmdUsage :: string
  cmdPermission :: string
  cmdAliases :: "string list"
  cmdParameters :: "parameter list"
  cmdRun :: "'s executor option"

record 's registry =
  commands :: "(string, 's command) gomap"
  aliases :: "(string, string) gomap"
  order :: "string list"

datatype register_error =
    EmptyName
  | NoExecutor string
  | AlreadyRegistered string
  | AliasConflictsWithCommand string
  | AliasAlreadyRegistered string

section \<open>Messages and names\<close>

definition normaliseName :: "(string \<Rightarrow> string) \<Rightarrow> string \<Rightarrow> string" where
  "normaliseName ul name = ToLower ul (TrimSpace (TrimPrefix name ''/''))"

definition compactMessages :: "string list \<Rightarrow> string list" where
  "compactMessages messages = filter (\<lambda>m. m \<noteq> []) (map TrimSpace messages)"

definition Success :: "string list \<Rightarrow> result" where
  "Success messages = \<lparr>resSuccess = True, resMessages = compactMessages messages\<rparr>"

definition Failure :: "string list \<Rightarrow> result" where
  "Failure messages = \<lparr>resSuccess = False, resMessages = compactMessages messages\<rparr>"

section \<open>The registry\<close>

definition NewRegistry :: "'s registry" where
  "NewRegistry = \<lparr>commands = [], aliases = [], order = []\<rparr>"

text \<open>The first loop over the aliases: only checks, in the order given.\<close>

fun checkAliases :: "(string \<Rightarrow> string) \<Rightarrow> 's registry \<Rightarrow> string list \<Rightarrow> register_error option" where
  "checkAliases ul reg [] = None"
| "checkAliases ul reg (a # as) =
     (let alias = normaliseName ul a in
      if alias = [] then checkAliases ul reg as
      else if map_of (commands reg) alias \<noteq> None then Some (AliasConflictsWithCommand alias)
      else if map_of (aliases reg) alias \<noteq> None then Some (AliasAlreadyRegistered alias)
      else checkAliases ul reg as)"

text \<open>The second loop: the writes.\<close>

fun addAliases ::
  "(string \<Rightarrow> string) \<Rightarrow> string \<Rightarrow> string list \<Rightarrow> (string, string) gomap \<Rightarrow> (string, string) gomap"
where
  "addAliases ul name [] m = m"
| "addAliases ul name (a # as) m =
     (let alias = normaliseName ul a in
      addAliases ul name as (if alias \<noteq> [] then AList.update alias name m else m))"

definition Register ::
  "(string \<Rightarrow> string) \<Rightarrow> 's command \<Rightarrow> 's registry \<Rightarrow> register_error + 's registry"
where
  "Register ul cmd0 reg =
     (let cmd1 = cmd0\<lparr>cmdName := normaliseName ul (cmdName cmd0)\<rparr>; name = cmdName cmd1 in
      if name = [] then Inl EmptyName
      else if cmdRun cmd1 = None then Inl (NoExecutor name)
      else
        let cmd = (if cmdUsage cmd1 = [] then cmd1\<lparr>cmdUsage := ''/'' @ name\<rparr> else cmd1) in
        if map_of (commands reg) name \<noteq> None then Inl (AlreadyRegistered name)
        else case checkAliases ul reg (cmdAliases cmd) of
          Some e \<Rightarrow> Inl e
        | None \<Rightarrow>
            Inr \<lparr>commands = AList.update name cmd (commands reg),
                 aliases = addAliases ul name (cmdAliases cmd) (aliases reg),
                 order = sort (order reg @ [name])\<rparr>)"

definition Lookup :: "(string \<Rightarrow> string) \<Rightarrow> 's registry \<Rightarrow> string \<Rightarrow> 's command option" where
  "Lookup ul reg name0 =
     (let name = normaliseName ul name0;
          canonical = (case map_of (aliases reg) name of Some c \<Rightarrow> c | None \<Rightarrow> name)
      in map_of (commands reg) canonical)"

text \<open>Reading a missing key of a Go map gives the zero value of the value type.\<close>

definition zeroCommand :: "'s command" where
  "zeroCommand = \<lparr>cmdName = [], cmdDescription = [], cmdUsage = [], cmdPermission = [],
     cmdAliases = [], cmdParameters = [], cmdRun = None\<rparr>"

definition Visible :: "'s registry \<Rightarrow> 's sender \<Rightarrow> 's \<Rightarrow> 's command list" where
  "Visible reg sender s =
     filter (\<lambda>cmd. senderHasPermission sender s (cmdPermission cmd))
       (map (\<lambda>name. case map_of (commands reg) name of Some c \<Rightarrow> c | None \<Rightarrow> zeroCommand)
         (order reg))"

section \<open>AvailableCommands metadata\<close>

record proto_parameter =
  ppName :: string
  ppType :: u32
  ppOptional :: bool
  ppOptions :: u8

text \<open>
  \<open>pcPermissionAny\<close> records that the permission level is the protocol's constant
  \<^verbatim>\<open>CommandPermissionLevelAny\<close>, which every command gets.
\<close>

record proto_command =
  pcName :: string
  pcDescription :: string
  pcPermissionAny :: bool
  pcAliasesOffset :: u32
  pcOverloads :: "proto_parameter list list"

definition noAliases :: u32 where
  "noAliases = NOT 0"

definition ProtocolCommands :: "'s registry \<Rightarrow> 's sender \<Rightarrow> 's \<Rightarrow> proto_command list" where
  "ProtocolCommands reg sender s =
     map (\<lambda>cmd. \<lparr>pcName = cmdName cmd, pcDescription = cmdDescription cmd,
                 pcPermissionAny = True, pcAliasesOffset = noAliases,
                 pcOverloads =
                   [map (\<lambda>p. \<lparr>ppName = parName p, ppType = parType p,
                             ppOptional = parOptional p, ppOptions = parOptions p\<rparr>)
                     (cmdParameters cmd)]\<rparr>)
       (Visible reg sender s)"

text \<open>\<open>CommandArgValid\<close> is a bit mask of the protocol library, a parameter here.\<close>

definition BasicParameter :: "u32 \<Rightarrow> string \<Rightarrow> u32 \<Rightarrow> bool \<Rightarrow> parameter" where
  "BasicParameter argValid name argType optional =
     \<lparr>parName = name, parType = argValid OR argType, parOptional = optional, parOptions = 0\<rparr>"

section \<open>Parsing\<close>

text \<open>
  Ranging over a Go string decodes UTF-8; a byte that starts no valid encoding yields the
  replacement rune and advances one byte. A rune is represented by the encoding that
  \<^verbatim>\<open>WriteRune\<close> writes for it.
\<close>

definition byteIn :: "nat \<Rightarrow> nat \<Rightarrow> string \<Rightarrow> nat \<Rightarrow> bool" where
  "byteIn lo hi s i \<longleftrightarrow> i < length s \<and> lo \<le> (of_char (s ! i) :: nat) \<and> (of_char (s ! i) :: nat) \<le> hi"

definition twoByte :: "string \<Rightarrow> bool" where
  "twoByte s \<longleftrightarrow> byteIn 0xC2 0xDF s 0 \<and> byteIn 0x80 0xBF s 1"

definition threeByte :: "string \<Rightarrow> bool" where
  "threeByte s \<longleftrightarrow>
     (byteIn 0xE0 0xE0 s 0 \<and> byteIn 0xA0 0xBF s 1
      \<or> byteIn 0xE1 0xEC s 0 \<and> byteIn 0x80 0xBF s 1
      \<or> byteIn 0xED 0xED s 0 \<and> byteIn 0x80 0x9F s 1
      \<or> byteIn 0xEE 0xEF s 0 \<and> byteIn 0x80 0xBF s 1) \<and> byteIn 0x80 0xBF s 2"

definition fourByte :: "string \<Rightarrow> bool" where
  "fourByte s \<longleftrightarrow>
     (byteIn 0xF0 0xF0 s 0 \<and> byteIn 0x90 0xBF s 1
      \<or> byteIn 0xF1 0xF3 s 0 \<and> byteIn 0x80 0xBF s 1
      \<or> byteIn 0xF4 0xF4 s 0 \<and> byteIn 0x80 0x8F s 1)
     \<and> byteIn 0x80 0xBF s 2 \<and> byteIn 0x80 0xBF s 3"

text \<open>The length of the valid encoding a string starts with, 0 when there is none.\<close>

definition runeLen :: "string \<Rightarrow> nat" where
  "runeLen s =
     (if byteIn 0 0x7F s 0 then 1 else if twoByte s then 2
      else if threeByte s then 3 else if fourByte s then 4 else 0)"

definition runeError :: string where
  "runeError = [CHR 0xEF, CHR 0xBF, CHR 0xBD]"

fun runes :: "string \<Rightarrow> string list" where
  "runes [] = []"
| "runes (a # s) =
     (let n = runeLen (a # s) in
      if n = 0 then runeError # runes s
      else take n (a # s) # runes (drop (n - 1) s))"

record split_state =
  spArgs :: "string list"
  spBuilder :: string
  spInQuote :: "string option"
  spEscaped :: bool
  spTokenOpen :: bool

definition splitInit :: split_state where
  "splitInit = \<lparr>spArgs = [], spBuilder = [], spInQuote = None, spEscaped = False, spTokenOpen = False\<rparr>"

text \<open>One iteration of the loop of \<^verbatim>\<open>splitArgs\<close>; \<open>None\<close> stands for the rune 0 of \<^verbatim>\<open>inQuote\<close>.\<close>

definition splitStep :: "string \<Rightarrow> split_state \<Rightarrow> split_state" where
  "splitStep r st =
     (if spEscaped st then
        st\<lparr>spBuilder := spBuilder st @ r, spEscaped := False, spTokenOpen := True\<rparr>
      else if r = [CHR 0x5C] \<and> spInQuote st \<noteq> None then st\<lparr>spEscaped := True\<rparr>
      else case spInQuote st of
        Some q \<Rightarrow>
          if r = q then st\<lparr>spInQuote := None\<rparr>
          else st\<lparr>spBuilder := spBuilder st @ r, spTokenOpen := True\<rparr>
      | None \<Rightarrow>
          if r = [CHR 0x27] \<or> r = [CHR 0x22] then st\<lparr>spInQuote := Some r, spTokenOpen := True\<rparr>
          else if r = [CHR 0x20] \<or> r = [CHR 0x09] then
            (if spTokenOpen st
             then st\<lparr>spArgs := spArgs st @ [spBuilder st], spBuilder := [], spTokenOpen := False\<rparr>
             else st)
          else st\<lparr>spBuilder := spBuilder st @ r, spTokenOpen := True\<rparr>)"

definition splitEnd :: "split_state \<Rightarrow> string + string list" where
  "splitEnd st0 =
     (let st = (if spEscaped st0 then st0\<lparr>spBuilder := spBuilder st0 @ [CHR 0x5C]\<rparr> else st0) in
      if spInQuote st \<noteq> None then Inl ''unterminated quoted argument''
      else if spTokenOpen st then Inr (spArgs st @ [spBuilder st])
      else Inr (spArgs st))"

definition splitArgs :: "string \<Rightarrow> string + string list" where
  "splitArgs value = splitEnd (fold splitStep (runes value) splitInit)"

definition ParseLine ::
  "(string \<Rightarrow> string) \<Rightarrow> string \<Rightarrow> string + (string \<times> string list \<times> string)"
where
  "ParseLine ul line0 =
     (let line = TrimSpace (TrimPrefix (TrimSpace line0) ''/'') in
      if line = [] then Inr ([], [], [])
      else
        let notBlank = (\<lambda>c. c \<noteq> CHR 0x20 \<and> c \<noteq> CHR 0x09);
            label = normaliseName ul (takeWhile notBlank line);
            rawArgs = TrimSpace (dropWhile notBlank line)
        in case splitArgs rawArgs of
             Inl e \<Rightarrow> Inl e
           | Inr args \<Rightarrow> Inr (label, args, rawArgs))"

section \<open>Dispatch\<close>

text \<open>\<open>None\<close> is the panic of calling a nil executor.\<close>

definition Dispatch ::
  "(string \<Rightarrow> string) \<Rightarrow> 's registry \<Rightarrow> 's sender \<Rightarrow> string \<Rightarrow> 's \<Rightarrow> (result \<times> 's) option"
where
  "Dispatch ul reg sender line s =
     (case ParseLine ul line of
        Inl e \<Rightarrow> Some (Failure [e], s)
      | Inr (label, args, rawArgs) \<Rightarrow>
          if label = [] then Some (Failure [''No command was entered.''], s)
          else case Lookup ul reg label of
            None \<Rightarrow> Some (Failure [''Unknown command. Try /help for a list of commands.''], s)
          | Some cmd \<Rightarrow>
              if \<not> senderHasPermission sender s (cmdPermission cmd)
              then Some (Failure [''You do not have permission to use this command.''], s)
              else case cmdRun cmd of
                None \<Rightarrow> None
              | Some run \<Rightarrow>
                  let (res, s') = run sender
                        \<lparr>invLabel = label, invArgs = args, invRawArgs = rawArgs\<rparr> s;
                      res' = (if resMessages res = []
                              then (if resSuccess res
                                    then res\<lparr>resMessages := [''Command executed.'']\<rparr>
                                    else res\<lparr>resMessages := [''Command failed.'']\<rparr>)
                              else res)
                  in Some (res', s'))"

section \<open>The registry invariant\<close>

definition registry_ok :: "'s registry \<Rightarrow> bool" where
  "registry_ok reg \<longleftrightarrow>
     wf_map (commands reg) \<and> sorted (order reg) \<and> distinct (order reg)
     \<and> set (order reg) = fst ` set (commands reg)
     \<and> (\<forall>(n, c) \<in> set (commands reg). cmdName c = n \<and> n \<noteq> [] \<and> cmdRun c \<noteq> None \<and> cmdUsage c \<noteq> [])
     \<and> (\<forall>(a, n) \<in> set (aliases reg). a \<noteq> [] \<and> n \<in> fst ` set (commands reg))"

text \<open>The command as the registry stores it: name normalised, usage filled in.\<close>

definition stored :: "(string \<Rightarrow> string) \<Rightarrow> 's command \<Rightarrow> 's command" where
  "stored ul cmd =
     (let c = cmd\<lparr>cmdName := normaliseName ul (cmdName cmd)\<rparr>
      in if cmdUsage c = [] then c\<lparr>cmdUsage := ''/'' @ cmdName c\<rparr> else c)"

definition ownAliases :: "(string \<Rightarrow> string) \<Rightarrow> 's command \<Rightarrow> string set" where
  "ownAliases ul cmd = normaliseName ul ` set (cmdAliases cmd) - {[]}"

lemma stored_simps [simp]:
  "cmdName (stored ul cmd) = normaliseName ul (cmdName cmd)"
  "cmdRun (stored ul cmd) = cmdRun cmd"
  "cmdAliases (stored ul cmd) = cmdAliases cmd"
  "cmdPermission (stored ul cmd) = cmdPermission cmd"
  "cmdUsage (stored ul cmd) \<noteq> []"
  by (auto simp: stored_def Let_def)

lemma Register_Inr:
  "Register ul cmd reg = Inr reg' \<longleftrightarrow>
     normaliseName ul (cmdName cmd) \<noteq> [] \<and> cmdRun cmd \<noteq> None
     \<and> map_of (commands reg) (normaliseName ul (cmdName cmd)) = None
     \<and> checkAliases ul reg (cmdAliases cmd) = None
     \<and> reg' = \<lparr>commands = AList.update (normaliseName ul (cmdName cmd)) (stored ul cmd) (commands reg),
              aliases = addAliases ul (normaliseName ul (cmdName cmd)) (cmdAliases cmd) (aliases reg),
              order = sort (order reg @ [normaliseName ul (cmdName cmd)])\<rparr>"
  by (auto simp: Register_def stored_def Let_def split: option.splits if_splits)

lemma set_addAliases:
  "set (addAliases ul name as m) \<subseteq> set m \<union> (normaliseName ul ` set as - {[]}) \<times> {name}"
proof (induction as arbitrary: m)
  case (Cons a as)
  have up: "set (AList.update k v m) \<subseteq> insert (k, v) (set m)" for k v
    by (induction m) auto
  let ?m = "if normaliseName ul a \<noteq> [] then AList.update (normaliseName ul a) name m else m"
  have "set ?m \<subseteq> set m \<union> (normaliseName ul ` {a} - {[]}) \<times> {name}"
    using up [of "normaliseName ul a" name] by auto
  with Cons.IH [of ?m] show ?case by (auto simp: Let_def)
qed simp

lemma map_of_addAliases:
  "map_of (addAliases ul name as m) k =
     (if k \<in> normaliseName ul ` set as - {[]} then Some name else map_of m k)"
  by (induction as arbitrary: m) (auto simp: Let_def amap_simps)

lemma checkAliases_None:
  "checkAliases ul reg as = None \<Longrightarrow> k \<in> normaliseName ul ` set as - {[]}
     \<Longrightarrow> map_of (commands reg) k = None \<and> map_of (aliases reg) k = None"
  by (induction as) (auto simp: Let_def split: if_splits)

lemma registry_ok_empty: "registry_ok NewRegistry"
  by (simp add: registry_ok_def NewRegistry_def)

text \<open>
  Register keeps the registry well formed: names in order, distinct and exactly the
  keys of the command table, every command with an executor and a usage line, every alias
  pointing at a registered command.
\<close>

lemma registry_ok_Register:
  assumes ok: "registry_ok reg" and reg: "Register ul cmd reg = Inr reg'"
  shows "registry_ok reg'"
proof -
  let ?n = "normaliseName ul (cmdName cmd)"
  from reg have r: "?n \<noteq> []" "cmdRun cmd \<noteq> None" "map_of (commands reg) ?n = None"
    and reg': "reg' = \<lparr>commands = AList.update ?n (stored ul cmd) (commands reg),
              aliases = addAliases ul ?n (cmdAliases cmd) (aliases reg),
              order = sort (order reg @ [?n])\<rparr>"
    by (simp_all add: Register_Inr)
  from ok have wf: "wf_map (commands reg)" and new: "?n \<notin> set (order reg)"
    using r(3) by (auto simp: registry_ok_def map_of_eq_None_iff)
  have cs: "set (commands reg') = insert (?n, stored ul cmd) {p \<in> set (commands reg). fst p \<noteq> ?n}"
    using wf by (simp add: reg' set_update_wf)
  have keys: "fst ` set (commands reg') = insert ?n (fst ` set (commands reg))"
    by (simp add: reg' dom_update)
  have al: "set (aliases reg') \<subseteq> set (aliases reg) \<union> (normaliseName ul ` set (cmdAliases cmd) - {[]}) \<times> {?n}"
    using set_addAliases [of ul ?n "cmdAliases cmd" "aliases reg"] by (simp add: reg')
  have als: "a \<noteq> [] \<and> n \<in> fst ` set (commands reg')" if "(a, n) \<in> set (aliases reg')" for a n
  proof -
    have "(a, n) \<in> set (aliases reg) \<or> a \<noteq> [] \<and> n = ?n"
      using al that by auto
    with ok keys show ?thesis by (fastforce simp: registry_ok_def)
  qed
  have "cmdName c = n \<and> n \<noteq> [] \<and> cmdRun c \<noteq> None \<and> cmdUsage c \<noteq> []"
    if "(n, c) \<in> set (commands reg')" for n c
    using that ok r unfolding cs by (fastforce simp: registry_ok_def)
  moreover have "set (order reg') = fst ` set (commands reg')" "sorted (order reg')" "distinct (order reg')"
    using ok new keys by (auto simp: registry_ok_def reg')
  moreover have "wf_map (commands reg')"
    using wf by (simp add: reg' distinct_update)
  ultimately show ?thesis
    using als unfolding registry_ok_def by blast
qed

lemma Lookup_Register:
  assumes ok: "registry_ok reg" and reg: "Register ul cmd reg = Inr reg'"
  shows "Lookup ul reg' q =
     (if normaliseName ul q \<in> ownAliases ul cmd
         \<or> normaliseName ul q = normaliseName ul (cmdName cmd)
           \<and> map_of (aliases reg) (normaliseName ul q) = None
      then Some (stored ul cmd) else Lookup ul reg q)"
proof -
  let ?n = "normaliseName ul (cmdName cmd)" and ?q = "normaliseName ul q"
  from reg have new: "map_of (commands reg) ?n = None"
    and cs: "\<And>k. map_of (commands reg') k = (if k = ?n then Some (stored ul cmd) else map_of (commands reg) k)"
    and als: "\<And>k. map_of (aliases reg') k = (if k \<in> ownAliases ul cmd then Some ?n else map_of (aliases reg) k)"
    by (auto simp: Register_Inr map_of_addAliases ownAliases_def amap_simps)
  have tgt: "map_of (aliases reg) k = Some n \<Longrightarrow> n \<noteq> ?n" for k n
    using ok new by (auto simp: registry_ok_def map_of_eq_None_iff dest!: map_of_SomeD)
  show ?thesis
    using tgt by (auto simp: Lookup_def Let_def cs als split: option.split)
qed

lemma Lookup_ok:
  assumes ok: "registry_ok reg" and look: "Lookup ul reg q = Some cmd"
  shows "cmdRun cmd \<noteq> None" and "cmdName cmd \<in> set (order reg)"
proof -
  from look obtain n where "(n, cmd) \<in> set (commands reg)"
    by (auto simp: Lookup_def Let_def dest: map_of_SomeD)
  moreover from this have "n \<in> fst ` set (commands reg)" by force
  ultimately show "cmdRun cmd \<noteq> None" and "cmdName cmd \<in> set (order reg)"
    using ok unfolding registry_ok_def by blast+
qed

section \<open>The registry as a keyed table\<close>

text \<open>
  What a client of the registry relies on: a table that is built by additions which may be
  refused, and in which a key finds the last addition that claimed it. \<open>claims c t\<close> are
  the keys the addition of \<open>c\<close> to the table \<open>t\<close> takes over.
\<close>

locale keyed_table =
  fixes invar :: "'t \<Rightarrow> bool"
    and empty :: "'t"
    and add :: "'c \<Rightarrow> 't \<Rightarrow> 'e + 't"
    and find_key :: "'t \<Rightarrow> 'k \<Rightarrow> 'v option"
    and entry :: "'c \<Rightarrow> 'v"
    and claims :: "'c \<Rightarrow> 't \<Rightarrow> 'k set"
  assumes invar_empty: "invar empty"
    and empty_none: "find_key empty k = None"
    and invar_add: "invar t \<Longrightarrow> add c t = Inr t' \<Longrightarrow> invar t'"
    and find_add: "invar t \<Longrightarrow> add c t = Inr t' \<Longrightarrow>
      find_key t' k = (if k \<in> claims c t then Some (entry c) else find_key t k)"
begin

fun add_all :: "'c list \<Rightarrow> 't \<Rightarrow> 'e + 't" where
  "add_all [] t = Inr t"
| "add_all (c # cs) t = (case add c t of Inl e \<Rightarrow> Inl e | Inr t' \<Rightarrow> add_all cs t')"

lemma invar_add_all: "invar t \<Longrightarrow> add_all cs t = Inr t' \<Longrightarrow> invar t'"
  by (induction cs arbitrary: t) (auto split: sum.splits dest: invar_add)

lemma find_add_all_entry:
  "invar t \<Longrightarrow> add_all cs t = Inr t' \<Longrightarrow> find_key t' k = Some v
     \<Longrightarrow> find_key t k = Some v \<or> (\<exists>c \<in> set cs. v = entry c)"
proof (induction cs arbitrary: t)
  case (Cons c cs)
  from Cons.prems(2) obtain t1 where t1: "add c t = Inr t1" "add_all cs t1 = Inr t'"
    by (auto split: sum.splits)
  have "find_key t1 k = Some v \<or> (\<exists>c \<in> set cs. v = entry c)"
    using Cons.IH t1 Cons.prems invar_add by blast
  then show ?case
    using find_add [OF Cons.prems(1) t1(1), of k] by (auto split: if_splits)
qed simp

lemma only_added: "add_all cs empty = Inr t' \<Longrightarrow> find_key t' k = Some v \<Longrightarrow> \<exists>c \<in> set cs. v = entry c"
  using find_add_all_entry [OF invar_empty] empty_none by fastforce

end

definition claimedKeys :: "(string \<Rightarrow> string) \<Rightarrow> 's command \<Rightarrow> 's registry \<Rightarrow> string set" where
  "claimedKeys ul cmd reg =
     {q. normaliseName ul q \<in> ownAliases ul cmd
         \<or> normaliseName ul q = normaliseName ul (cmdName cmd)
           \<and> map_of (aliases reg) (normaliseName ul q) = None}"

interpretation reg: keyed_table registry_ok NewRegistry "Register ul" "Lookup ul" "stored ul" "claimedKeys ul"
  for ul :: "string \<Rightarrow> string"
proof (unfold_locales, goal_cases)
  case 1 show ?case by (rule registry_ok_empty)
next
  case 2 show ?case by (simp add: Lookup_def NewRegistry_def)
next
  case 3 then show ?case by (rule registry_ok_Register)
next
  case 4 then show ?case by (simp add: Lookup_Register claimedKeys_def)
qed

definition echoCommand :: "string \<Rightarrow> string list \<Rightarrow> unit command" where
  "echoCommand name as = \<lparr>cmdName = name, cmdDescription = ''d'', cmdUsage = [],
     cmdPermission = ''p'', cmdAliases = as, cmdParameters = [],
     cmdRun = Some (\<lambda>_ _ s. (Success [''ok''], s))\<rparr>"

lemma echoCommand_simps [simp]:
  "cmdName (echoCommand n as) = n" "cmdAliases (echoCommand n as) = as"
  "cmdPermission (echoCommand n as) = ''p''" "cmdRun (echoCommand n as) \<noteq> None"
  by (simp_all add: echoCommand_def)

lemma normaliseName_plain:
  assumes "s \<noteq> []" and "list_all (\<lambda>c. printable c \<and> c \<noteq> CHR 0x2F \<and> asciiLower c = c) s"
  shows "normaliseName ul s = s"
proof -
  from assms have p: "printable c \<and> c \<noteq> CHR 0x2F \<and> asciiLower c = c" if "c \<in> set s" for c
    using that by (auto simp: list_all_iff)
  have "isASCII s"
    using p by (fastforce simp: isASCII_def list_all_iff printable_def)
  moreover have "map asciiLower s = s"
    using p by (simp add: map_idI)
  moreover have "trimmed s"
    using p by (intro trimmedI) simp
  moreover have "\<not> prefix ''/'' s"
    using p assms(1) by (cases s) auto
  ultimately show ?thesis
    by (simp add: normaliseName_def TrimPrefix_def ToLower_def TrimSpace_trimmed)
qed

lemma normalise_help [simp]: "normaliseName ul ''help'' = ''help''"
  by (rule normaliseName_plain) (simp_all add: printable_def asciiLower_def)

lemma normalise_h [simp]: "normaliseName ul ''h'' = ''h''"
  by (rule normaliseName_plain) (simp_all add: printable_def asciiLower_def)

lemma Register_example:
  "Register ul (echoCommand ''help'' [''h'']) NewRegistry =
     Inr \<lparr>commands = [(''help'', stored ul (echoCommand ''help'' [''h'']))],
          aliases = [(''h'', ''help'')], order = [''help'']\<rparr>"
  using echoCommand_simps by (simp add: Register_Inr NewRegistry_def)

text \<open>
  What a lookup finds after a successful Register: the new command under each of its
  own aliases, and under its name unless an older alias already uses that name; every
  other query finds what it found before. The second disjunct is where a later command
  can be shadowed: the name is checked against the commands but not against the aliases.
\<close>

lemma lookup_after_register:
  assumes "registry_ok reg" and "Register ul cmd reg = Inr reg'"
  shows "Lookup ul reg' q =
     (if normaliseName ul q \<in> ownAliases ul cmd
         \<or> normaliseName ul q = normaliseName ul (cmdName cmd)
           \<and> map_of (aliases reg) (normaliseName ul q) = None
      then Some (stored ul cmd) else Lookup ul reg q)"
  using reg.find_add [OF assms] by (simp add: claimedKeys_def)

lemma checkAliases_free:
  assumes "\<forall>k \<in> normaliseName ul ` set as - {[]}. map_of (commands reg) k = None \<and> map_of (aliases reg) k = None"
  shows "checkAliases ul reg as = None"
  using assms by (induction as) (auto simp: Let_def)

text \<open>
  C27. A command whose name is already an alias of another command is registered without an error, although no
  query reaches it by that name: the alias wins, and the query finds the other command, as before. Registration
  succeeds as soon as the name is not a command's, the command has an executor and its own aliases are
  unused; these own aliases are the only queries that find the new command.
\<close>

theorem register_shadowed_by_alias:
  assumes "registry_ok reg" and "map_of (aliases reg) (normaliseName ul (cmdName cmd)) = Some other"
    and "map_of (commands reg) (normaliseName ul (cmdName cmd)) = None" and "cmdRun cmd \<noteq> None"
    and "\<forall>k \<in> ownAliases ul cmd. map_of (commands reg) k = None \<and> map_of (aliases reg) k = None"
  shows "\<exists>reg'. Register ul cmd reg = Inr reg' \<and>
    (\<forall>q. normaliseName ul q = normaliseName ul (cmdName cmd) \<longrightarrow>
       Lookup ul reg' q = map_of (commands reg) other \<and> Lookup ul reg' q \<noteq> None) \<and>
    (\<forall>q. Lookup ul reg' q = Some (stored ul cmd) \<longleftrightarrow> normaliseName ul q \<in> ownAliases ul cmd)"
proof -
  let ?n = "normaliseName ul (cmdName cmd)"
  have n: "?n \<noteq> []" "other \<in> fst ` set (commands reg)"
    using assms(1,2) by (auto simp: registry_ok_def dest!: map_of_SomeD)
  then obtain reg' where r: "Register ul cmd reg = Inr reg'"
    using assms(3-5) checkAliases_free [of ul "cmdAliases cmd" reg] by (simp add: Register_Inr ownAliases_def)
  have o: "map_of (commands reg) other \<noteq> None" using n(2) by (simp add: map_of_eq_None_iff)
  have own: "?n \<notin> ownAliases ul cmd" using assms(2,5) by auto
  have old: "Lookup ul reg q \<noteq> Some (stored ul cmd)" for q
  proof
    assume "Lookup ul reg q = Some (stored ul cmd)"
    then obtain k where "(k, stored ul cmd) \<in> set (commands reg)" by (auto simp: Lookup_def Let_def dest: map_of_SomeD)
    then have "(?n, stored ul cmd) \<in> set (commands reg)" using assms(1) by (auto simp: registry_ok_def)
    then have "?n \<in> fst ` set (commands reg)" by force
    then show False using assms(3) by (simp add: map_of_eq_None_iff)
  qed
  have "Lookup ul reg q = map_of (commands reg) other" if "normaliseName ul q = ?n" for q
    using that assms(2) by (simp add: Lookup_def)
  then show ?thesis using r o own old assms(2) by (auto simp: lookup_after_register [OF assms(1) r])
qed

definition helpRegistry :: "(string \<Rightarrow> string) \<Rightarrow> unit registry" where
  "helpRegistry ul = \<lparr>commands = [(''help'', stored ul (echoCommand ''help'' [''h'']))], aliases = [(''h'', ''help'')], order = [''help'']\<rparr>"

text \<open>Witness of \<open>register_shadowed_by_alias\<close>: a command \<^verbatim>\<open>h\<close> beside \<^verbatim>\<open>help\<close> with the alias \<^verbatim>\<open>h\<close>.\<close>

theorem register_shadowed_by_alias_witness:
  "\<exists>reg'. Register id (echoCommand ''h'' []) (helpRegistry id) = Inr reg' \<and>
     Lookup id reg' ''h'' = Some (stored id (echoCommand ''help'' [''h'']))"
proof -
  have ok: "registry_ok (helpRegistry id)"
    using registry_ok_Register [OF registry_ok_empty Register_example [of id]] by (simp add: helpRegistry_def)
  have "\<exists>reg'. Register id (echoCommand ''h'' []) (helpRegistry id) = Inr reg' \<and>
    (\<forall>q. normaliseName id q = normaliseName id (cmdName (echoCommand ''h'' [])) \<longrightarrow>
       Lookup id reg' q = map_of (commands (helpRegistry id)) ''help'' \<and> Lookup id reg' q \<noteq> None) \<and>
    (\<forall>q. Lookup id reg' q = Some (stored id (echoCommand ''h'' [])) \<longleftrightarrow>
       normaliseName id q \<in> ownAliases id (echoCommand ''h'' []))"
    by (rule register_shadowed_by_alias [OF ok]) (simp_all add: helpRegistry_def ownAliases_def)
  then show ?thesis by (auto simp: helpRegistry_def)
qed

section \<open>Visible commands\<close>

lemma Visible_order:
  assumes "registry_ok reg"
  shows "map cmdName (Visible reg sender s) =
     filter (\<lambda>n. \<exists>c. map_of (commands reg) n = Some c \<and> senderHasPermission sender s (cmdPermission c))
       (order reg)"
proof -
  have *: "map cmdName (filter P (map f ns)) = filter Q ns"
    if "\<And>n. n \<in> set ns \<Longrightarrow> cmdName (f n) = n \<and> P (f n) = Q n"
    for P Q and f :: "string \<Rightarrow> 's command" and ns
    using that by (induction ns) auto
  show ?thesis
    unfolding Visible_def
  proof (rule *)
    fix n assume "n \<in> set (order reg)"
    with assms obtain c where c: "map_of (commands reg) n = Some c"
      unfolding registry_ok_def by (metis keys_map_of option.exhaust)
    moreover have "cmdName c = n"
      using assms c unfolding registry_ok_def by (fastforce dest!: map_of_SomeD)
    ultimately show "cmdName (case map_of (commands reg) n of Some c \<Rightarrow> c | None \<Rightarrow> zeroCommand) = n
      \<and> senderHasPermission sender s
          (cmdPermission (case map_of (commands reg) n of Some c \<Rightarrow> c | None \<Rightarrow> zeroCommand))
        = (\<exists>c. map_of (commands reg) n = Some c \<and> senderHasPermission sender s (cmdPermission c))"
      by simp
  qed
qed

text \<open>
  The AvailableCommands list a sender gets names exactly the registered commands it has
  the permission for, in alphabetical order and without repetition.
\<close>

lemma protocol_commands_visible:
  assumes "registry_ok reg"
  shows "sorted (map pcName (ProtocolCommands reg sender s))
    \<and> distinct (map pcName (ProtocolCommands reg sender s))
    \<and> set (map pcName (ProtocolCommands reg sender s)) =
        {n. \<exists>c. map_of (commands reg) n = Some c \<and> senderHasPermission sender s (cmdPermission c)}"
proof -
  have names: "map pcName (ProtocolCommands reg sender s) = map cmdName (Visible reg sender s)"
    by (simp add: ProtocolCommands_def comp_def)
  have "n \<in> set (order reg)" if "map_of (commands reg) n = Some c" for n c
    using assms that unfolding registry_ok_def by (metis keys_map_of option.distinct(1))
  then have "set (map cmdName (Visible reg sender s)) =
      {n. \<exists>c. map_of (commands reg) n = Some c \<and> senderHasPermission sender s (cmdPermission c)}"
    unfolding Visible_order [OF assms] by auto
  moreover have "sorted (map cmdName (Visible reg sender s))" "distinct (map cmdName (Visible reg sender s))"
    using assms unfolding Visible_order [OF assms]
    by (simp_all add: registry_ok_def sorted_filter [of "\<lambda>n. n", simplified])
  ultimately show ?thesis unfolding names by blast
qed

section \<open>Dispatch\<close>

text \<open>
  C12. Dispatch changes the handler's state only by running the executor of a command that
  the line names and that the sender holds the permission for; every refusal (a line that
  does not parse, an unknown command, a missing permission) leaves the state as it was.
\<close>

theorem dispatch_only_permitted:
  assumes "Dispatch ul reg sender line s = Some (res, s')" and "s' \<noteq> s"
  shows "\<exists>label args rawArgs cmd run.
    ParseLine ul line = Inr (label, args, rawArgs) \<and> Lookup ul reg label = Some cmd
    \<and> senderHasPermission sender s (cmdPermission cmd) \<and> cmdRun cmd = Some run
    \<and> s' = snd (run sender \<lparr>invLabel = label, invArgs = args, invRawArgs = rawArgs\<rparr> s)"
  using assms
  by (auto simp: Dispatch_def Let_def split: sum.splits option.splits if_splits prod.splits)

lemma ParseLine_help: "ParseLine id ''/help'' = Inr (''help'', [], [])"
  by code_simp

definition countRegistry :: "nat registry" where
  "countRegistry = \<lparr>commands = [(''help'', zeroCommand\<lparr>cmdName := ''help'', cmdUsage := ''u'',
     cmdRun := Some (\<lambda>_ _ n. (Success [], Suc n))\<rparr>)], aliases = [], order = [''help'']\<rparr>"

lemma countRegistry_ok: "registry_ok countRegistry"
  by (simp add: registry_ok_def countRegistry_def zeroCommand_def)

theorem dispatch_only_permitted_witness:
  "\<exists>label args rawArgs cmd run.
    ParseLine id ''/help'' = Inr (label, args, rawArgs) \<and> Lookup id countRegistry label = Some cmd
    \<and> cmdRun cmd = Some run
    \<and> (1::nat) = snd (run \<lparr>senderName = [], senderHasPermission = (\<lambda>_ _. True)\<rparr>
        \<lparr>invLabel = label, invArgs = args, invRawArgs = rawArgs\<rparr> 0)"
  using dispatch_only_permitted [of id countRegistry
      "\<lparr>senderName = [], senderHasPermission = (\<lambda>_ _. True)\<rparr>" "''/help''" 0
      "\<lparr>resSuccess = True, resMessages = [''Command executed.'']\<rparr>" 1]
  by (auto simp: Dispatch_def ParseLine_help Lookup_def countRegistry_def zeroCommand_def Success_def
      compactMessages_def)

lemma ParseLine_nonempty_error: "ParseLine ul line = Inl e \<Longrightarrow> e = ''unterminated quoted argument''"
  by (auto simp: ParseLine_def splitArgs_def splitEnd_def Let_def split: sum.splits if_splits)

lemma trimmed_message: "m \<noteq> [] \<Longrightarrow> printable (hd m) \<Longrightarrow> printable (last m) \<Longrightarrow> compactMessages [m] = [m]"
  by (simp add: compactMessages_def TrimSpace_trimmed trimmedI)

lemma dispatch_messages [simp]:
  "compactMessages [''unterminated quoted argument''] = [''unterminated quoted argument'']"
  "compactMessages [''No command was entered.''] = [''No command was entered.'']"
  "compactMessages [''Unknown command. Try /help for a list of commands.'']
     = [''Unknown command. Try /help for a list of commands.'']"
  "compactMessages [''You do not have permission to use this command.'']
     = [''You do not have permission to use this command.'']"
  by (rule trimmed_message; simp add: printable_def)+

text \<open>
  On a well-formed registry Dispatch never panics and always answers: it returns a result,
  and the result carries at least one message.
\<close>

lemma dispatch_answers:
  assumes "registry_ok reg"
  shows "\<exists>res s'. Dispatch ul reg sender line s = Some (res, s') \<and> resMessages res \<noteq> []"
proof (cases "ParseLine ul line")
  case (Inl e)
  then show ?thesis
    using ParseLine_nonempty_error [OF Inl] by (simp add: Dispatch_def Failure_def)
next
  case (Inr p)
  obtain label args raw where p: "p = (label, args, raw)" by (cases p)
  show ?thesis
  proof (cases "Lookup ul reg label")
    case None
    with Inr p show ?thesis by (simp add: Dispatch_def Failure_def)
  next
    case (Some cmd)
    then obtain run where "cmdRun cmd = Some run"
      using Lookup_ok(1) [OF assms] by blast
    with Inr p Some show ?thesis
      by (auto simp: Dispatch_def Failure_def Let_def split: prod.split)
  qed
qed

section \<open>Quoting\<close>

text \<open>
  A reference printer for argument lists: every argument in double quotes, with quotes and
  backslashes escaped.
\<close>

definition quoteRune :: "string \<Rightarrow> string list" where
  "quoteRune r = (if r = [CHR 0x22] \<or> r = [CHR 0x5C] then [[CHR 0x5C], r] else [r])"

definition quoteRunes :: "string \<Rightarrow> string list" where
  "quoteRunes a = [CHR 0x22] # concat (map quoteRune (runes a)) @ [[CHR 0x22]]"

definition quoteArg :: "string \<Rightarrow> string" where
  "quoteArg a = concat (quoteRunes a)"

definition validRune :: "string \<Rightarrow> bool" where
  "validRune r \<longleftrightarrow> r \<noteq> [] \<and> runeLen r = length r"

lemma byteIn_take: "byteIn lo hi (take n s) i \<longleftrightarrow> i < n \<and> byteIn lo hi s i"
  by (auto simp: byteIn_def)

lemma byteIn_length: "byteIn lo hi r i \<Longrightarrow> i < length r"
  by (simp add: byteIn_def)

lemma rune_forms_take:
  "2 \<le> n \<Longrightarrow> twoByte (take n s) = twoByte s"
  "3 \<le> n \<Longrightarrow> threeByte (take n s) = threeByte s"
  "4 \<le> n \<Longrightarrow> fourByte (take n s) = fourByte s"
  "twoByte (take n s) \<Longrightarrow> twoByte s"
  "threeByte (take n s) \<Longrightarrow> threeByte s"
  by (auto simp: twoByte_def threeByte_def fourByte_def byteIn_take)

lemma rune_forms_length:
  "twoByte s \<Longrightarrow> 2 \<le> length s"
  "threeByte s \<Longrightarrow> 3 \<le> length s"
  "fourByte s \<Longrightarrow> 4 \<le> length s"
  by (auto simp: twoByte_def threeByte_def fourByte_def byteIn_def)

lemma runeLen_le: "runeLen s \<le> length s"
  using rune_forms_length [of s] byteIn_length [of 0 "0x7F" s 0]
  by (auto simp: runeLen_def Suc_le_eq)

lemma runeLen_take_le: "runeLen s \<le> n \<Longrightarrow> runeLen s \<noteq> 0 \<Longrightarrow> runeLen (take n s) = runeLen s"
  using rune_forms_take [where n = n and s = s]
  by (auto simp: runeLen_def byteIn_take split: if_splits)

lemma runeLen_take: "runeLen s \<noteq> 0 \<Longrightarrow> validRune (take (runeLen s) s)"
  using runeLen_le [of s] runeLen_take_le [of s "runeLen s"] by (auto simp: validRune_def)

lemma runeLen_extend:
  assumes "runeLen r = length r" and "r \<noteq> []"
  shows "runeLen (r @ s) = length r"
proof -
  let ?t = "r @ s"
  have r: "r = take (length r) ?t" by simp
  have "runeLen (take (length r) ?t) = runeLen ?t" if "runeLen ?t \<le> length r" "runeLen ?t \<noteq> 0"
    using that by (rule runeLen_take_le)
  moreover have "runeLen ?t \<le> length r" and "runeLen ?t \<noteq> 0"
    using assms rune_forms_take [where n = "length r" and s = ?t] byteIn_take [of 0 "0x7F" "length r" ?t 0]
    by (auto simp: runeLen_def byteIn_take split: if_splits)
  ultimately show ?thesis using assms by simp
qed

lemma runeLen_append: "validRune r \<Longrightarrow> runeLen (r @ s) = length r"
  using runeLen_extend by (simp add: validRune_def)

lemma runes_Cons_valid:
  assumes "validRune r"
  shows "runes (r @ s) = r # runes s"
proof -
  obtain a r' where r: "r = a # r'" using assms by (cases r) (auto simp: validRune_def)
  have "runeLen (a # r' @ s) = Suc (length r')"
    using runeLen_append [OF assms, of s] r by simp
  then show ?thesis by (simp add: r Let_def)
qed

lemma runes_concat: "list_all validRune rs \<Longrightarrow> runes (concat rs) = rs"
  by (induction rs) (auto simp: runes_Cons_valid)

lemma runes_valid: "list_all validRune (runes s)"
proof (induction s rule: runes.induct)
  case (2 a s)
  have "validRune runeError"
    by (simp add: validRune_def runeError_def runeLen_def twoByte_def threeByte_def byteIn_def)
  then show ?case
    using 2 runeLen_take [of "a # s"] by (auto simp: Let_def)
qed simp

lemma validRune_ascii: "(of_char c :: nat) < 128 \<Longrightarrow> validRune [c]"
  by (simp add: validRune_def runeLen_def byteIn_def)

lemma quoteRunes_valid: "list_all validRune (quoteRunes a)"
proof -
  have "list_all validRune (concat (map quoteRune rs))" if "list_all validRune rs" for rs
    using that by (induction rs) (auto simp: quoteRune_def validRune_ascii)
  then show ?thesis
    using runes_valid [of a] by (simp add: quoteRunes_def validRune_ascii)
qed

lemma splitStep_quoted:
  "fold splitStep (concat (map quoteRune rs))
     \<lparr>spArgs = A, spBuilder = b, spInQuote = Some [CHR 0x22], spEscaped = False, spTokenOpen = True\<rparr>
   = \<lparr>spArgs = A, spBuilder = b @ concat rs, spInQuote = Some [CHR 0x22], spEscaped = False, spTokenOpen = True\<rparr>"
  by (induction rs arbitrary: b) (auto simp: quoteRune_def splitStep_def)

lemma splitStep_quoteRunes:
  "fold splitStep (quoteRunes a)
     \<lparr>spArgs = A, spBuilder = [], spInQuote = None, spEscaped = False, spTokenOpen = False\<rparr>
   = \<lparr>spArgs = A, spBuilder = concat (runes a), spInQuote = None, spEscaped = False, spTokenOpen = True\<rparr>"
  by (simp add: quoteRunes_def splitStep_quoted [of "runes a" A "[]", simplified] splitStep_def)

text \<open>The quoted arguments, separated by blanks, as a list of runes.\<close>

fun lineRunes :: "string list \<Rightarrow> string list" where
  "lineRunes [] = []"
| "lineRunes [a] = quoteRunes a"
| "lineRunes (a # b # as) = quoteRunes a @ [CHR 0x20] # lineRunes (b # as)"

lemma concat_lineRunes: "concat (lineRunes args) = Join (map quoteArg args) '' ''"
  by (induction args rule: lineRunes.induct) (auto simp: quoteArg_def)

lemma lineRunes_valid: "list_all validRune (lineRunes args)"
  by (induction args rule: lineRunes.induct) (auto simp: quoteRunes_valid validRune_ascii)

lemma split_lineRunes:
  "splitEnd (fold splitStep (lineRunes args)
     \<lparr>spArgs = A, spBuilder = [], spInQuote = None, spEscaped = False, spTokenOpen = False\<rparr>)
   = Inr (A @ map (concat \<circ> runes) args)"
proof (induction args arbitrary: A rule: lineRunes.induct)
  case (3 a b as)
  have "splitStep [CHR 0x20]
      \<lparr>spArgs = A, spBuilder = w, spInQuote = None, spEscaped = False, spTokenOpen = True\<rparr>
    = \<lparr>spArgs = A @ [w], spBuilder = [], spInQuote = None, spEscaped = False, spTokenOpen = False\<rparr>" for w
    by (simp add: splitStep_def)
  with 3 [of "A @ [concat (runes a)]"] show ?case
    by (simp add: splitStep_quoteRunes)
qed (simp_all add: splitEnd_def splitStep_quoteRunes)

lemma runes_ascii: "isASCII s \<Longrightarrow> concat (runes s) = s"
proof (induction s rule: runes.induct)
  case (2 a s)
  then have "runeLen (a # s) = 1" by (simp add: runeLen_def byteIn_def isASCII_def)
  with 2 show ?case by (simp add: isASCII_def)
qed simp

text \<open>
  C26. Quoting is complete: any list of arguments, written in double quotes with escapes and
  separated by blanks, is split back into exactly these arguments (where a byte that is not
  valid UTF-8 becomes the replacement rune, as it does when a Go string is ranged over).
\<close>

theorem splitArgs_quoteArg:
  "splitArgs (Join (map quoteArg args) '' '') = Inr (map (concat \<circ> runes) args)"
  using split_lineRunes [of args "[]"] lineRunes_valid [of args]
  by (simp add: splitArgs_def splitInit_def runes_concat flip: concat_lineRunes)

end
