(* ===== verification/Runtime.thy ===== *)
theory Runtime
  imports Prelude "HOL-Library.List_Lexorder" "HOL-Library.Char_ord"
begin

unbundle bit_operations_syntax

text \<open>
  Block runtime identifiers (\<^verbatim>\<open>internal/world/runtime.go\<close>): block states, the FNV-1a hash of
  their network NBT form that clients use as the runtime ID, and the biome table.

  The NBT encoder is third-party code: \<open>enc key value\<close> stands for the bytes that
  \<^verbatim>\<open>nbt.NewEncoderWithEncoding(buf, nbt.LittleEndian).Encode(map[string]any{key: value})\<close> leaves
  in the buffer. What the code relies on is \<open>nbt_compound\<close>: the output is a root compound tag
  (\<^verbatim>\<open>10 0 0\<close>), the field and the end tag \<^verbatim>\<open>0\<close>. Without it the slice expression of
  \<^verbatim>\<open>marshalNBTField\<close> can panic, which is the value \<open>None\<close>.
\<close>

datatype anyval = AnyString string | AnyByte u8 | AnyInt32 u32 | AnyBool bool

type_synonym nbt_encoder = "string \<Rightarrow> anyval \<Rightarrow> bytes"

record BlockState =
  Name :: string
  Properties :: "(string, anyval) gomap"

definition AirBlock :: BlockState where
  "AirBlock = \<lparr>Name = ''minecraft:air'', Properties = []\<rparr>"

definition BedrockBlock :: BlockState where
  "BedrockBlock = \<lparr>Name = ''minecraft:bedrock'', Properties = [(''infiniburn_bit'', AnyByte 0)]\<rparr>"

definition DirtBlock :: BlockState where
  "DirtBlock = \<lparr>Name = ''minecraft:dirt'', Properties = []\<rparr>"

definition GrassBlock :: BlockState where
  "GrassBlock = \<lparr>Name = ''minecraft:grass_block'', Properties = []\<rparr>"

definition InfoUpdateBlock :: BlockState where
  "InfoUpdateBlock = \<lparr>Name = ''minecraft:info_update'', Properties = []\<rparr>"

record Biome =
  biomeName :: string
  biomeID :: u32

definition fnv1a32Init :: u32 where
  "fnv1a32Init = 0x811c9dc5"

definition fnv1a32Prime :: u32 where
  "fnv1a32Prime = 0x01000193"

definition byteOf :: "char \<Rightarrow> u8" where
  "byteOf c = of_nat (of_char c)"

text \<open>\<^verbatim>\<open>buf.Bytes()[3 : buf.Len()-1]\<close>; the slice panics when the buffer is shorter than 4 bytes.\<close>

definition marshalNBTField :: "nbt_encoder \<Rightarrow> string \<Rightarrow> anyval \<Rightarrow> bytes option" where
  "marshalNBTField enc key val =
     (let buf = enc key val in
      if length buf < 4 then None else Some (drop 3 (take (length buf - 1) buf)))"

fun writeFields :: "nbt_encoder \<Rightarrow> (string \<rightharpoonup> anyval) \<Rightarrow> string list \<Rightarrow> bytes option" where
  "writeFields enc states [] = Some []"
| "writeFields enc states (key # keys) =
     (case marshalNBTField enc key (the (states key)) of
        None \<Rightarrow> None
      | Some field \<Rightarrow> map_option (\<lambda>rest. field @ rest) (writeFields enc states keys))"

definition hashBytes :: "bytes \<Rightarrow> u32" where
  "hashBytes bs = foldl (\<lambda>hash val. (hash XOR ucast val) * fnv1a32Prime) fnv1a32Init bs"

text \<open>The bytes that are hashed: keys are visited in sorted order.\<close>

definition stateBytes :: "nbt_encoder \<Rightarrow> BlockState \<Rightarrow> bytes option" where
  "stateBytes enc state =
     (case marshalNBTField enc ''name'' (AnyString (Name state)) of
        None \<Rightarrow> None
      | Some name \<Rightarrow>
          map_option (\<lambda>fields. [10, 0, 0] @ name @ [10, 6, 0] @ map byteOf ''states'' @ fields @ [0, 0])
            (writeFields enc (map_of (Properties state)) (sort (map fst (Properties state)))))"

definition BlockStateHash :: "nbt_encoder \<Rightarrow> BlockState \<Rightarrow> u32 option" where
  "BlockStateHash enc state =
     (if Name state = ''minecraft:unknown'' \<or> Name state = ''unknown'' then Some (NOT 1)
      else map_option hashBytes (stateBytes enc state))"

datatype runtime_error = EmptyBlockName | MarshalPanic

definition RegistryRuntimeID :: "nbt_encoder \<Rightarrow> BlockState \<Rightarrow> runtime_error + u32" where
  "RegistryRuntimeID enc state =
     (if Name state = '''' then Inl EmptyBlockName
      else case BlockStateHash enc state of None \<Rightarrow> Inl MarshalPanic | Some h \<Rightarrow> Inr h)"

datatype biome_error = EmptyBiomeName | UnknownBiome string

definition BiomeByName :: "string \<Rightarrow> biome_error + Biome" where
  "BiomeByName name =
     (if name = '''' then Inl EmptyBiomeName
      else if name = ''plains'' \<or> name = ''minecraft:plains''
      then Inr \<lparr>biomeName = ''plains'', biomeID = 1\<rparr>
      else Inl (UnknownBiome name))"

section \<open>Runtime identifiers\<close>

definition nbt_compound :: "nbt_encoder \<Rightarrow> bool" where
  "nbt_compound enc \<longleftrightarrow> (\<forall>key val. \<exists>field. enc key val = [10, 0, 0] @ field @ [0])"

text \<open>A concrete encoder of the documented shape, for string and byte fields.\<close>

definition sampleEncoder :: nbt_encoder where
  "sampleEncoder key val = [10, 0, 0] @
     (case val of
        AnyString s \<Rightarrow> 8 # of_nat (length key) # 0 # map byteOf key @ of_nat (length s) # 0 # map byteOf s
      | AnyByte b \<Rightarrow> 1 # of_nat (length key) # 0 # map byteOf key @ [b]
      | AnyInt32 w \<Rightarrow> 3 # of_nat (length key) # 0 # map byteOf key @
          [ucast w, ucast (drop_bit 8 w), ucast (drop_bit 16 w), ucast (drop_bit 24 w)]
      | AnyBool b \<Rightarrow> 1 # of_nat (length key) # 0 # map byteOf key @ [of_bool b]) @ [0]"

lemma sampleEncoder_compound: "nbt_compound sampleEncoder"
  by (auto simp: nbt_compound_def sampleEncoder_def)

lemma marshalNBTField_field: "enc key val = [10, 0, 0] @ field @ [0] \<Longrightarrow> marshalNBTField enc key val = Some field"
  by (simp add: marshalNBTField_def)

lemma marshalNBTField_ok: "nbt_compound enc \<Longrightarrow> \<exists>field. marshalNBTField enc key val = Some field"
  unfolding nbt_compound_def using marshalNBTField_field by metis

lemma writeFields_ok: "nbt_compound enc \<Longrightarrow> \<exists>bs. writeFields enc states keys = Some bs"
proof (induction keys)
  case (Cons key keys)
  then show ?case using marshalNBTField_ok [of enc key "the (states key)"] by auto
qed simp

lemma BlockStateHash_ok: "nbt_compound enc \<Longrightarrow> \<exists>h. BlockStateHash enc state = Some h"
  using marshalNBTField_ok [of enc "''name''" "AnyString (Name state)"]
    writeFields_ok [of enc "map_of (Properties state)" "sort (map fst (Properties state))"]
  by (auto simp: BlockStateHash_def stateBytes_def)

lemma RegistryRuntimeID_ok:
  assumes "nbt_compound enc" and "Name state \<noteq> ''''"
  shows "\<exists>h. RegistryRuntimeID enc state = Inr h"
  using BlockStateHash_ok [OF assms(1), of state] assms(2) by (auto simp: RegistryRuntimeID_def)

lemma RegistryRuntimeID_total:
  "nbt_compound enc \<Longrightarrow> RegistryRuntimeID enc state = Inl e \<longleftrightarrow> Name state = '''' \<and> e = EmptyBlockName"
  using RegistryRuntimeID_ok [of enc state] by (auto simp: RegistryRuntimeID_def)

lemma names_nonempty [simp]:
  "Name AirBlock \<noteq> []" "Name BedrockBlock \<noteq> []" "Name DirtBlock \<noteq> []" "Name GrassBlock \<noteq> []"
  by (simp_all add: AirBlock_def BedrockBlock_def DirtBlock_def GrassBlock_def)

text \<open>
  The runtime ID of a block state does not depend on the order in which Go's map iteration
  delivers its properties: two states with the same name and the same property map, listed in
  any order, hash alike, for every NBT encoder. Keys are sorted before they are hashed.
\<close>

lemma runtime_id_order_independent:
  assumes "wf_map ps" and "set qs = set ps" and "wf_map qs"
  shows "RegistryRuntimeID enc \<lparr>Name = n, Properties = qs\<rparr> = RegistryRuntimeID enc \<lparr>Name = n, Properties = ps\<rparr>"
proof -
  have "sort (map fst qs) = sort (map fst ps)"
    using assms by (intro sorted_distinct_set_unique) simp_all
  then show ?thesis
    using map_of_perm [OF assms]
    by (simp add: RegistryRuntimeID_def BlockStateHash_def stateBytes_def cong: option.case_cong)
qed

end
