(* ===== verification/World.thy ===== *)
theory World
  imports Prelude Runtime Complex_Main
begin

unbundle bit_operations_syntax

text \<open>
  World data (\<^verbatim>\<open>internal/world/types.go\<close>): dimensions and their vertical range, chunks with
  sparse block layers and biome overrides, and the queries the chunk publisher makes.

  \<^verbatim>\<open>int16\<close> and \<^verbatim>\<open>int32\<close> coordinates are \<open>int\<close> with the wrap-around of each operation
  written out; \<^verbatim>\<open>uint8\<close> columns and layers, block keys and runtime IDs are words. A nil Go
  map and an empty one behave alike here, so both are the empty association list. Slices
  of sub-chunks are indexed with \<open>!\<close>; \<open>SubIndex_range\<close> shows that every index the code
  computes from a checked position is inside the slice.
\<close>

section \<open>Positions and dimensions\<close>

record ChunkPos =
  chunkX :: int
  chunkZ :: int

record BlockPos =
  blockX :: int
  blockY :: int
  blockZ :: int

text \<open>The spawn position is a finite \<^verbatim>\<open>float32\<close> vector, so its coordinates are rationals.\<close>

record Vec3 =
  vecX :: rat
  vecY :: rat
  vecZ :: rat

record BuildRange =
  brMin :: int
  brMax :: int

definition Height :: "BuildRange \<Rightarrow> int" where
  "Height r = i16 (brMax r - brMin r) + 1"

record Dimension =
  dimID :: int
  dimMinY :: int
  dimMaxY :: int

definition Overworld :: Dimension where
  "Overworld = \<lparr>dimID = 0, dimMinY = -64, dimMaxY = 319\<rparr>"

definition withDefaults :: "Dimension \<Rightarrow> Dimension" where
  "withDefaults d = (if dimMaxY d \<le> dimMinY d then Overworld else d)"

definition floorDiv16 :: "int \<Rightarrow> int" where
  "floorDiv16 v = (if v \<ge> 0 then v div 16 else i32 (- (i32 (i32 (- v) + 15) div 16)))"

definition ID :: "Dimension \<Rightarrow> int" where
  "ID d = dimID (withDefaults d)"

definition MinY :: "Dimension \<Rightarrow> int" where
  "MinY d = dimMinY (withDefaults d)"

definition MaxY :: "Dimension \<Rightarrow> int" where
  "MaxY d = dimMaxY (withDefaults d)"

definition Range :: "Dimension \<Rightarrow> BuildRange" where
  "Range d = \<lparr>brMin = dimMinY (withDefaults d), brMax = dimMaxY (withDefaults d)\<rparr>"

definition MinSubY :: "Dimension \<Rightarrow> int" where
  "MinSubY d = floorDiv16 (MinY d)"

definition MaxSubY :: "Dimension \<Rightarrow> int" where
  "MaxSubY d = floorDiv16 (MaxY d)"

definition SubChunkCount :: "Dimension \<Rightarrow> int" where
  "SubChunkCount d = i32 (MaxSubY d - MinSubY d) + 1"

section \<open>Chunks\<close>

type_synonym blocks = "(u16, u32) gomap"
type_synonym subChunk = "(u8, blocks) gomap"

record Chunk =
  position :: ChunkPos
  dimension :: Dimension
  subChunks :: "subChunk list"
  biomeOverrides :: "(u32, u32) gomap"
  defaultBiomeID :: u32
  airRuntimeID :: u32

datatype block_error = ColumnOutside u8 u8 | HeightOutside int | BlockUnresolved runtime_error

definition NewChunk :: "nbt_encoder \<Rightarrow> ChunkPos \<Rightarrow> Dimension \<Rightarrow> runtime_error + Chunk" where
  "NewChunk enc pos d0 =
     (let d = withDefaults d0 in
      case RegistryRuntimeID enc AirBlock of
        Inl e \<Rightarrow> Inl e
      | Inr air \<Rightarrow>
          Inr \<lparr>position = pos, dimension = d, subChunks = replicate (nat (SubChunkCount d)) [],
               biomeOverrides = [], defaultBiomeID = 0, airRuntimeID = air\<rparr>)"

definition checkBlockPosition :: "Chunk \<Rightarrow> u8 \<Rightarrow> int \<Rightarrow> u8 \<Rightarrow> block_error option" where
  "checkBlockPosition chunk x y z =
     (if x > 15 \<or> z > 15 then Some (ColumnOutside x z)
      else if y < MinY (dimension chunk) \<or> y > MaxY (dimension chunk) then Some (HeightOutside y)
      else None)"

definition blockOffset :: "u8 \<Rightarrow> int \<Rightarrow> u8 \<Rightarrow> u16" where
  "blockOffset x y z =
     push_bit 8 (ucast (x AND 15)) OR push_bit 4 (ucast (z AND 15)) OR word_of_int (y AND 15)"

definition SubIndex :: "Chunk \<Rightarrow> int \<Rightarrow> int" where
  "SubIndex chunk y = i32 (floorDiv16 y - MinSubY (dimension chunk))"

definition SubY :: "Chunk \<Rightarrow> int \<Rightarrow> int" where
  "SubY chunk index = i16 (i32 (push_bit 4 (i32 (MinSubY (dimension chunk) + i32 index))))"

text \<open>\<^verbatim>\<open>sub.layers[layer]\<close>: a missing layer reads as the nil map.\<close>

definition layerBlocks :: "subChunk \<Rightarrow> u8 \<Rightarrow> blocks" where
  "layerBlocks sub layer = (case map_of sub layer of Some b \<Rightarrow> b | None \<Rightarrow> [])"

definition deleteRuntimeID :: "Chunk \<Rightarrow> int \<Rightarrow> u8 \<Rightarrow> int \<Rightarrow> u8 \<Rightarrow> u8 \<Rightarrow> Chunk" where
  "deleteRuntimeID chunk index x y z layer =
     (let sub = subChunks chunk ! nat index; blocks = layerBlocks sub layer in
      if blocks = [] then chunk
      else
        let blocks' = AList.delete (blockOffset x y z) blocks;
            sub' = (if blocks' = [] then AList.delete layer sub else AList.update layer blocks' sub)
        in chunk\<lparr>subChunks := (subChunks chunk)[nat index := sub']\<rparr>)"

definition SetRuntimeID ::
  "u8 \<Rightarrow> int \<Rightarrow> u8 \<Rightarrow> u8 \<Rightarrow> u32 \<Rightarrow> Chunk \<Rightarrow> block_error + Chunk"
where
  "SetRuntimeID x y z layer runtimeID chunk =
     (case checkBlockPosition chunk x y z of
        Some e \<Rightarrow> Inl e
      | None \<Rightarrow>
          let index = SubIndex chunk y in
          if runtimeID = airRuntimeID chunk then Inr (deleteRuntimeID chunk index x y z layer)
          else
            let sub = subChunks chunk ! nat index;
                blocks' = AList.update (blockOffset x y z) runtimeID (layerBlocks sub layer)
            in Inr (chunk\<lparr>subChunks := (subChunks chunk)[nat index := AList.update layer blocks' sub]\<rparr>))"

definition SetBlock ::
  "nbt_encoder \<Rightarrow> u8 \<Rightarrow> int \<Rightarrow> u8 \<Rightarrow> u8 \<Rightarrow> BlockState \<Rightarrow> Chunk \<Rightarrow> block_error + Chunk"
where
  "SetBlock enc x y z layer state chunk =
     (case RegistryRuntimeID enc state of
        Inl e \<Rightarrow> Inl (BlockUnresolved e)
      | Inr runtimeID \<Rightarrow> SetRuntimeID x y z layer runtimeID chunk)"

definition RuntimeID :: "Chunk \<Rightarrow> u8 \<Rightarrow> int \<Rightarrow> u8 \<Rightarrow> u8 \<Rightarrow> u32" where
  "RuntimeID chunk x y z layer =
     (if x > 15 \<or> z > 15 \<or> y < MinY (dimension chunk) \<or> y > MaxY (dimension chunk)
      then airRuntimeID chunk
      else
        let blocks = layerBlocks (subChunks chunk ! nat (SubIndex chunk y)) layer in
        if blocks = [] then airRuntimeID chunk
        else case map_of blocks (blockOffset x y z) of
          Some runtimeID \<Rightarrow> runtimeID
        | None \<Rightarrow> airRuntimeID chunk)"

definition FillBiomeID :: "u32 \<Rightarrow> Chunk \<Rightarrow> Chunk" where
  "FillBiomeID biome chunk = chunk\<lparr>defaultBiomeID := biome, biomeOverrides := []\<rparr>"

definition biomeOffset :: "Chunk \<Rightarrow> u8 \<Rightarrow> int \<Rightarrow> u8 \<Rightarrow> u32" where
  "biomeOffset chunk x y z = push_bit 12 (word_of_int (SubIndex chunk y)) OR ucast (blockOffset x y z)"

definition SetBiomeID :: "u8 \<Rightarrow> int \<Rightarrow> u8 \<Rightarrow> u32 \<Rightarrow> Chunk \<Rightarrow> block_error + Chunk" where
  "SetBiomeID x y z biome chunk =
     (case checkBlockPosition chunk x y z of
        Some e \<Rightarrow> Inl e
      | None \<Rightarrow>
          let key = biomeOffset chunk x y z in
          if biome = defaultBiomeID chunk
          then Inr (chunk\<lparr>biomeOverrides := AList.delete key (biomeOverrides chunk)\<rparr>)
          else Inr (chunk\<lparr>biomeOverrides := AList.update key biome (biomeOverrides chunk)\<rparr>))"

definition BiomeID :: "Chunk \<Rightarrow> u8 \<Rightarrow> int \<Rightarrow> u8 \<Rightarrow> u32" where
  "BiomeID chunk x y z =
     (if x > 15 \<or> z > 15 \<or> y < MinY (dimension chunk) \<or> y > MaxY (dimension chunk)
      then defaultBiomeID chunk
      else case map_of (biomeOverrides chunk) (biomeOffset chunk x y z) of
        Some biome \<Rightarrow> biome
      | None \<Rightarrow> defaultBiomeID chunk)"

definition subEmpty :: "subChunk \<Rightarrow> bool" where
  "subEmpty sub = list_all (\<lambda>(layer, blocks). blocks = []) sub"

definition SubChunkEmpty :: "Chunk \<Rightarrow> int \<Rightarrow> bool" where
  "SubChunkEmpty chunk index =
     (if index < 0 \<or> index \<ge> int (length (subChunks chunk)) then True
      else subEmpty (subChunks chunk ! nat index))"

definition SubChunkLayerCount :: "Chunk \<Rightarrow> int \<Rightarrow> int" where
  "SubChunkLayerCount chunk index =
     (if index < 0 \<or> index \<ge> int (length (subChunks chunk)) then 0
      else fold (\<lambda>(layer, blocks) highest.
                   if blocks \<noteq> [] \<and> uint layer > highest then uint layer else highest)
             (subChunks chunk ! nat index) (-1) + 1)"

definition HighestFilledSubChunk :: "Chunk \<Rightarrow> u16" where
  "HighestFilledSubChunk chunk =
     (case find (\<lambda>index. \<not> SubChunkEmpty chunk index) (rev [1..int (length (subChunks chunk)) - 1]) of
        Some index \<Rightarrow> word_of_int index
      | None \<Rightarrow> 0)"

text \<open>The heights the two loops of \<^verbatim>\<open>HighestBlockY\<close> visit, in their order.\<close>

definition heightCandidates :: "Chunk \<Rightarrow> int list" where
  "heightCandidates chunk =
     concat (map (\<lambda>index. if SubChunkEmpty chunk index then []
                          else map (\<lambda>y. i16 (SubY chunk index + y)) (rev [0..15]))
       (rev [0..int (length (subChunks chunk)) - 1]))"

definition HighestBlockY :: "Chunk \<Rightarrow> u8 \<Rightarrow> u8 \<Rightarrow> u8 \<Rightarrow> int" where
  "HighestBlockY chunk x z layer =
     (case find (\<lambda>y. RuntimeID chunk x y z layer \<noteq> airRuntimeID chunk) (heightCandidates chunk) of
        Some y \<Rightarrow> y
      | None \<Rightarrow> MinY (dimension chunk))"

section \<open>Coordinates\<close>

lemma floorDiv16_div:
  assumes "in_i16 v"
  shows "floorDiv16 v = v div 16"
proof (cases "v \<ge> 0")
  case False
  have "- v + 15 = 16 * (- (v div 16)) + (15 - v mod 16)" "0 \<le> 15 - v mod 16" "15 - v mod 16 < 16"
    using mult_div_mod_eq [of 16 v] pos_mod_bound [of 16 v] pos_mod_sign [of 16 v] by linarith+
  then have neg: "- ((- v + 15) div 16) = v div 16"
    using int_div_pos_eq [of "- v + 15" 16 "- (v div 16)"] by simp
  moreover have "in_i32 (- v)" "in_i32 (- v + 15)" "in_i32 (v div 16)"
    using assms False by auto
  ultimately have "i32 (- (i32 (i32 (- v) + 15) div 16)) = v div 16"
    by simp
  with False show ?thesis by (simp add: floorDiv16_def)
qed (simp add: floorDiv16_def)

definition dim_ok :: "Dimension \<Rightarrow> bool" where
  "dim_ok d \<longleftrightarrow> in_i16 (dimMinY d) \<and> in_i16 (dimMaxY d) \<and> dimMinY d < dimMaxY d"

lemma dim_ok_Overworld [simp]: "dim_ok Overworld"
  by (simp add: dim_ok_def Overworld_def)

lemma withDefaults_ok: "in_i16 (dimMinY d) \<Longrightarrow> in_i16 (dimMaxY d) \<Longrightarrow> dim_ok (withDefaults d)"
  by (simp add: withDefaults_def dim_ok_def Overworld_def)

lemma dim_ok_simps:
  assumes "dim_ok d"
  shows "withDefaults d = d" "MinY d = dimMinY d" "MaxY d = dimMaxY d" "ID d = dimID d"
    "MinSubY d = dimMinY d div 16" "MaxSubY d = dimMaxY d div 16"
    "SubChunkCount d = dimMaxY d div 16 - dimMinY d div 16 + 1" "0 < SubChunkCount d"
proof -
  from assms have d: "in_i16 (dimMinY d)" "in_i16 (dimMaxY d)" "dimMinY d < dimMaxY d"
    by (simp_all add: dim_ok_def)
  then show w: "withDefaults d = d" by (simp add: withDefaults_def)
  then show m: "MinY d = dimMinY d" "MaxY d = dimMaxY d" "ID d = dimID d"
    by (simp_all add: MinY_def MaxY_def ID_def)
  from d m show s: "MinSubY d = dimMinY d div 16" "MaxSubY d = dimMaxY d div 16"
    by (simp_all add: MinSubY_def MaxSubY_def floorDiv16_div)
  from d have "in_i32 (dimMaxY d div 16 - dimMinY d div 16)" "dimMinY d div 16 \<le> dimMaxY d div 16"
    by auto
  then show "SubChunkCount d = dimMaxY d div 16 - dimMinY d div 16 + 1" "0 < SubChunkCount d"
    by (simp_all add: SubChunkCount_def s)
qed

definition chunk_shape :: "Chunk \<Rightarrow> bool" where
  "chunk_shape c \<longleftrightarrow> dim_ok (dimension c) \<and> int (length (subChunks c)) = SubChunkCount (dimension c)"

abbreviation inHeight :: "Chunk \<Rightarrow> int \<Rightarrow> bool" where
  "inHeight c y \<equiv> MinY (dimension c) \<le> y \<and> y \<le> MaxY (dimension c)"

lemma SubIndex_eq:
  assumes "chunk_shape c" and "in_i16 y"
  shows "SubIndex c y = y div 16 - dimMinY (dimension c) div 16"
proof -
  have "in_i16 (dimMinY (dimension c))"
    using assms(1) by (simp add: chunk_shape_def dim_ok_def)
  with assms(2) have "in_i32 (y div 16 - dimMinY (dimension c) div 16)" by auto
  with assms show ?thesis
    by (simp add: SubIndex_def floorDiv16_div dim_ok_simps chunk_shape_def)
qed

lemma inHeight_i16: "chunk_shape c \<Longrightarrow> inHeight c y \<Longrightarrow> in_i16 y"
  by (auto simp: chunk_shape_def dim_ok_simps dim_ok_def)

lemma SubIndex_range:
  assumes "chunk_shape c" and "inHeight c y"
  shows "0 \<le> SubIndex c y" and "SubIndex c y < int (length (subChunks c))"
proof -
  have d: "dim_ok (dimension c)" using assms(1) by (simp add: chunk_shape_def)
  have "dimMinY (dimension c) \<le> y" "y \<le> dimMaxY (dimension c)"
    using assms(2) by (simp_all add: dim_ok_simps(2,3) [OF d])
  then have "dimMinY (dimension c) div 16 \<le> y div 16" "y div 16 \<le> dimMaxY (dimension c) div 16"
    by (simp_all add: zdiv_mono1)
  then show "0 \<le> SubIndex c y" "SubIndex c y < int (length (subChunks c))"
    using SubIndex_eq [OF assms(1) inHeight_i16 [OF assms]] assms(1)
    by (simp_all add: chunk_shape_def dim_ok_simps)
qed

lemma SubY_eq:
  assumes "chunk_shape c" and "0 \<le> i" and "i < int (length (subChunks c))"
  shows "SubY c i = 16 * (dimMinY (dimension c) div 16 + i)" and "in_i16 (SubY c i + 15)"
    and "in_i16 (SubY c i)"
proof -
  have d: "dim_ok (dimension c)" using assms(1) by (simp add: chunk_shape_def)
  have r: "in_i16 (dimMinY (dimension c))" "in_i16 (dimMaxY (dimension c))"
    using d by (simp_all add: dim_ok_def)
  have hi: "dimMinY (dimension c) div 16 + i \<le> dimMaxY (dimension c) div 16"
    using assms by (simp add: chunk_shape_def dim_ok_simps)
  let ?q = "dimMinY (dimension c) div 16 + i"
  have "- 2048 \<le> dimMinY (dimension c) div 16" "dimMaxY (dimension c) div 16 \<le> 2047"
    using r by auto
  then have q: "- 2048 \<le> ?q" "?q \<le> 2047" "i \<le> 4095"
    using hi assms(2) by linarith+
  then have "in_i32 i" "in_i32 ?q" "in_i32 (16 * ?q)" "in_i16 (16 * ?q)"
    using assms(2) by auto
  then show e: "SubY c i = 16 * (dimMinY (dimension c) div 16 + i)"
    by (simp add: SubY_def dim_ok_simps [OF d] push_bit_eq_mult mult.commute)
  show "in_i16 (SubY c i + 15)" "in_i16 (SubY c i)" unfolding e using q by auto
qed

section \<open>Block keys\<close>

lemma mask4: "(15 :: u8) = mask 4" "(15 :: int) = mask 4"
  by (simp_all add: mask_eq_exp_minus_1)

lemma and15_int: "y AND 15 = y mod (16 :: int)"
  by (simp only: mask4 flip: take_bit_eq_mask) (simp add: take_bit_eq_mod)

lemma and15_small: "x \<le> 15 \<Longrightarrow> x AND 15 = (x :: u8)"
proof -
  assume "x \<le> 15"
  then have "uint x \<le> 15" by (simp add: word_le_def)
  then have "uint (take_bit 4 x) = uint x"
    by (simp only: unsigned_take_bit_eq) (simp add: take_bit_eq_mod)
  then have "take_bit 4 x = x" by (rule word_uint_eqI)
  then show ?thesis by (simp only: mask4 flip: take_bit_eq_mask)
qed

lemma blockOffset_x: "drop_bit 8 (blockOffset x y z) = ucast (x AND 15)"
  unfolding blockOffset_def mask4 by (rule bit_word_eqI) (auto simp: bit_simps)

lemma blockOffset_z: "take_bit 4 (drop_bit 4 (blockOffset x y z)) = ucast (z AND 15)"
  unfolding blockOffset_def mask4 by (rule bit_word_eqI) (auto simp: bit_simps)

lemma blockOffset_y: "take_bit 4 (blockOffset x y z) = word_of_int (y AND 15)"
  unfolding blockOffset_def mask4 by (rule bit_word_eqI) (auto simp: bit_simps)

lemma blockOffset_inject:
  assumes "x \<le> 15" "z \<le> 15" "x' \<le> 15" "z' \<le> 15"
  shows "blockOffset x y z = blockOffset x' y' z' \<longleftrightarrow> x = x' \<and> z = z' \<and> y mod 16 = y' mod 16"
    (is "?l = ?r \<longleftrightarrow> _")
proof
  assume e: "?l = ?r"
  have "x = x'" using blockOffset_x [of x y z] blockOffset_x [of x' y' z'] e assms
    by (simp add: and15_small ucast_8_16_inject)
  moreover have "z = z'" using blockOffset_z [of x y z] blockOffset_z [of x' y' z'] e assms
    by (simp add: and15_small ucast_8_16_inject)
  moreover have "(word_of_int (y mod 16) :: u16) = word_of_int (y' mod 16)"
    using blockOffset_y [of x y z] blockOffset_y [of x' y' z'] e by (simp add: and15_int)
  then have "uint (word_of_int (y mod 16) :: u16) = uint (word_of_int (y' mod 16) :: u16)" by simp
  then have "y mod 16 = y' mod 16"
    by (simp add: unsigned_of_int take_bit_eq_mod)
  ultimately show "x = x' \<and> z = z' \<and> y mod 16 = y' mod 16" by blast
qed (simp add: blockOffset_def and15_int)

section \<open>The chunk invariant and the two cell stores\<close>

text \<open>
  Block layers hold no air and no empty layer; keys are unique. The block store keeps this,
  so emptiness of a sub-chunk is the absence of layers.
\<close>

definition sub_ok :: "u32 \<Rightarrow> subChunk \<Rightarrow> bool" where
  "sub_ok air sub \<longleftrightarrow>
     wf_map sub \<and> (\<forall>(l, b) \<in> set sub. wf_map b \<and> b \<noteq> [] \<and> (\<forall>(k, v) \<in> set b. v \<noteq> air))"

definition chunk_ok :: "Chunk \<Rightarrow> bool" where
  "chunk_ok c \<longleftrightarrow> chunk_shape c \<and> (\<forall>sub \<in> set (subChunks c). sub_ok (airRuntimeID c) sub)"

type_synonym block_cell = "u8 \<times> int \<times> u8 \<times> u8"

fun validBlock :: "Chunk \<Rightarrow> block_cell \<Rightarrow> bool" where
  "validBlock c (x, y, z, l) \<longleftrightarrow> x \<le> 15 \<and> z \<le> 15 \<and> inHeight c y"

fun getBlock :: "Chunk \<Rightarrow> block_cell \<Rightarrow> u32" where
  "getBlock c (x, y, z, l) = RuntimeID c x y z l"

fun putBlock :: "block_cell \<Rightarrow> u32 \<Rightarrow> Chunk \<Rightarrow> block_error + Chunk" where
  "putBlock (x, y, z, l) v c = SetRuntimeID x y z l v c"

lemma checkBlockPosition_None: "checkBlockPosition c x y z = None \<longleftrightarrow> validBlock c (x, y, z, l)"
  by (auto simp: checkBlockPosition_def)

text \<open>The stored contents of a layer, as a map.\<close>

definition stored_at :: "subChunk \<Rightarrow> u8 \<Rightarrow> u16 \<Rightarrow> u32 option" where
  "stored_at sub l k = map_of (layerBlocks sub l) k"

lemma layerBlocks_update:
  "layerBlocks (AList.update l b sub) l' = (if l' = l then b else layerBlocks sub l')"
  by (simp add: layerBlocks_def amap_simps)

lemma layerBlocks_delete:
  "layerBlocks (AList.delete l sub) l' = (if l' = l then [] else layerBlocks sub l')"
  by (simp add: layerBlocks_def amap_simps)

lemma layerBlocks_ok:
  assumes "sub_ok air sub"
  shows "wf_map (layerBlocks sub l)" and "(k, v) \<in> set (layerBlocks sub l) \<Longrightarrow> v \<noteq> air"
  using assms by (auto simp: sub_ok_def layerBlocks_def split: option.splits dest!: map_of_SomeD)

lemma sub_ok_update:
  assumes "sub_ok air sub" and "wf_map b" and "b \<noteq> []" and "\<forall>(k, v) \<in> set b. v \<noteq> air"
  shows "sub_ok air (AList.update l b sub)"
  using assms by (auto simp: sub_ok_def distinct_update set_update_wf)

lemma set_delete_subset: "set (AList.delete k m) \<subseteq> set m"
  by (auto simp: AList.delete_eq)

lemma sub_ok_delete: "sub_ok air sub \<Longrightarrow> sub_ok air (AList.delete l sub)"
  using set_delete_subset [of l sub] by (simp add: sub_ok_def distinct_delete) blast

text \<open>What a write does to the sub-chunk it touches.\<close>

definition writeSub :: "u32 \<Rightarrow> u16 \<Rightarrow> u8 \<Rightarrow> u32 \<Rightarrow> subChunk \<Rightarrow> subChunk" where
  "writeSub air k l v sub =
     (if v = air then
        (if layerBlocks sub l = [] then sub
         else let b = AList.delete k (layerBlocks sub l)
              in if b = [] then AList.delete l sub else AList.update l b sub)
      else AList.update l (AList.update k v (layerBlocks sub l)) sub)"

lemma SetRuntimeID_writeSub:
  assumes "chunk_shape c" and "validBlock c (x, y, z, l)"
  shows "SetRuntimeID x y z l v c =
    Inr (c\<lparr>subChunks := (subChunks c)[nat (SubIndex c y) :=
       writeSub (airRuntimeID c) (blockOffset x y z) l v (subChunks c ! nat (SubIndex c y))]\<rparr>)"
proof -
  have "checkBlockPosition c x y z = None"
    using assms(2) checkBlockPosition_None by blast
  then show ?thesis
    by (simp add: SetRuntimeID_def deleteRuntimeID_def writeSub_def Let_def)
qed

lemma writeSub_ok:
  assumes "sub_ok air sub"
  shows "sub_ok air (writeSub air k l v sub)"
proof -
  note lb = layerBlocks_ok [OF assms, where l = l]
  have "wf_map (AList.delete k (layerBlocks sub l))"
    "\<forall>(k', v') \<in> set (AList.delete k (layerBlocks sub l)). v' \<noteq> air"
    using lb set_delete_subset [of k "layerBlocks sub l"] by (auto simp: distinct_delete)
  moreover have "v \<noteq> air \<Longrightarrow> \<forall>(k', v') \<in> set (AList.update k v (layerBlocks sub l)). v' \<noteq> air"
    "wf_map (AList.update k v (layerBlocks sub l))"
    using lb by (auto simp: set_update_wf distinct_update)
  ultimately show ?thesis
    using assms by (auto simp: writeSub_def Let_def intro!: sub_ok_update sub_ok_delete)
qed

lemma stored_at_writeSub:
  "stored_at (writeSub air k l v sub) l' k' =
     (if l' = l \<and> k' = k then (if v = air then None else Some v) else stored_at sub l' k')"
proof (cases "v = air")
  case True
  have "map_of (AList.delete k (layerBlocks sub l)) k' =
    (if k' = k then None else map_of (layerBlocks sub l) k')"
    by (simp add: amap_simps)
  with True show ?thesis
    by (auto simp: stored_at_def writeSub_def Let_def layerBlocks_update layerBlocks_delete)
next
  case False
  then show ?thesis
    by (auto simp: stored_at_def writeSub_def layerBlocks_update amap_simps)
qed

lemma RuntimeID_stored:
  assumes "validBlock c (x, y, z, l)"
  shows "RuntimeID c x y z l =
    (case stored_at (subChunks c ! nat (SubIndex c y)) l (blockOffset x y z) of
       Some v \<Rightarrow> v | None \<Rightarrow> airRuntimeID c)"
  using assms by (auto simp: RuntimeID_def stored_at_def Let_def)

lemma same_cell:
  assumes "chunk_shape c" "validBlock c (x, y, z, l)" "validBlock c (x', y', z', l')"
  shows "SubIndex c y = SubIndex c y' \<and> blockOffset x y z = blockOffset x' y' z'
     \<longleftrightarrow> x = x' \<and> y = y' \<and> z = z'"
proof -
  have "SubIndex c y = SubIndex c y' \<longleftrightarrow> y div 16 = y' div 16"
    using assms inHeight_i16 [of c y] inHeight_i16 [of c y']
      SubIndex_eq [OF assms(1), of y] SubIndex_eq [OF assms(1), of y'] by simp
  moreover have "y div 16 = y' div 16 \<Longrightarrow> y mod 16 = y' mod 16 \<Longrightarrow> y = y'"
    by (metis mod_mult_div_eq)
  ultimately show ?thesis
    using assms(2,3) blockOffset_inject [of x z x' z' y y'] by auto
qed

lemma valid_update: "validBlock (c\<lparr>subChunks := ss\<rparr>) = validBlock c"
  by (intro ext) (auto elim: validBlock.elims)

lemma chunk_ok_update:
  assumes "chunk_ok c" and "sub_ok (airRuntimeID c) sub"
  shows "chunk_ok (c\<lparr>subChunks := (subChunks c)[i := sub]\<rparr>)"
  using assms set_update_subset_insert [of "subChunks c" i sub]
  by (auto simp: chunk_ok_def chunk_shape_def)

interpretation blocks: cell_store chunk_ok validBlock getBlock putBlock
proof (unfold_locales, goal_cases)
  case (1 c p v)
  obtain x y z l where p: "p = (x, y, z, l)" by (cases p)
  have shape: "chunk_shape c" using 1 by (simp add: chunk_ok_def)
  show ?case
  proof (cases "validBlock c p")
    case True
    then show ?thesis using SetRuntimeID_writeSub [OF shape, of x y z l v] p by simp
  next
    case False
    then have "checkBlockPosition c x y z \<noteq> None" using checkBlockPosition_None p by blast
    then show ?thesis using False by (auto simp: p SetRuntimeID_def)
  qed
next
  case (2 c p v c')
  obtain x y z l where p: "p = (x, y, z, l)" by (cases p)
  have shape: "chunk_shape c" using 2 by (simp add: chunk_ok_def)
  have v: "validBlock c (x, y, z, l)"
    using 2 checkBlockPosition_None [of c x y z l] by (auto simp: p SetRuntimeID_def split: option.splits)
  have "subChunks c ! nat (SubIndex c y) \<in> set (subChunks c)"
    using SubIndex_range [OF shape, of y] v by simp
  then have "sub_ok (airRuntimeID c) (subChunks c ! nat (SubIndex c y))"
    using 2(1) by (simp add: chunk_ok_def)
  with 2 show ?case
    using SetRuntimeID_writeSub [OF shape v]
    by (auto simp: p valid_update intro!: chunk_ok_update writeSub_ok)
next
  case (3 c p v c' q)
  obtain x y z l where p: "p = (x, y, z, l)" by (cases p)
  obtain x' y' z' l' where q: "q = (x', y', z', l')" by (cases q)
  have shape: "chunk_shape c" using 3 by (simp add: chunk_ok_def)
  have v: "validBlock c (x, y, z, l)"
    using 3 checkBlockPosition_None [of c x y z l] by (auto simp: p SetRuntimeID_def split: option.splits)
  have v': "validBlock c (x', y', z', l')" using 3 q by simp
  let ?i = "nat (SubIndex c y)" and ?j = "nat (SubIndex c y')"
  have c': "c' = c\<lparr>subChunks := (subChunks c)[?i := writeSub (airRuntimeID c) (blockOffset x y z) l v (subChunks c ! ?i)]\<rparr>"
    using 3(2) SetRuntimeID_writeSub [OF shape v] p by simp
  have r: "?i < length (subChunks c)" "0 \<le> SubIndex c y" "0 \<le> SubIndex c y'"
    using SubIndex_range [OF shape, of y] SubIndex_range [OF shape, of y'] v v' by auto
  have sub: "SubIndex c' y' = SubIndex c y'" and air: "airRuntimeID c' = airRuntimeID c"
    and val: "validBlock c' (x', y', z', l')"
    using v' by (simp_all add: c' SubIndex_def valid_update del: validBlock.simps)
  have "stored_at (subChunks c' ! ?j) l' (blockOffset x' y' z') =
    (if q = p then (if v = airRuntimeID c then None else Some v)
     else stored_at (subChunks c ! ?j) l' (blockOffset x' y' z'))"
    using same_cell [OF shape v v'] r
    by (auto simp: c' p q nth_list_update stored_at_writeSub)
  then show ?case
    using RuntimeID_stored [OF val] RuntimeID_stored [OF v']
    by (auto simp: p q sub air split: option.splits if_splits)
qed

type_synonym biome_cell = "u8 \<times> int \<times> u8"

fun validBiome :: "Chunk \<Rightarrow> biome_cell \<Rightarrow> bool" where
  "validBiome c (x, y, z) \<longleftrightarrow> x \<le> 15 \<and> z \<le> 15 \<and> inHeight c y"

fun getBiome :: "Chunk \<Rightarrow> biome_cell \<Rightarrow> u32" where
  "getBiome c (x, y, z) = BiomeID c x y z"

fun putBiome :: "biome_cell \<Rightarrow> u32 \<Rightarrow> Chunk \<Rightarrow> block_error + Chunk" where
  "putBiome (x, y, z) v c = SetBiomeID x y z v c"

lemma blockOffset_high: "drop_bit 12 (blockOffset x y z) = 0"
  unfolding blockOffset_def mask4 by (rule bit_word_eqI) (auto simp: bit_simps)

lemma blockOffset_bit: "bit (blockOffset x y z) n \<Longrightarrow> n < 12"
proof (rule ccontr)
  assume b: "bit (blockOffset x y z) n" and "\<not> n < 12"
  then have "bit (drop_bit 12 (blockOffset x y z)) (n - 12)" by (simp add: bit_drop_bit_eq)
  then show False by (simp add: blockOffset_high)
qed

lemma biomeOffset_low: "take_bit 12 (biomeOffset c x y z) = ucast (blockOffset x y z)"
  unfolding biomeOffset_def
  by (rule bit_word_eqI) (auto simp: bit_simps dest: blockOffset_bit)

lemma biomeOffset_high: "drop_bit 12 (biomeOffset c x y z) = take_bit 20 (word_of_int (SubIndex c y))"
  unfolding biomeOffset_def
  by (rule bit_word_eqI) (auto simp: bit_simps dest: blockOffset_bit)

lemma biome_same_cell:
  assumes shape: "chunk_shape c" and v: "validBiome c (x, y, z)" "validBiome c (x', y', z')"
  shows "biomeOffset c x y z = biomeOffset c x' y' z' \<longleftrightarrow> (x, y, z) = (x', y', z')"
proof
  assume e: "biomeOffset c x y z = biomeOffset c x' y' z'"
  then have k: "blockOffset x y z = blockOffset x' y' z'"
    using biomeOffset_low [of c x y z] biomeOffset_low [of c x' y' z'] by (simp add: ucast_16_32_inject)
  have r: "0 \<le> SubIndex c w \<and> SubIndex c w < 4096" if "inHeight c w" for w
  proof -
    have "in_i16 (dimMinY (dimension c))" "in_i16 (dimMaxY (dimension c))"
      using shape by (simp_all add: chunk_shape_def dim_ok_def)
    then have "- 2048 \<le> dimMinY (dimension c) div 16" "dimMaxY (dimension c) div 16 \<le> 2047" by auto
    then have "dimMaxY (dimension c) div 16 - dimMinY (dimension c) div 16 + 1 \<le> 4096" by linarith
    then show ?thesis
      using SubIndex_range [OF shape that] shape by (simp add: chunk_shape_def dim_ok_simps)
  qed
  have "(take_bit 20 (word_of_int (SubIndex c y)) :: u32) = take_bit 20 (word_of_int (SubIndex c y'))"
    using e biomeOffset_high [of c x y z] biomeOffset_high [of c x' y' z'] by metis
  then have "uint (take_bit 20 (word_of_int (SubIndex c y)) :: u32)
      = uint (take_bit 20 (word_of_int (SubIndex c y')) :: u32)" by simp
  then have "SubIndex c y = SubIndex c y'"
    using r [of y] r [of y'] v
    by (simp only: unsigned_take_bit_eq unsigned_of_int) (simp add: take_bit_eq_mod)
  with k show "(x, y, z) = (x', y', z')"
    using same_cell [OF shape, of x y z 0 x' y' z' 0] v by simp
qed simp

interpretation biomes: cell_store chunk_shape validBiome getBiome putBiome
proof (unfold_locales, goal_cases)
  case (1 c p v)
  then show ?case
    by (cases p) (auto simp: SetBiomeID_def checkBlockPosition_def Let_def)
next
  case (2 c p v c')
  then show ?case
    by (cases p) (auto simp: SetBiomeID_def Let_def chunk_shape_def fun_eq_iff split: option.splits if_splits)
next
  case (3 c p v c' q)
  obtain x y z where p: "p = (x, y, z)" by (cases p)
  obtain x' y' z' where q: "q = (x', y', z')" by (cases q)
  have v: "validBiome c (x, y, z)" "validBiome c (x', y', z')"
    using 3 by (auto simp: p q SetBiomeID_def checkBlockPosition_def split: option.splits if_splits)
  have off: "biomeOffset (c\<lparr>biomeOverrides := m\<rparr>) = biomeOffset c" for m
    by (simp add: biomeOffset_def SubIndex_def fun_eq_iff)
  have c': "c' = c\<lparr>biomeOverrides := (if v = defaultBiomeID c
      then AList.delete (biomeOffset c x y z) (biomeOverrides c)
      else AList.update (biomeOffset c x y z) v (biomeOverrides c))\<rparr>"
    using 3(2) by (auto simp: p SetBiomeID_def Let_def split: option.splits if_splits)
  have "map_of (biomeOverrides c') (biomeOffset c x' y' z') =
    (if q = p then (if v = defaultBiomeID c then None else Some v)
     else map_of (biomeOverrides c) (biomeOffset c x' y' z'))"
    using biome_same_cell [OF 3(1) v] by (auto simp: c' p q amap_simps)
  moreover have "BiomeID c' x' y' z' = (case map_of (biomeOverrides c') (biomeOffset c x' y' z') of
      Some b \<Rightarrow> b | None \<Rightarrow> defaultBiomeID c)"
    using v(2) unfolding BiomeID_def by (auto simp: c' off split: option.split)
  moreover have "BiomeID c x' y' z' = (case map_of (biomeOverrides c) (biomeOffset c x' y' z') of
      Some b \<Rightarrow> b | None \<Rightarrow> defaultBiomeID c)"
    using v(2) unfolding BiomeID_def by auto
  ultimately show ?case by (simp add: q split: if_splits)
qed

section \<open>New chunks\<close>

lemma NewChunk_ok:
  assumes "NewChunk enc pos d = Inr c" and "in_i16 (dimMinY d)" "in_i16 (dimMaxY d)"
  shows "chunk_ok c" and "dimension c = withDefaults d" and "position c = pos"
    and "RuntimeID c x y z l = airRuntimeID c" and "BiomeID c x y z = 0"
proof -
  have ok: "dim_ok (withDefaults d)" using assms by (intro withDefaults_ok)
  obtain air where c: "c = \<lparr>position = pos, dimension = withDefaults d,
      subChunks = replicate (nat (SubChunkCount (withDefaults d))) [],
      biomeOverrides = [], defaultBiomeID = 0, airRuntimeID = air\<rparr>"
    using assms(1) by (auto simp: NewChunk_def Let_def split: sum.splits)
  show "dimension c = withDefaults d" "position c = pos" "BiomeID c x y z = 0"
    by (simp_all add: c BiomeID_def)
  show ok': "chunk_ok c"
    using ok dim_ok_simps(8) [OF ok] by (simp add: c chunk_ok_def chunk_shape_def sub_ok_def)
  have "subChunks c ! nat (SubIndex c y) = []" if "inHeight c y"
  proof -
    have "subChunks c ! nat (SubIndex c y) \<in> set (subChunks c)"
      using SubIndex_range [of c y] that ok' by (simp add: chunk_ok_def)
    then show ?thesis by (simp add: c)
  qed
  then show "RuntimeID c x y z l = airRuntimeID c"
    by (auto simp: RuntimeID_def layerBlocks_def Let_def)
qed

lemma NewChunk_total: "nbt_compound enc \<Longrightarrow> \<exists>c. NewChunk enc pos d = Inr c"
  using RegistryRuntimeID_ok [of enc AirBlock] by (auto simp: NewChunk_def Let_def)

section \<open>Reads after writes\<close>

lemma SetRuntimeID_keeps:
  assumes "SetRuntimeID x y z l v c = Inr c'"
  shows "BiomeID c' x' y' z' = BiomeID c x' y' z'" "airRuntimeID c' = airRuntimeID c"
    "dimension c' = dimension c" "position c' = position c" "defaultBiomeID c' = defaultBiomeID c"
    "biomeOverrides c' = biomeOverrides c"
proof -
  obtain ss where "c' = c\<lparr>subChunks := ss\<rparr>"
  proof
    show "c' = c\<lparr>subChunks := subChunks c'\<rparr>"
      using assms by (auto simp: SetRuntimeID_def deleteRuntimeID_def Let_def split: option.splits if_splits)
  qed
  then show "BiomeID c' x' y' z' = BiomeID c x' y' z'" "airRuntimeID c' = airRuntimeID c"
    "dimension c' = dimension c" "position c' = position c" "defaultBiomeID c' = defaultBiomeID c"
    "biomeOverrides c' = biomeOverrides c"
    by (simp_all add: BiomeID_def biomeOffset_def SubIndex_def cong: option.case_cong)
qed

lemma RuntimeID_cong:
  assumes "subChunks c' = subChunks c" "airRuntimeID c' = airRuntimeID c" "dimension c' = dimension c"
  shows "RuntimeID c' x y z l = RuntimeID c x y z l"
  using assms by (simp add: RuntimeID_def SubIndex_def Let_def cong: option.case_cong)

lemma RuntimeID_outside: "\<not> validBlock c (x, y, z, l) \<Longrightarrow> RuntimeID c x y z l = airRuntimeID c"
  by (auto simp: RuntimeID_def)

lemma BiomeID_outside: "\<not> validBiome c (x, y, z) \<Longrightarrow> BiomeID c x y z = defaultBiomeID c"
  by (auto simp: BiomeID_def)

lemma SetRuntimeID_error:
  "SetRuntimeID x y z l v c = Inl e \<longleftrightarrow>
     (x > 15 \<or> z > 15) \<and> e = ColumnOutside x z \<or>
     \<not> (x > 15 \<or> z > 15) \<and> \<not> inHeight c y \<and> e = HeightOutside y"
  by (auto simp: SetRuntimeID_def checkBlockPosition_def Let_def)

text \<open>
  C18. The block store of a chunk behaves as an array over columns 0..15 x 0..15, the dimension's
  heights and 256 layers. A write fails exactly when the column or the height is outside, with
  the error naming which; a write that succeeds keeps the chunk invariant, changes the cell it
  names to the written runtime ID (air included, where the sparse maps delete the entry), and
  leaves every other block, in range or not, and every biome as it was.
\<close>

theorem block_read_after_write:
  assumes "chunk_ok c"
  shows "(\<forall>e. SetRuntimeID x y z l v c = Inl e \<longleftrightarrow>
            (x > 15 \<or> z > 15) \<and> e = ColumnOutside x z \<or>
            \<not> (x > 15 \<or> z > 15) \<and> \<not> inHeight c y \<and> e = HeightOutside y) \<and>
     (\<forall>c'. SetRuntimeID x y z l v c = Inr c' \<longrightarrow> chunk_ok c' \<and>
        (\<forall>x' y' z' l'. RuntimeID c' x' y' z' l' =
           (if (x', y', z', l') = (x, y, z, l) then v else RuntimeID c x' y' z' l')) \<and>
        (\<forall>x' y' z'. BiomeID c' x' y' z' = BiomeID c x' y' z'))"
proof (intro conjI allI impI)
  show "SetRuntimeID x y z l v c = Inl e \<longleftrightarrow>
            (x > 15 \<or> z > 15) \<and> e = ColumnOutside x z \<or>
            \<not> (x > 15 \<or> z > 15) \<and> \<not> inHeight c y \<and> e = HeightOutside y" for e
    by (rule SetRuntimeID_error)
  fix c' x' y' z' l' assume w: "SetRuntimeID x y z l v c = Inr c'"
  then have p: "putBlock (x, y, z, l) v c = Inr c'" by simp
  show "chunk_ok c'" using blocks.invar_put [OF assms p] by simp
  show "BiomeID c' x' y' z' = BiomeID c x' y' z'" by (rule SetRuntimeID_keeps [OF w])
  show "RuntimeID c' x' y' z' l' =
           (if (x', y', z', l') = (x, y, z, l) then v else RuntimeID c x' y' z' l')"
  proof (cases "validBlock c (x', y', z', l')")
    case True
    then show ?thesis using blocks.get_put [OF assms p True] by simp
  next
    case False
    moreover have "validBlock c (x, y, z, l)" using blocks.put_valid [OF assms] p by blast
    moreover have "validBlock c' = validBlock c" using blocks.invar_put [OF assms p] by simp
    ultimately show ?thesis
      using SetRuntimeID_keeps(2) [OF w] by (metis RuntimeID_outside prod.inject)
  qed
qed

text \<open>A small concrete chunk with one sub-chunk, for the witnesses.\<close>

definition sampleChunk :: Chunk where
  "sampleChunk = \<lparr>position = \<lparr>chunkX = 0, chunkZ = 0\<rparr>, dimension = \<lparr>dimID = 0, dimMinY = 0, dimMaxY = 15\<rparr>,
     subChunks = [[(0, [(0x123, 9)])]], biomeOverrides = [], defaultBiomeID = 1, airRuntimeID = 5\<rparr>"

lemma sampleChunk_ok: "chunk_ok sampleChunk"
  by (simp add: sampleChunk_def chunk_ok_def chunk_shape_def dim_ok_def sub_ok_def SubChunkCount_def
      MaxSubY_def MinSubY_def MinY_def MaxY_def withDefaults_def floorDiv16_def)

lemma sampleChunk_range: "inHeight sampleChunk y \<longleftrightarrow> 0 \<le> y \<and> y \<le> 15"
  by (simp add: sampleChunk_def MinY_def MaxY_def withDefaults_def)

text \<open>Witness of \<open>block_read_after_write\<close>.\<close>

theorem block_read_after_write_witness:
  "\<exists>c'. SetRuntimeID 1 2 3 0 7 sampleChunk = Inr c' \<and> RuntimeID c' 1 2 3 0 = 7 \<and>
     RuntimeID c' 1 3 2 0 = RuntimeID sampleChunk 1 3 2 0"
proof -
  note t = block_read_after_write [OF sampleChunk_ok, of 1 2 3 0 7]
  then obtain c' where "SetRuntimeID 1 2 3 0 7 sampleChunk = Inr c'"
    by (cases "SetRuntimeID 1 2 3 0 7 sampleChunk") (auto simp: sampleChunk_range)
  with t show ?thesis by auto
qed

text \<open>
  The biome store has the same contract: a write outside the chunk is refused, and a write
  inside changes the biome of exactly one cell, whether it adds an override or, when the
  biome is the chunk's default, removes one. Blocks are untouched.
\<close>

lemma biome_read_after_write:
  assumes "chunk_ok c"
  shows "((\<exists>c'. SetBiomeID x y z v c = Inr c') \<longleftrightarrow> x \<le> 15 \<and> z \<le> 15 \<and> inHeight c y) \<and>
     (\<forall>c'. SetBiomeID x y z v c = Inr c' \<longrightarrow> chunk_ok c' \<and>
        (\<forall>x' y' z'. BiomeID c' x' y' z' = (if (x', y', z') = (x, y, z) then v else BiomeID c x' y' z')) \<and>
        (\<forall>x' y' z' l'. RuntimeID c' x' y' z' l' = RuntimeID c x' y' z' l'))"
proof (intro conjI allI impI)
  have shape: "chunk_shape c" using assms by (simp add: chunk_ok_def)
  show "(\<exists>c'. SetBiomeID x y z v c = Inr c') \<longleftrightarrow> x \<le> 15 \<and> z \<le> 15 \<and> inHeight c y"
    using biomes.put_valid [OF shape, of "(x, y, z)" v] by simp
  fix c' x' y' z' l' assume w: "SetBiomeID x y z v c = Inr c'"
  then have p: "putBiome (x, y, z) v c = Inr c'" by simp
  have keep: "subChunks c' = subChunks c" "airRuntimeID c' = airRuntimeID c" "dimension c' = dimension c"
    "defaultBiomeID c' = defaultBiomeID c"
    using w by (auto simp: SetBiomeID_def Let_def split: option.splits if_splits)
  then show "chunk_ok c'" "RuntimeID c' x' y' z' l' = RuntimeID c x' y' z' l'"
    using assms by (simp_all add: chunk_ok_def chunk_shape_def RuntimeID_cong [of c' c])
  show "BiomeID c' x' y' z' = (if (x', y', z') = (x, y, z) then v else BiomeID c x' y' z')"
  proof (cases "validBiome c (x', y', z')")
    case True
    then show ?thesis using biomes.get_put [OF shape p True] by simp
  next
    case False
    moreover have "validBiome c (x, y, z)" using biomes.put_valid [OF shape] p by blast
    moreover have "validBiome c' = validBiome c" using biomes.invar_put [OF shape p] by simp
    ultimately show ?thesis
      using keep(4) by (metis BiomeID_outside prod.inject)
  qed
qed

section \<open>Queries over a column and over the sub-chunks\<close>

lemma sorted_concat_blocks:
  fixes f :: "int \<Rightarrow> int list"
  assumes "\<And>i. i \<in> {0..<int n} \<Longrightarrow> sorted_wrt (<) (f i)"
    and "\<And>i. i \<in> {0..<int n} \<Longrightarrow> set (f i) \<subseteq> {b + 16 * i..<b + 16 * i + 16}"
  shows "sorted_wrt (<) (concat (map f [0..int n - 1]))"
  using assms
proof (induction n)
  case (Suc n)
  have "[0..int (Suc n) - 1] = [0..int n - 1] @ [int n]"
    using upto_rec2 [of 0 "int n"] by simp
  moreover have "x < y" if "i \<in> {0..int n - 1}" "x \<in> set (f i)" "y \<in> set (f (int n))" for x y i
  proof -
    have "x < b + 16 * i + 16" "b + 16 * int n \<le> y" "i + 1 \<le> int n"
      using Suc.prems(2) [of i] Suc.prems(2) [of "int n"] that by fastforce+
    then show ?thesis by linarith
  qed
  ultimately show ?case
    using Suc.IH Suc.prems by (auto simp: sorted_wrt_append)
qed simp

lemma find_descending:
  assumes "sorted_wrt (<) xs" and "find P (rev xs) = Some y"
  shows "P y" and "y \<in> set xs" and "\<And>z. z \<in> set xs \<Longrightarrow> P z \<Longrightarrow> z \<le> (y :: int)"
proof -
  from assms(2) obtain i where i: "i < length xs" "P (rev xs ! i)" "y = rev xs ! i"
    "\<forall>j<i. \<not> P (rev xs ! j)"
    by (auto simp: find_Some_iff)
  then show "P y" "y \<in> set xs" by (simp_all add: rev_nth)
  fix z assume "z \<in> set xs" "P z"
  then obtain j where j: "j < length xs" "rev xs ! j = z"
    by (metis in_set_conv_nth length_rev set_rev)
  with i \<open>P z\<close> have "i \<le> j" by (meson not_le)
  moreover have "rev xs ! j < rev xs ! i" if "i < j"
    using that j(1) sorted_wrt_nth_less [OF assms(1)] by (simp add: rev_nth)
  ultimately show "z \<le> y" using i(3) j(2) by (cases "i = j") auto
qed

lemma stored_nonempty:
  assumes "chunk_shape c" and "validBlock c (x, y, z, l)" and "RuntimeID c x y z l \<noteq> airRuntimeID c"
  shows "\<not> SubChunkEmpty c (SubIndex c y)"
proof -
  let ?sub = "subChunks c ! nat (SubIndex c y)"
  have "layerBlocks ?sub l \<noteq> []"
    using assms(2,3) by (auto simp: RuntimeID_stored [OF assms(2)] stored_at_def)
  then have "\<exists>b. (l, b) \<in> set ?sub \<and> b \<noteq> []"
    by (auto simp: layerBlocks_def split: option.splits dest: map_of_SomeD)
  then have "\<not> subEmpty ?sub" by (auto simp: subEmpty_def list_all_iff)
  then show ?thesis
    using SubIndex_range [OF assms(1), of y] assms(2) by (simp add: SubChunkEmpty_def)
qed

text \<open>The candidate heights, in the order opposite to the code's.\<close>

definition heightsUp :: "Chunk \<Rightarrow> int \<Rightarrow> int list" where
  "heightsUp c i = (if SubChunkEmpty c i then [] else map (\<lambda>y. i16 (SubY c i + y)) [0..15])"

lemma heightCandidates_rev:
  "heightCandidates c = rev (concat (map (heightsUp c) [0..int (length (subChunks c)) - 1]))"
  by (simp add: heightCandidates_def heightsUp_def rev_concat rev_map [symmetric] if_distrib [of rev]
      cong: if_cong) (simp add: comp_def heightsUp_def rev_map if_distrib cong: if_cong)

lemma heightsUp_block:
  assumes "chunk_shape c" and "0 \<le> i" and "i < int (length (subChunks c))"
  defines "b \<equiv> 16 * (dimMinY (dimension c) div 16)"
  shows "sorted_wrt (<) (heightsUp c i)"
    and "set (heightsUp c i) = (if SubChunkEmpty c i then {} else {b + 16 * i..<b + 16 * i + 16})"
proof -
  note y = SubY_eq [OF assms(1-3)]
  have id: "map (\<lambda>y. i16 (SubY c i + y)) [0..15] = map (\<lambda>y. SubY c i + y) [0..15]"
    using y(2,3) by (intro map_cong) auto
  show "sorted_wrt (<) (heightsUp c i)"
    unfolding heightsUp_def id sorted_wrt_map
    by (cases "SubChunkEmpty c i") (simp_all add: sorted_wrt_map del: upto.simps)
  have "(\<lambda>y. SubY c i + y) ` {0..15} = {SubY c i..SubY c i + 15}"
    using image_add_atLeastAtMost [of "SubY c i" 0 15] by (simp add: add.commute)
  also have "\<dots> = {b + 16 * i..<b + 16 * i + 16}"
    unfolding y(1) b_def by auto
  finally show "set (heightsUp c i) = (if SubChunkEmpty c i then {} else {b + 16 * i..<b + 16 * i + 16})"
    unfolding heightsUp_def id by (simp del: upto.simps)
qed

lemma heightCandidates_cover:
  assumes "chunk_shape c" and "validBlock c (x, y, z, l)" and "RuntimeID c x y z l \<noteq> airRuntimeID c"
  shows "y \<in> set (heightCandidates c)"
proof -
  note i = SubIndex_range [OF assms(1), of y]
  have "SubIndex c y = y div 16 - dimMinY (dimension c) div 16"
    using SubIndex_eq [OF assms(1)] inHeight_i16 [OF assms(1)] assms(2) by simp
  then have "16 * (dimMinY (dimension c) div 16) + 16 * SubIndex c y = 16 * (y div 16)" by simp
  moreover have "16 * (y div 16) \<le> y" "y < 16 * (y div 16) + 16"
    using mult_div_mod_eq [of 16 y] pos_mod_bound [of 16 y] pos_mod_sign [of 16 y] by linarith+
  ultimately have "y \<in> set (heightsUp c (SubIndex c y))"
    using heightsUp_block(2) [OF assms(1) i] stored_nonempty [OF assms] assms(2) by simp
  then show ?thesis
    using i assms(2) by (auto simp: heightCandidates_rev)
qed

text \<open>
  \<^verbatim>\<open>HighestBlockY\<close>, which skips empty sub-chunks and scans the others downwards, returns the
  height of the topmost block of the column: if some block of the column differs from air,
  the result is a height inside the dimension that holds such a block and every height above it
  reads as air; if the column is all air the result is the dimension's minimum height.
\<close>

lemma HighestBlockY_spec:
  assumes "chunk_ok c" and "x \<le> 15" and "z \<le> 15"
  shows "(if \<exists>y. RuntimeID c x y z l \<noteq> airRuntimeID c
     then RuntimeID c x (HighestBlockY c x z l) z l \<noteq> airRuntimeID c \<and> inHeight c (HighestBlockY c x z l) \<and>
       (\<forall>y > HighestBlockY c x z l. RuntimeID c x y z l = airRuntimeID c)
     else HighestBlockY c x z l = MinY (dimension c))"
proof -
  have shape: "chunk_shape c" using assms(1) by (simp add: chunk_ok_def)
  let ?P = "\<lambda>y. RuntimeID c x y z l \<noteq> airRuntimeID c"
  have valid: "validBlock c (x, y, z, l)" if "?P y" for y
    using that RuntimeID_outside by blast
  then have cover: "y \<in> set (heightCandidates c)" if "?P y" for y
    using that heightCandidates_cover [OF shape] by blast
  have sorted: "sorted_wrt (<) (concat (map (heightsUp c) [0..int (length (subChunks c)) - 1]))"
    by (rule sorted_concat_blocks [of _ _ "16 * (dimMinY (dimension c) div 16)"])
      (use heightsUp_block [OF shape] in auto)
  show ?thesis
  proof (cases "find ?P (heightCandidates c)")
    case None
    then have "\<not> ?P y" for y using cover [of y] by (auto simp: find_None_iff)
    with None show ?thesis by (simp add: HighestBlockY_def)
  next
    case (Some y)
    note top = find_descending [OF sorted Some [unfolded heightCandidates_rev]]
    have "\<not> ?P w" if "y < w" for w
      using top(3) [of w] cover [of w] that by (auto simp: heightCandidates_rev)
    with top(1) valid [OF top(1)] Some show ?thesis by (auto simp: HighestBlockY_def)
  qed
qed

lemma fold_highest:
  "fold (\<lambda>(layer, blocks) highest. if blocks \<noteq> [] \<and> uint layer > highest then uint layer else highest)
     sub n = fold max (map (uint \<circ> fst) (filter (\<lambda>(l, b). b \<noteq> []) sub)) n"
  by (induction sub arbitrary: n) (auto simp: max_def)

lemma fold_max_bounds:
  "(\<forall>x \<in> set xs. x \<le> fold max xs n) \<and> n \<le> fold max xs n \<and> fold max xs n \<in> insert n (set xs)"
  for n :: "'a :: linorder"
proof (induction xs arbitrary: n)
  case (Cons x xs)
  let ?m = "fold max xs (max x n)"
  have "\<forall>y \<in> set xs. y \<le> ?m" "max x n \<le> ?m" "?m \<in> insert (max x n) (set xs)"
    using Cons.IH [of "max x n"] by blast+
  moreover have "max x n = x \<or> max x n = n" by (simp add: max_def)
  ultimately show ?case by auto
qed simp

text \<open>
  \<^verbatim>\<open>SubChunkLayerCount\<close> tells how many layers of a sub-chunk must be sent: every block of the
  sub-chunk in a layer at or above the count reads as air, the count is at most 256, and when
  it is positive the last counted layer holds a block other than air.
\<close>

lemma layer_count_is_tight:
  assumes "chunk_ok c" and "0 \<le> i" and "i < int (length (subChunks c))"
  shows "0 \<le> SubChunkLayerCount c i \<and> SubChunkLayerCount c i \<le> 256 \<and>
     (\<forall>l k. uint l \<ge> SubChunkLayerCount c i \<longrightarrow> stored_at (subChunks c ! nat i) l k = None) \<and>
     (SubChunkLayerCount c i > 0 \<longrightarrow>
        (\<exists>l k v. uint l = SubChunkLayerCount c i - 1 \<and> v \<noteq> airRuntimeID c \<and>
           stored_at (subChunks c ! nat i) l k = Some v))"
proof -
  let ?sub = "subChunks c ! nat i"
  let ?xs = "map (uint \<circ> fst) (filter (\<lambda>(l, b). b \<noteq> []) ?sub)"
  define M where "M = fold max ?xs (-1)"
  have n: "SubChunkLayerCount c i = M + 1"
    using assms(2,3) by (simp add: SubChunkLayerCount_def fold_highest M_def)
  have ok: "sub_ok (airRuntimeID c) ?sub"
    using assms by (simp add: chunk_ok_def)
  note m = fold_max_bounds [of ?xs "-1", folded M_def]
  have "M \<le> 255"
  proof -
    have "uint l \<le> 255" for l :: u8 using uint_bounded [of l] by simp
    then show ?thesis using m by auto
  qed
  moreover have "stored_at ?sub l k = None" if "M < uint l" for l k
  proof (rule ccontr)
    assume "stored_at ?sub l k \<noteq> None"
    then obtain b where "map_of ?sub l = Some b" "map_of b k \<noteq> None"
      by (cases "map_of ?sub l") (auto simp: stored_at_def layerBlocks_def)
    then have "(l, b) \<in> set ?sub" "b \<noteq> []" by (auto dest: map_of_SomeD)
    then have "uint l \<in> set ?xs" by force
    with m that show False by fastforce
  qed
  moreover have "\<exists>l k v. uint l = M \<and> v \<noteq> airRuntimeID c \<and> stored_at ?sub l k = Some v"
    if "M \<ge> 0"
  proof -
    have "M \<in> set ?xs" using m that by auto
    then obtain l b where lb: "(l, b) \<in> set ?sub" "b \<noteq> []" "uint l = M" by auto
    then obtain k v where kv: "(k, v) \<in> set b" by (metis list.set_intros(1) neq_Nil_conv prod.collapse)
    have b: "wf_map b" "v \<noteq> airRuntimeID c" "wf_map ?sub"
      using ok lb(1) kv by (auto simp: sub_ok_def)
    have "stored_at ?sub l k = Some v"
      using lb(1) kv b by (simp add: stored_at_def layerBlocks_def map_of_Some_iff [THEN iffD2])
    with lb(3) b(2) show ?thesis by blast
  qed
  moreover have "-1 \<le> M" using m by blast
  ultimately show ?thesis
    unfolding n by simp
qed

section \<open>A reference for the highest block\<close>

text \<open>The specification without the shortcuts: read every height of the column and take the last that is not air.\<close>

definition referenceHeight :: "Chunk \<Rightarrow> u8 \<Rightarrow> u8 \<Rightarrow> u8 \<Rightarrow> int" where
  "referenceHeight c x z l =
     (let ys = filter (\<lambda>y. RuntimeID c x y z l \<noteq> airRuntimeID c) [MinY (dimension c)..MaxY (dimension c)]
      in if ys = [] then MinY (dimension c) else last ys)"

lemma last_eqI:
  assumes "sorted xs" and "m \<in> set xs" and "\<And>y. y \<in> set xs \<Longrightarrow> y \<le> m"
  shows "last xs = (m :: int)"
proof -
  have "xs \<noteq> []" using assms(2) by auto
  then obtain ys y where "xs = ys @ [y]" by (cases xs rule: rev_cases) auto
  then show ?thesis using assms by (fastforce simp: sorted_append)
qed

text \<open>
  C19. \<^verbatim>\<open>HighestBlockY\<close>, which skips the sub-chunks that are empty and stops at the first block it meets on the way down, returns for every column
  and layer, also outside the chunk, what the exhaustive search of the column returns.
\<close>

theorem highest_block_reference:
  assumes "chunk_ok c"
  shows "HighestBlockY c x z l = referenceHeight c x z l"
proof (cases "\<exists>y. RuntimeID c x y z l \<noteq> airRuntimeID c")
  case False
  then show ?thesis by (simp add: HighestBlockY_def referenceHeight_def find_None_iff [THEN iffD2])
next
  case True
  then have b: "x \<le> 15" "z \<le> 15" using RuntimeID_outside by fastforce+
  let ?ys = "filter (\<lambda>y. RuntimeID c x y z l \<noteq> airRuntimeID c) [MinY (dimension c)..MaxY (dimension c)]"
  let ?h = "HighestBlockY c x z l"
  have h: "?h \<in> set ?ys" "\<And>y. y \<in> set ?ys \<Longrightarrow> y \<le> ?h"
  proof -
    have s: "RuntimeID c x ?h z l \<noteq> airRuntimeID c" "inHeight c ?h" "\<And>y. ?h < y \<Longrightarrow> RuntimeID c x y z l = airRuntimeID c"
      using HighestBlockY_spec [OF assms b, of l] unfolding if_P [OF True] by blast+
    show "?h \<in> set ?ys" using s(1,2) by simp
    show "y \<le> ?h" if "y \<in> set ?ys" for y
    proof (rule ccontr)
      assume "\<not> y \<le> ?h"
      then show False using s(3) [of y] that by simp
    qed
  qed
  have "sorted ?ys" by (simp add: sorted_wrt_filter)
  then have "last ?ys = ?h" using h by (rule last_eqI)
  moreover have "?ys \<noteq> []" using h(1) by force
  ultimately show ?thesis by (simp add: referenceHeight_def Let_def)
qed

text \<open>Witness of \<open>highest_block_reference\<close>: a column of the sample chunk, where the block is at height 3.\<close>

theorem highest_block_reference_witness:
  "HighestBlockY sampleChunk 1 2 0 = referenceHeight sampleChunk 1 2 0 \<and> HighestBlockY sampleChunk 1 2 0 = 3"
proof -
  have "HighestBlockY sampleChunk 1 2 0 = 3" by code_simp
  then show ?thesis using highest_block_reference [OF sampleChunk_ok, of 1 2 0] by simp
qed

end
