(* ===== verification/Flat.thy ===== *)
theory Flat
  imports World
begin

text \<open>
  The flat world generator (\<^verbatim>\<open>internal/world/flat.go\<close>), the server's chunk provider.

  A context is the sequence of answers its polls give: \<open>ctx n\<close> is the error of the context
  if it is done at the \<open>n\<close>-th poll. The generator polls once per column. The registry is the
  empty struct, so the generator's record does not carry it; the NBT encoder behind it is the
  parameter \<open>enc\<close>. Spawn coordinates are finite \<^verbatim>\<open>float32\<close> values inside the \<^verbatim>\<open>int32\<close> range.
\<close>

datatype ctx_error = Canceled | DeadlineExceeded

type_synonym ctx_polls = "nat \<Rightarrow> ctx_error option"

datatype flat_error =
    FlatBiome biome_error
  | FlatRuntime runtime_error
  | FlatBlock block_error
  | FlatContext ctx_error

record FlatGenerator =
  DimensionData :: Dimension
  BaseY :: int
  Layers :: "BlockState list"
  BiomeData :: Biome
  SpawnPosition :: Vec3

definition zeroVec :: Vec3 where
  "zeroVec = \<lparr>vecX = 0, vecY = 0, vecZ = 0\<rparr>"

definition defaultLayers :: "BlockState list" where
  "defaultLayers = [BedrockBlock, DirtBlock, DirtBlock, GrassBlock]"

definition NewFlatGenerator :: "flat_error + FlatGenerator" where
  "NewFlatGenerator =
     (case BiomeByName ''plains'' of
        Inl e \<Rightarrow> Inl (FlatBiome e)
      | Inr biome \<Rightarrow>
          Inr \<lparr>DimensionData = Overworld, BaseY = 60, Layers = defaultLayers, BiomeData = biome,
               SpawnPosition = \<lparr>vecX = 1 / 2, vecY = 64, vecZ = 1 / 2\<rparr>\<rparr>)"

text \<open>
  \<^verbatim>\<open>FlatGenerator.withDefaults\<close>. The dimension test reads the range of \<^verbatim>\<open>Dimension.Range\<close>,
  which has already replaced an empty dimension.
\<close>

definition genDefaults :: "FlatGenerator \<Rightarrow> FlatGenerator" where
  "genDefaults g0 =
     (let g1 = (if brMax (Range (DimensionData g0)) \<le> brMin (Range (DimensionData g0))
                then g0\<lparr>DimensionData := Overworld\<rparr> else g0);
          g2 = (if Layers g1 = [] then g1\<lparr>Layers := defaultLayers\<rparr> else g1);
          g3 = (if biomeName (BiomeData g2) = ''''
                then case BiomeByName ''plains'' of Inl e \<Rightarrow> g2 | Inr biome \<Rightarrow> g2\<lparr>BiomeData := biome\<rparr>
                else g2)
      in if SpawnPosition g3 = zeroVec
         then g3\<lparr>SpawnPosition :=
           \<lparr>vecX = 1 / 2, vecY = of_int (i16 (BaseY g3 + i16 (int (length (Layers g3))))), vecZ = 1 / 2\<rparr>\<rparr>
         else g3)"

definition GenDimension :: "FlatGenerator \<Rightarrow> Dimension" where
  "GenDimension g = DimensionData (genDefaults g)"

definition Spawn :: "FlatGenerator \<Rightarrow> Vec3" where
  "Spawn g = SpawnPosition (genDefaults g)"

definition SpawnBlock :: "FlatGenerator \<Rightarrow> BlockPos" where
  "SpawnBlock g = (let spawn = Spawn g in
     \<lparr>blockX = \<lfloor>vecX spawn\<rfloor>, blockY = \<lfloor>vecY spawn\<rfloor>, blockZ = \<lfloor>vecZ spawn\<rfloor>\<rparr>)"

fun resolveLayers :: "nbt_encoder \<Rightarrow> BlockState list \<Rightarrow> runtime_error + u32 list" where
  "resolveLayers enc [] = Inr []"
| "resolveLayers enc (state # states) =
     (case RegistryRuntimeID enc state of
        Inl e \<Rightarrow> Inl e
      | Inr runtimeID \<Rightarrow> map_sum id (\<lambda>ids. runtimeID # ids) (resolveLayers enc states))"

text \<open>One column of the generator's loops: a poll of the context, then the layers upwards.\<close>

definition fillColumn :: "int \<Rightarrow> u32 list \<Rightarrow> u8 \<Rightarrow> u8 \<Rightarrow> Chunk \<Rightarrow> block_error + Chunk" where
  "fillColumn base layers x z =
     forE (\<lambda>(layer, runtimeID). SetRuntimeID x (i16 (base + i16 (int layer))) z 0 runtimeID)
       (enumerate 0 layers)"

definition columns :: "(u8 \<times> u8) list" where
  "columns = List.product (map of_nat [0..<16]) (map of_nat [0..<16])"

definition fillColumns :: "ctx_polls \<Rightarrow> int \<Rightarrow> u32 list \<Rightarrow> (nat \<times> u8 \<times> u8) list \<Rightarrow> Chunk \<Rightarrow> flat_error + Chunk" where
  "fillColumns ctx base layers =
     forE (\<lambda>(n, x, z) chunk.
       case ctx n of
         Some e \<Rightarrow> Inl (FlatContext e)
       | None \<Rightarrow> map_sum FlatBlock id (fillColumn base layers x z chunk))"

definition FlatChunk :: "nbt_encoder \<Rightarrow> FlatGenerator \<Rightarrow> ctx_polls \<Rightarrow> ChunkPos \<Rightarrow> flat_error + Chunk" where
  "FlatChunk enc g0 ctx pos =
     (let g = genDefaults g0 in
      case NewChunk enc pos (DimensionData g) of
        Inl e \<Rightarrow> Inl (FlatRuntime e)
      | Inr chunk0 \<Rightarrow>
          let chunk = FillBiomeID (biomeID (BiomeData g)) chunk0 in
          case resolveLayers enc (Layers g) of
            Inl e \<Rightarrow> Inl (FlatRuntime e)
          | Inr layers \<Rightarrow> fillColumns ctx (BaseY g) layers (enumerate 0 columns) chunk)"

section \<open>What the generator writes\<close>

lemma forE_map: "forE f (map g xs) s = forE (\<lambda>a. f (g a)) xs s"
  by (induction xs arbitrary: s) (auto split: sum.splits)

text \<open>The cells of a column and the value of each, as a list of writes.\<close>

definition columnWrites :: "int \<Rightarrow> u32 list \<Rightarrow> u8 \<Rightarrow> u8 \<Rightarrow> (block_cell \<times> u32) list" where
  "columnWrites base layers x z =
     map (\<lambda>(i, r). ((x, base + int i, z, 0), r)) (enumerate 0 layers)"

abbreviation fits :: "Chunk \<Rightarrow> int \<Rightarrow> nat \<Rightarrow> bool" where
  "fits c base n \<equiv> MinY (dimension c) \<le> base \<and> base + int n - 1 \<le> MaxY (dimension c)"

lemma forE_cong: "(\<And>a. a \<in> set xs \<Longrightarrow> f a = g a) \<Longrightarrow> forE f xs s = forE g xs s"
  by (induction xs arbitrary: s) (auto split: sum.splits)

lemma signed_wrap_add: "signed_wrap n (a + signed_wrap n b) = signed_wrap n (a + b)"
proof -
  have "a + signed_wrap n b + 2 ^ (n - 1) = a + (b + 2 ^ (n - 1)) mod 2 ^ n" by (simp add: signed_wrap_def)
  then have "(a + signed_wrap n b + 2 ^ (n - 1)) mod 2 ^ n = (a + (b + 2 ^ (n - 1))) mod 2 ^ n"
    by (simp only: mod_add_right_eq)
  then show ?thesis unfolding signed_wrap_def [of n "a + _"] by (simp add: add.assoc)
qed

lemma layer_height:
  assumes "in_i16 base" and "base + int n \<le> 2 ^ 15" and "i < n"
  shows "i16 (base + i16 (int i)) = base + int i"
proof -
  have "i16 (base + i16 (int i)) = i16 (base + int i)" by (rule signed_wrap_add)
  also have "\<dots> = base + int i" using assms by simp
  finally show ?thesis .
qed

lemma fillColumn_writes:
  assumes "in_i16 base" and "base + int (length layers) \<le> 2 ^ 15"
  shows "fillColumn base layers x z c = forE (\<lambda>(p, v). putBlock p v) (columnWrites base layers x z) c"
  unfolding fillColumn_def columnWrites_def forE_map
  by (rule forE_cong) (auto simp: in_set_enumerate_eq layer_height [OF assms])

lemma map_of_columnWrites:
  "map_of (rev (columnWrites base layers x z)) (x', y', z', l') =
     (if x' = x \<and> z' = z \<and> l' = 0 \<and> base \<le> y' \<and> y' < base + int (length layers)
      then Some (layers ! nat (y' - base)) else None)"
proof -
  have wf: "wf_map (columnWrites base layers x z)"
    by (auto simp: columnWrites_def distinct_map inj_on_def in_set_enumerate_eq distinct_enumerate
        split: prod.splits)
  then have "map_of (rev (columnWrites base layers x z)) = map_of (columnWrites base layers x z)"
    by (intro map_of_perm) (simp_all flip: rev_map)
  moreover have "((x', y', z', l'), v) \<in> set (columnWrites base layers x z) \<longleftrightarrow>
     x' = x \<and> z' = z \<and> l' = 0 \<and> base \<le> y' \<and> y' < base + int (length layers) \<and> v = layers ! nat (y' - base)" for v
    by (auto simp: columnWrites_def in_set_enumerate_eq image_iff intro!: bexI [of _ "(nat (y' - base), v)"])
  ultimately show ?thesis
    using wf by (auto simp: map_of_Some_iff map_of_eq_None_iff image_iff) 
qed

definition flatCell :: "int \<Rightarrow> u32 list \<Rightarrow> int \<Rightarrow> u8 \<Rightarrow> bool" where
  "flatCell base layers y l \<longleftrightarrow> l = 0 \<and> base \<le> y \<and> y < base + int (length layers)"

lemma SetRuntimeID_all_keep:
  assumes "forE (\<lambda>(p, v). putBlock p v) pvs c = Inr c'"
  shows "dimension c' = dimension c \<and> airRuntimeID c' = airRuntimeID c \<and> position c' = position c \<and>
    defaultBiomeID c' = defaultBiomeID c \<and> biomeOverrides c' = biomeOverrides c"
proof (rule forE_invariant [OF assms])
  fix pv s s' assume "(case pv of (p, v) \<Rightarrow> putBlock p v) s = Inr s'"
  then obtain x y z l v where w: "SetRuntimeID x y z l v s = Inr s'" by (cases pv) auto
  assume "dimension s = dimension c \<and> airRuntimeID s = airRuntimeID c \<and> position s = position c \<and>
    defaultBiomeID s = defaultBiomeID c \<and> biomeOverrides s = biomeOverrides c"
  then show "dimension s' = dimension c \<and> airRuntimeID s' = airRuntimeID c \<and> position s' = position c \<and>
    defaultBiomeID s' = defaultBiomeID c \<and> biomeOverrides s' = biomeOverrides c"
    by (simp add: SetRuntimeID_keeps [OF w])
qed simp

lemma fillColumn_spec:
  assumes "chunk_ok c" and "in_i16 base" and "fits c base (length layers)" and "x \<le> 15" and "z \<le> 15"
  shows "\<exists>c'. fillColumn base layers x z c = Inr c' \<and> chunk_ok c' \<and>
    (dimension c' = dimension c \<and> airRuntimeID c' = airRuntimeID c \<and> position c' = position c \<and>
     defaultBiomeID c' = defaultBiomeID c \<and> biomeOverrides c' = biomeOverrides c) \<and>
    (\<forall>x' y z' l. RuntimeID c' x' y z' l =
      (if x' = x \<and> z' = z \<and> flatCell base layers y l then layers ! nat (y - base) else RuntimeID c x' y z' l))"
proof -
  have shape: "chunk_shape c" using assms(1) by (simp add: chunk_ok_def)
  then have "MaxY (dimension c) < 2 ^ 15"
    using assms(1) by (simp add: chunk_shape_def dim_ok_simps dim_ok_def)
  then have top: "base + int (length layers) \<le> 2 ^ 15" using assms(3) by linarith
  note w = fillColumn_writes [OF assms(2) top]
  have "\<forall>(p, v) \<in> set (columnWrites base layers x z). validBlock c p"
    using assms(3-5) by (auto simp: columnWrites_def in_set_enumerate_eq)
  with blocks.put_all_ok [OF assms(1)] obtain c' where c':
    "forE (\<lambda>(p, v). putBlock p v) (columnWrites base layers x z) c = Inr c'" "chunk_ok c'"
    "validBlock c' = validBlock c" by blast
  have "RuntimeID c' x' y z' l =
      (if x' = x \<and> z' = z \<and> flatCell base layers y l then layers ! nat (y - base) else RuntimeID c x' y z' l)" for x' y z' l
  proof (cases "validBlock c (x', y, z', l)")
    case True
    then show ?thesis
      using blocks.get_put_all [OF assms(1) c'(1) True] by (simp add: map_of_columnWrites flatCell_def)
  next
    case False
    moreover have "\<not> (x' = x \<and> z' = z \<and> flatCell base layers y l)"
      using False assms(3-5) by (auto simp: flatCell_def)
    ultimately show ?thesis
      using RuntimeID_outside c'(3) SetRuntimeID_all_keep [OF c'(1)] by metis
  qed
  then show ?thesis using c' SetRuntimeID_all_keep [OF c'(1)] w by metis
qed

lemma fillColumns_spec:
  assumes "chunk_ok c" and "in_i16 base" and "fits c base (length layers)"
    and "\<forall>(n, x, z) \<in> set cols. ctx n = None \<and> x \<le> 15 \<and> z \<le> 15"
  shows "\<exists>c'. fillColumns ctx base layers cols c = Inr c' \<and> chunk_ok c' \<and>
    (dimension c' = dimension c \<and> airRuntimeID c' = airRuntimeID c \<and> position c' = position c \<and>
     defaultBiomeID c' = defaultBiomeID c \<and> biomeOverrides c' = biomeOverrides c) \<and>
    (\<forall>x y z l. RuntimeID c' x y z l =
      (if (x, z) \<in> snd ` set cols \<and> flatCell base layers y l then layers ! nat (y - base) else RuntimeID c x y z l))"
  using assms
proof (induction cols arbitrary: c)
  case Nil
  then show ?case by (simp add: fillColumns_def)
next
  case (Cons col cols)
  obtain n x z where col: "col = (n, x, z)" by (cases col) auto
  with Cons.prems obtain c1 where c1: "fillColumn base layers x z c = Inr c1" "chunk_ok c1"
    "dimension c1 = dimension c" "airRuntimeID c1 = airRuntimeID c" "position c1 = position c"
    "defaultBiomeID c1 = defaultBiomeID c" "biomeOverrides c1 = biomeOverrides c"
    "\<And>x' y z' l. RuntimeID c1 x' y z' l =
      (if x' = x \<and> z' = z \<and> flatCell base layers y l then layers ! nat (y - base) else RuntimeID c x' y z' l)"
    using fillColumn_spec [of c base layers x z] by auto
  have "fillColumns ctx base layers (col # cols) c = fillColumns ctx base layers cols c1"
    using c1(1) Cons.prems(4) by (simp add: fillColumns_def col)
  with Cons.IH [OF c1(2) Cons.prems(2)] Cons.prems(3,4) c1(3-8) show ?case
    by (auto simp: col)
qed

lemma columns_all: "set columns = {(x, z). x \<le> 15 \<and> z \<le> 15}"
proof -
  have "of_nat ` {0..<16} = {x :: u8. x \<le> 15}"
  proof (intro set_eqI iffI)
    fix x :: u8 assume "x \<in> {x. x \<le> 15}"
    then have "unat x < 16" by (simp add: word_le_nat_alt)
    then show "x \<in> of_nat ` {0..<16}" by (intro image_eqI [of _ _ "unat x"]) simp_all
  qed (auto simp: word_le_nat_alt unat_of_nat)
  then show ?thesis by (simp add: columns_def)
qed

lemma resolveLayers_ok:
  assumes "nbt_compound enc" and "\<forall>s \<in> set states. Name s \<noteq> ''''"
  shows "\<exists>ids. resolveLayers enc states = Inr ids \<and> length ids = length states \<and>
    (\<forall>i < length states. RegistryRuntimeID enc (states ! i) = Inr (ids ! i))"
  using assms(2)
proof (induction states)
  case (Cons s states)
  then show ?case
    using RegistryRuntimeID_ok [OF assms(1), of s] by (auto simp: nth_Cons split: nat.split)
qed simp

section \<open>Properties of the generator\<close>

lemma genDefaults_simps:
  "DimensionData (genDefaults g) = DimensionData g" "BaseY (genDefaults g) = BaseY g"
  "Layers (genDefaults g) = (if Layers g = [] then defaultLayers else Layers g)"
proof -
  have "\<not> brMax (Range d) \<le> brMin (Range d)" for d
    by (simp add: Range_def withDefaults_def Overworld_def)
  then show "DimensionData (genDefaults g) = DimensionData g" "BaseY (genDefaults g) = BaseY g"
    "Layers (genDefaults g) = (if Layers g = [] then defaultLayers else Layers g)"
    by (simp_all add: genDefaults_def Let_def split: sum.split)
qed

lemma genDefaults_spawn:
  assumes "SpawnPosition g = zeroVec"
  shows "SpawnPosition (genDefaults g) = \<lparr>vecX = 1 / 2,
    vecY = of_int (i16 (BaseY g + i16 (int (length (Layers (genDefaults g)))))), vecZ = 1 / 2\<rparr>"
  using assms by (simp add: genDefaults_def Let_def split: sum.split)

definition gen_ok :: "FlatGenerator \<Rightarrow> bool" where
  "gen_ok g \<longleftrightarrow> in_i16 (dimMinY (DimensionData g)) \<and> in_i16 (dimMaxY (DimensionData g)) \<and> in_i16 (BaseY g) \<and>
     (\<forall>s \<in> set (Layers g). Name s \<noteq> '''') \<and>
     MinY (DimensionData g) \<le> BaseY g \<and>
     BaseY g + int (length (Layers (genDefaults g))) - 1 \<le> MaxY (DimensionData g)"

lemma genLayers_named: "gen_ok g \<Longrightarrow> s \<in> set (Layers (genDefaults g)) \<Longrightarrow> Name s \<noteq> ''''"
  by (auto simp: gen_ok_def genDefaults_simps defaultLayers_def split: if_splits)

text \<open>The chunk the generator starts from, and the runtime IDs of its layers.\<close>

lemma FlatChunk_start:
  assumes "nbt_compound enc" and "gen_ok g"
  shows "\<exists>c0 ids. chunk_ok c0 \<and> position c0 = pos \<and> dimension c0 = withDefaults (DimensionData g) \<and>
    biomeOverrides c0 = [] \<and> defaultBiomeID c0 = biomeID (BiomeData (genDefaults g)) \<and>
    RegistryRuntimeID enc AirBlock = Inr (airRuntimeID c0) \<and>
    (\<forall>x y z l. RuntimeID c0 x y z l = airRuntimeID c0) \<and>
    length ids = length (Layers (genDefaults g)) \<and>
    (\<forall>i < length ids. RegistryRuntimeID enc (Layers (genDefaults g) ! i) = Inr (ids ! i)) \<and>
    fits c0 (BaseY g) (length ids) \<and>
    FlatChunk enc g ctx pos = fillColumns ctx (BaseY g) ids (enumerate 0 columns) c0"
proof -
  obtain c where c: "NewChunk enc pos (DimensionData g) = Inr c" using NewChunk_total [OF assms(1)] by blast
  have r: "in_i16 (dimMinY (DimensionData g))" "in_i16 (dimMaxY (DimensionData g))"
    using assms(2) by (simp_all add: gen_ok_def)
  note n = NewChunk_ok [OF c r]
  have air: "RegistryRuntimeID enc AirBlock = Inr (airRuntimeID c)"
    using c by (auto simp: NewChunk_def Let_def split: sum.splits)
  let ?c = "FillBiomeID (biomeID (BiomeData (genDefaults g))) c"
  have b: "chunk_ok ?c" "position ?c = pos" "dimension ?c = withDefaults (DimensionData g)"
    "airRuntimeID ?c = airRuntimeID c" "biomeOverrides ?c = []"
    "defaultBiomeID ?c = biomeID (BiomeData (genDefaults g))"
    using n(1,2,3) by (simp_all add: FillBiomeID_def chunk_ok_def chunk_shape_def)
  have rid: "RuntimeID ?c x y z l = airRuntimeID c" for x y z l
    using n(4) [of x y z l] RuntimeID_cong [of ?c c] by (simp add: FillBiomeID_def)
  obtain ids where ids: "resolveLayers enc (Layers (genDefaults g)) = Inr ids"
    "length ids = length (Layers (genDefaults g))"
    "\<forall>i < length (Layers (genDefaults g)). RegistryRuntimeID enc (Layers (genDefaults g) ! i) = Inr (ids ! i)"
    using resolveLayers_ok [OF assms(1), of "Layers (genDefaults g)"] genLayers_named [OF assms(2)] by blast
  have "fits ?c (BaseY g) (length ids)"
    using assms(2) ids(2) by (simp add: b gen_ok_def MinY_def MaxY_def withDefaults_def Overworld_def)
  moreover have "FlatChunk enc g ctx pos = fillColumns ctx (BaseY g) ids (enumerate 0 columns) ?c"
    using c ids by (simp add: FlatChunk_def Let_def genDefaults_simps(1,2))
  ultimately show ?thesis using b rid air ids by (intro exI [of _ ?c] exI [of _ ids]) simp
qed

lemma columns_enumerated: "snd ` set (enumerate 0 columns) = {(x, z). x \<le> 15 \<and> z \<le> 15}" "length columns = 256"
  by (simp_all add: columns_all flip: set_map) (simp add: columns_def)

lemma FlatChunk_spec:
  assumes "nbt_compound enc" and "gen_ok g" and "\<forall>n < 256. ctx n = None"
  shows "\<exists>c. FlatChunk enc g ctx pos = Inr c \<and> chunk_ok c \<and> position c = pos \<and>
    dimension c = withDefaults (DimensionData g) \<and> RegistryRuntimeID enc AirBlock = Inr (airRuntimeID c) \<and>
    (\<forall>x y z. BiomeID c x y z = biomeID (BiomeData (genDefaults g))) \<and>
    (\<forall>x y z l.
       (if x \<le> 15 \<and> z \<le> 15 \<and> l = 0 \<and> BaseY g \<le> y \<and> y < BaseY g + int (length (Layers (genDefaults g)))
        then RegistryRuntimeID enc (Layers (genDefaults g) ! nat (y - BaseY g)) = Inr (RuntimeID c x y z l)
        else RuntimeID c x y z l = airRuntimeID c))"
proof -
  obtain c0 ids where s: "chunk_ok c0" "position c0 = pos" "dimension c0 = withDefaults (DimensionData g)"
    "biomeOverrides c0 = []" "defaultBiomeID c0 = biomeID (BiomeData (genDefaults g))"
    "RegistryRuntimeID enc AirBlock = Inr (airRuntimeID c0)"
    "\<forall>x y z l. RuntimeID c0 x y z l = airRuntimeID c0"
    "length ids = length (Layers (genDefaults g))"
    "\<forall>i < length ids. RegistryRuntimeID enc (Layers (genDefaults g) ! i) = Inr (ids ! i)"
    "fits c0 (BaseY g) (length ids)"
    "FlatChunk enc g ctx pos = fillColumns ctx (BaseY g) ids (enumerate 0 columns) c0"
    using FlatChunk_start [OF assms(1,2), where pos = pos and ctx = ctx] by blast
  have "\<forall>(n, x, z) \<in> set (enumerate 0 columns). ctx n = None \<and> x \<le> 15 \<and> z \<le> 15"
  proof (clarify, goal_cases)
    case (1 n x z)
    then have "n < length columns" "columns ! n = (x, z)" by (auto simp: in_set_enumerate_eq)
    then have "n < length columns" "(x, z) \<in> set columns" by (simp_all, metis nth_mem)
    then show ?case using assms(3) by (simp add: columns_all columns_enumerated)
  qed
  moreover have "in_i16 (BaseY g)" using assms(2) by (simp add: gen_ok_def)
  ultimately obtain c where c: "fillColumns ctx (BaseY g) ids (enumerate 0 columns) c0 = Inr c" "chunk_ok c"
    "dimension c = dimension c0" "airRuntimeID c = airRuntimeID c0" "position c = position c0"
    "defaultBiomeID c = defaultBiomeID c0" "biomeOverrides c = biomeOverrides c0"
    "\<forall>x y z l. RuntimeID c x y z l = (if (x, z) \<in> snd ` set (enumerate 0 columns) \<and> flatCell (BaseY g) ids y l
       then ids ! nat (y - BaseY g) else RuntimeID c0 x y z l)"
    using fillColumns_spec [OF s(1) _ s(10)] by blast
  have B: "BiomeID c x y z = biomeID (BiomeData (genDefaults g))" for x y z
    using c s by (simp add: BiomeID_def)
  have R: "if x \<le> 15 \<and> z \<le> 15 \<and> l = 0 \<and> BaseY g \<le> y \<and> y < BaseY g + int (length (Layers (genDefaults g)))
        then RegistryRuntimeID enc (Layers (genDefaults g) ! nat (y - BaseY g)) = Inr (RuntimeID c x y z l)
        else RuntimeID c x y z l = airRuntimeID c" for x y z l
    using c(4,8) s(7-9) by (auto simp: columns_enumerated(1) flatCell_def)
  show ?thesis
    by (intro exI [of _ c] conjI allI R B) (use s(2,3,6,11) c(1-5) in simp_all)
qed

text \<open>
  C5. The flat generator, run with a context that stays alive, returns a chunk at the requested
  position that satisfies the chunk invariant and whose contents are exactly the configured
  strata: in every column, layer 0 holds at height \<^verbatim>\<open>BaseY + i\<close> the runtime ID of the \<open>i\<close>-th block
  state, every other cell of every layer reads as air, and the biome everywhere is the
  generator's biome.
\<close>

theorem flat_chunk_content:
  assumes "nbt_compound enc" and "gen_ok g" and "\<forall>n < 256. ctx n = None"
  shows "\<exists>c. FlatChunk enc g ctx pos = Inr c \<and> chunk_ok c \<and> position c = pos \<and>
    dimension c = withDefaults (DimensionData g) \<and> RegistryRuntimeID enc AirBlock = Inr (airRuntimeID c) \<and>
    (\<forall>x y z. BiomeID c x y z = biomeID (BiomeData (genDefaults g))) \<and>
    (\<forall>x y z l.
       (if x \<le> 15 \<and> z \<le> 15 \<and> l = 0 \<and> BaseY g \<le> y \<and> y < BaseY g + int (length (Layers (genDefaults g)))
        then RegistryRuntimeID enc (Layers (genDefaults g) ! nat (y - BaseY g)) = Inr (RuntimeID c x y z l)
        else RuntimeID c x y z l = airRuntimeID c))"
  using assms by (rule FlatChunk_spec)

lemma fillColumns_append:
  "fillColumns ctx base layers (xs @ ys) c =
     (case fillColumns ctx base layers xs c of Inl e \<Rightarrow> Inl e | Inr c' \<Rightarrow> fillColumns ctx base layers ys c')"
  unfolding fillColumns_def by (rule forE_append)

text \<open>
  When the context is done the generator gives up: if the polls before the \<open>k\<close>-th column see a
  live context and the \<open>k\<close>-th one sees the error \<open>e\<close>, generation returns \<open>e\<close>, whatever the later
  polls would say, and no chunk.
\<close>

lemma flat_chunk_cancelled:
  assumes "nbt_compound enc" and "gen_ok g" and "k < 256" and "\<forall>n < k. ctx n = None" and "ctx k = Some e"
  shows "FlatChunk enc g ctx pos = Inl (FlatContext e)"
proof -
  obtain c0 ids where s: "chunk_ok c0" "fits c0 (BaseY g) (length ids)"
    "FlatChunk enc g ctx pos = fillColumns ctx (BaseY g) ids (enumerate 0 columns) c0"
    using FlatChunk_start [OF assms(1,2), where pos = pos and ctx = ctx] by blast
  let ?l = "enumerate 0 columns"
  have k: "k < length ?l" "?l ! k = (k, columns ! k)"
    using assms(3) by (simp_all add: columns_enumerated(2) nth_enumerate_eq)
  have "\<forall>(n, x, z) \<in> set (take k ?l). ctx n = None \<and> x \<le> 15 \<and> z \<le> 15"
  proof (clarify, goal_cases)
    case (1 n x z)
    then obtain i where i: "i < k" "take k ?l ! i = (n, x, z)" "i < length ?l"
      by (auto simp: in_set_conv_nth)
    then have "n = i" "columns ! i = (x, z)" by (auto simp: nth_enumerate_eq)
    moreover have "columns ! i \<in> set columns" using i by simp
    ultimately show ?case using assms(4) i(1) by (simp add: columns_all)
  qed
  moreover have "in_i16 (BaseY g)" using assms(2) by (simp add: gen_ok_def)
  ultimately obtain c where c: "fillColumns ctx (BaseY g) ids (take k ?l) c0 = Inr c"
    using fillColumns_spec [OF s(1) _ s(2)] by blast
  have "?l = take k ?l @ (k, columns ! k) # drop (Suc k) ?l"
    using id_take_nth_drop [OF k(1)] k(2) by simp
  then have "fillColumns ctx (BaseY g) ids ?l c0 = fillColumns ctx (BaseY g) ids ((k, columns ! k) # drop (Suc k) ?l) c"
    using c fillColumns_append [of ctx "BaseY g" ids "take k ?l" "(k, columns ! k) # drop (Suc k) ?l" c0] by simp
  also have "\<dots> = Inl (FlatContext e)"
    using assms(5) by (cases "columns ! k") (simp add: fillColumns_def)
  finally show ?thesis using s(3) by simp
qed

definition defaultGenerator :: FlatGenerator where
  "defaultGenerator = \<lparr>DimensionData = Overworld, BaseY = 60, Layers = defaultLayers,
     BiomeData = \<lparr>biomeName = ''plains'', biomeID = 1\<rparr>,
     SpawnPosition = \<lparr>vecX = 1 / 2, vecY = 64, vecZ = 1 / 2\<rparr>\<rparr>"

lemma NewFlatGenerator_eq: "NewFlatGenerator = Inr defaultGenerator"
  by (simp add: NewFlatGenerator_def BiomeByName_def defaultGenerator_def)

lemma defaultGenerator_ok: "gen_ok defaultGenerator"
  by (simp add: gen_ok_def defaultGenerator_def defaultLayers_def genDefaults_simps MinY_def MaxY_def
      withDefaults_def Overworld_def)

lemma defaultGenerator_layers: "Layers (genDefaults defaultGenerator) = defaultLayers"
  by (simp add: genDefaults_simps defaultGenerator_def defaultLayers_def)

text \<open>Witness of \<open>flat_chunk_content\<close>: grass at height 63 of the generator the server builds.\<close>

theorem flat_chunk_content_witness:
  "\<exists>c. FlatChunk sampleEncoder defaultGenerator (\<lambda>n. None) \<lparr>chunkX = 1, chunkZ = -1\<rparr> = Inr c \<and>
     RegistryRuntimeID sampleEncoder GrassBlock = Inr (RuntimeID c 3 63 4 0) \<and>
     RuntimeID c 3 64 4 0 = airRuntimeID c"
proof -
  obtain c where c: "FlatChunk sampleEncoder defaultGenerator (\<lambda>n. None) \<lparr>chunkX = 1, chunkZ = -1\<rparr> = Inr c"
    "\<And>x y z l. (if x \<le> 15 \<and> z \<le> 15 \<and> l = 0 \<and> BaseY defaultGenerator \<le> y \<and>
          y < BaseY defaultGenerator + int (length (Layers (genDefaults defaultGenerator)))
        then RegistryRuntimeID sampleEncoder (Layers (genDefaults defaultGenerator) ! nat (y - BaseY defaultGenerator))
          = Inr (RuntimeID c x y z l)
        else RuntimeID c x y z l = airRuntimeID c)"
    using flat_chunk_content [OF sampleEncoder_compound defaultGenerator_ok, of "\<lambda>n. None" "\<lparr>chunkX = 1, chunkZ = -1\<rparr>"]
    by auto
  have "BaseY defaultGenerator = 60" by (simp add: defaultGenerator_def)
  with c(2) [of 3 4 0 63] c(2) [of 3 4 0 64] show ?thesis
    by (simp add: c(1) defaultGenerator_layers defaultLayers_def)
qed

lemma HighestBlockY_eqI:
  assumes "chunk_ok c" "x \<le> 15" "z \<le> 15" and "RuntimeID c x y z l \<noteq> airRuntimeID c"
    and "\<And>w. y < w \<Longrightarrow> RuntimeID c x w z l = airRuntimeID c"
  shows "HighestBlockY c x z l = y"
  using HighestBlockY_spec [OF assms(1-3), of l] assms(4,5)
  by (metis linorder_neqE)

text \<open>
  A generator whose spawn position is left at zero spawns players on the ground of its own
  terrain: the spawn block is the cell right above the topmost block of every column of every
  chunk it generates, as long as its last layer is not air and the terrain ends below the
  top of the \<^verbatim>\<open>int16\<close> range. The generator the server builds fixes the spawn explicitly, at the
  same height.
\<close>

lemma spawn_on_top_of_terrain:
  assumes "nbt_compound enc" and "gen_ok g" and "\<forall>n < 256. ctx n = None"
    and "SpawnPosition g = zeroVec" and "BaseY g + int (length (Layers (genDefaults g))) < 2 ^ 15"
    and "RegistryRuntimeID enc (last (Layers (genDefaults g))) \<noteq> RegistryRuntimeID enc AirBlock"
  shows "\<exists>c. FlatChunk enc g ctx pos = Inr c \<and>
    (\<forall>x z. x \<le> 15 \<and> z \<le> 15 \<longrightarrow> HighestBlockY c x z 0 + 1 = blockY (SpawnBlock g)) \<and>
    blockX (SpawnBlock g) = 0 \<and> blockZ (SpawnBlock g) = 0"
proof -
  let ?ls = "Layers (genDefaults g)" and ?top = "BaseY g + int (length (Layers (genDefaults g))) - 1"
  obtain c where c: "FlatChunk enc g ctx pos = Inr c" "chunk_ok c"
    "RegistryRuntimeID enc AirBlock = Inr (airRuntimeID c)"
    "\<And>x y z l. (if x \<le> 15 \<and> z \<le> 15 \<and> l = 0 \<and> BaseY g \<le> y \<and> y < BaseY g + int (length ?ls)
        then RegistryRuntimeID enc (?ls ! nat (y - BaseY g)) = Inr (RuntimeID c x y z l)
        else RuntimeID c x y z l = airRuntimeID c)"
    using FlatChunk_spec [OF assms(1-3), of pos] by blast
  have ne: "?ls \<noteq> []" by (simp add: genDefaults_simps defaultLayers_def)
  then have "last ?ls = ?ls ! (length ?ls - 1)" by (rule last_conv_nth)
  moreover have "nat (?top - BaseY g) = length ?ls - 1" "BaseY g \<le> ?top" using ne by (auto simp: Suc_le_eq)
  ultimately have top: "RuntimeID c x ?top z 0 \<noteq> airRuntimeID c" if "x \<le> 15" "z \<le> 15" for x z
    using c(4) [of x z 0 ?top] that assms(6) c(3) by auto
  have "HighestBlockY c x z 0 = ?top" if "x \<le> 15" "z \<le> 15" for x z
    using c(4) [of x z 0] by (intro HighestBlockY_eqI [OF c(2) that top [OF that]]) (simp split: if_splits)
  moreover have "SpawnPosition (genDefaults g) = \<lparr>vecX = 1 / 2, vecY = of_int (?top + 1), vecZ = 1 / 2\<rparr>"
  proof -
    have "i16 (BaseY g + i16 (int (length ?ls))) = ?top + 1"
      using assms(2,5) by (simp add: signed_wrap_add gen_ok_def)
    then show ?thesis by (simp add: genDefaults_spawn [OF assms(4)])
  qed
  moreover have "\<lfloor>1 / 2 :: rat\<rfloor> = 0" by (simp add: floor_eq_iff)
  ultimately show ?thesis using c(1) by (auto simp: SpawnBlock_def Spawn_def)
qed

end
