(* ===== verification/Inventory.thy ===== *)
theory Inventory
  imports Prelude Runtime
begin

text \<open>
  The player inventory and item stack requests (\<^verbatim>\<open>internal/server/mcpe_inventory.go\<close>).

  Items are values of the protocol library. The fields the code reads or writes are modelled;
  the others (metadata value, block runtime ID, \<dots>) are the opaque number \<open>stackRest\<close>, which is
  copied and compared and is 0 in the zero value. A nil slice differs from an empty one under
  \<^verbatim>\<open>reflect.DeepEqual\<close>, so slices are \<open>string list option\<close>; an NBT map is the list of its entries
  in key order, with \<open>None\<close> for nil, so that equality is \<^verbatim>\<open>DeepEqual\<close>.

  Container IDs are constants of the protocol library that the code compares and, in one
  place, sorts: they are the constructors of \<open>container\<close>, distinct because the code uses them as
  cases of one \<^verbatim>\<open>switch\<close>, and their numeric values are the parameter \<open>cbyte\<close> of the function that
  sorts. Actions return an error and the state they leave, so that the effect of
  restoring the snapshot is part of what is proved.
\<close>

section \<open>Items\<close>

record ItemStack =
  NetworkID :: int
  Count :: u16
  NBTData :: "(string \<times> anyval) list option"
  CanBePlacedOn :: "string list option"
  CanBreak :: "string list option"
  stackRest :: nat

record ItemInstance =
  StackNetworkID :: int
  Stack :: ItemStack

definition zeroStack :: ItemStack where
  "zeroStack = \<lparr>NetworkID = 0, Count = 0, NBTData = None, CanBePlacedOn = None, CanBreak = None, stackRest = 0\<rparr>"

definition zeroItem :: ItemInstance where
  "zeroItem = \<lparr>StackNetworkID = 0, Stack = zeroStack\<rparr>"

definition itemIsEmpty :: "ItemInstance \<Rightarrow> bool" where
  "itemIsEmpty item \<longleftrightarrow> NetworkID (Stack item) = 0 \<or> Count (Stack item) = 0"

definition itemStackNetworkID :: "ItemInstance \<Rightarrow> int" where
  "itemStackNetworkID item = (if itemIsEmpty item then 0 else StackNetworkID item)"

definition sameItemInstance :: "ItemInstance \<Rightarrow> ItemInstance \<Rightarrow> bool" where
  "sameItemInstance a b = (if itemIsEmpty a \<and> itemIsEmpty b then True else a = b)"

definition sameStackType :: "ItemInstance \<Rightarrow> ItemInstance \<Rightarrow> bool" where
  "sameStackType a b =
     (if itemIsEmpty a \<or> itemIsEmpty b then itemIsEmpty a \<and> itemIsEmpty b
      else (Stack a)\<lparr>Count := 0\<rparr> = (Stack b)\<lparr>Count := 0\<rparr>)"

text \<open>\<^verbatim>\<open>append([]string(nil), xs...)\<close>: a copy, which is nil when there is nothing to append.\<close>

definition copySlice :: "'a list option \<Rightarrow> 'a list option" where
  "copySlice xs = (case xs of None \<Rightarrow> None | Some ys \<Rightarrow> if ys = [] then None else Some ys)"

text \<open>Copying the entries of a non-empty NBT map gives an equal map.\<close>

definition cloneItemInstance :: "ItemInstance \<Rightarrow> ItemInstance" where
  "cloneItemInstance item =
     item\<lparr>Stack := (Stack item)\<lparr>CanBePlacedOn := copySlice (CanBePlacedOn (Stack item)),
                              CanBreak := copySlice (CanBreak (Stack item))\<rparr>\<rparr>"

section \<open>The inventory\<close>

datatype container =
    ContainerInventory
  | ContainerCombinedHotBarAndInventory
  | ContainerHotBar
  | ContainerCursor
  | ContainerOffhand
  | OtherContainer u8

record mcpeInventorySlot =
  container :: container
  slot :: u8

type_synonym changes = "(mcpeInventorySlot, ItemInstance) gomap"

record mcpeInventory =
  main :: "ItemInstance list"
  cursor :: ItemInstance
  offhand :: ItemInstance
  selectedHotbar :: u8
  nextStackID :: int
  responseStackIDs :: "(int, (mcpeInventorySlot, int) gomap) gomap"

record mcpeInventorySnapshot =
  snapMain :: "ItemInstance list"
  snapCursor :: ItemInstance
  snapOffhand :: ItemInstance
  snapSelectedHotbar :: u8
  snapNextStackID :: int

datatype stack_status =
    StatusOK
  | StatusError
  | InvalidTransferAmount
  | DstContainerAndSlotEqualToSrcContainerAndSlot
  | CannotPlaceItem
  | CannotDropItem
  | CannotDestroyItem
  | PlayerNotInCreativeMode
  | ActionRequestNotAllowed
  | FailedToValidateSrcSlot
  | InvalidSourceContainer
  | InvalidItemNetId

datatype stack_error = itemStackRequestError stack_status | PlainError

definition newMCPEInventory :: mcpeInventory where
  "newMCPEInventory = \<lparr>main = replicate 36 zeroItem, cursor = zeroItem, offhand = zeroItem,
     selectedHotbar = 0, nextStackID = 1, responseStackIDs = []\<rparr>"

definition snapshot :: "mcpeInventory \<Rightarrow> mcpeInventorySnapshot" where
  "snapshot iv = \<lparr>snapMain = main iv, snapCursor = cursor iv, snapOffhand = offhand iv,
     snapSelectedHotbar = selectedHotbar iv, snapNextStackID = nextStackID iv\<rparr>"

definition restore :: "mcpeInventorySnapshot \<Rightarrow> mcpeInventory \<Rightarrow> mcpeInventory" where
  "restore s iv = iv\<lparr>main := snapMain s, cursor := snapCursor s, offhand := snapOffhand s,
     selectedHotbar := snapSelectedHotbar s, nextStackID := snapNextStackID s\<rparr>"

definition mainContent :: "mcpeInventory \<Rightarrow> ItemInstance list" where
  "mainContent iv = map cloneItemInstance (main iv)"

definition heldItem :: "mcpeInventory \<Rightarrow> ItemInstance" where
  "heldItem iv = (if selectedHotbar iv \<ge> 9 then zeroItem
     else cloneItemInstance (main iv ! unat (selectedHotbar iv)))"

definition resolveSlot :: "container \<Rightarrow> u8 \<Rightarrow> stack_error + mcpeInventorySlot" where
  "resolveSlot c s =
     (let ref = \<lparr>container = c, slot = s\<rparr> in
      case c of
        ContainerInventory \<Rightarrow>
          if s \<ge> 36 then Inl (itemStackRequestError FailedToValidateSrcSlot) else Inr ref
      | ContainerCombinedHotBarAndInventory \<Rightarrow>
          if s \<ge> 36 then Inl (itemStackRequestError FailedToValidateSrcSlot) else Inr ref
      | ContainerHotBar \<Rightarrow>
          if s \<ge> 9 then Inl (itemStackRequestError FailedToValidateSrcSlot) else Inr ref
      | ContainerCursor \<Rightarrow>
          if s \<noteq> 0 then Inl (itemStackRequestError FailedToValidateSrcSlot) else Inr ref
      | ContainerOffhand \<Rightarrow>
          if s \<noteq> 0 then Inl (itemStackRequestError FailedToValidateSrcSlot) else Inr ref
      | OtherContainer n \<Rightarrow> Inl (itemStackRequestError InvalidSourceContainer))"

definition mainContainer :: "container \<Rightarrow> bool" where
  "mainContainer c \<longleftrightarrow> c = ContainerInventory \<or> c = ContainerCombinedHotBarAndInventory \<or> c = ContainerHotBar"

definition item :: "mcpeInventory \<Rightarrow> mcpeInventorySlot \<Rightarrow> stack_error + ItemInstance" where
  "item iv ref =
     (if mainContainer (container ref) then
        (if slot ref \<ge> 36 then Inl PlainError else Inr (cloneItemInstance (main iv ! unat (slot ref))))
      else if container ref = ContainerCursor then Inr (cloneItemInstance (cursor iv))
      else if container ref = ContainerOffhand then Inr (cloneItemInstance (offhand iv))
      else Inl PlainError)"

definition nextNetworkStackID :: "mcpeInventory \<Rightarrow> int \<times> mcpeInventory" where
  "nextNetworkStackID iv0 =
     (let iv = (if nextStackID iv0 < 1 then iv0\<lparr>nextStackID := 1\<rparr> else iv0);
          n = nextStackID iv
      in (n, iv\<lparr>nextStackID := i32 (n + 1)\<rparr>))"

definition normaliseItem :: "ItemInstance \<Rightarrow> mcpeInventory \<Rightarrow> ItemInstance \<times> mcpeInventory" where
  "normaliseItem it0 iv =
     (if itemIsEmpty it0 then (zeroItem, iv)
      else
        let it = cloneItemInstance it0 in
        if StackNetworkID it \<le> 0 then
          let (n, iv') = nextNetworkStackID iv in (it\<lparr>StackNetworkID := n\<rparr>, iv')
        else if StackNetworkID it \<ge> nextStackID iv
        then (it, iv\<lparr>nextStackID := i32 (StackNetworkID it + 1)\<rparr>)
        else (it, iv))"

definition setItem :: "mcpeInventorySlot \<Rightarrow> ItemInstance \<Rightarrow> mcpeInventory \<Rightarrow> stack_error option \<times> mcpeInventory" where
  "setItem ref it0 iv0 =
     (let (it, iv) = normaliseItem it0 iv0 in
      if mainContainer (container ref) then
        (if slot ref \<ge> 36 then (Some PlainError, iv)
         else (None, iv\<lparr>main := (main iv)[unat (slot ref) := it]\<rparr>))
      else if container ref = ContainerCursor then (None, iv\<lparr>cursor := it\<rparr>)
      else if container ref = ContainerOffhand then (None, iv\<lparr>offhand := it\<rparr>)
      else (Some PlainError, iv))"

definition aliasInventorySlots :: "mcpeInventorySlot \<Rightarrow> mcpeInventorySlot list" where
  "aliasInventorySlots ref =
     (if mainContainer (container ref) then
        [\<lparr>container = ContainerInventory, slot = slot ref\<rparr>,
         \<lparr>container = ContainerCombinedHotBarAndInventory, slot = slot ref\<rparr>] @
        (if slot ref < 9 then [\<lparr>container = ContainerHotBar, slot = slot ref\<rparr>] else [])
      else [])"

text \<open>The loop of \<^verbatim>\<open>resolveStackNetworkID\<close> over a slot and its aliases.\<close>

fun firstResolved :: "(mcpeInventorySlot, int) gomap option \<Rightarrow> mcpeInventorySlot list \<Rightarrow> int option" where
  "firstResolved slots [] = None"
| "firstResolved slots (key # keys) =
     (case slots of
        None \<Rightarrow> firstResolved slots keys
      | Some m \<Rightarrow> (case map_of m key of Some resolved \<Rightarrow> Some resolved | None \<Rightarrow> firstResolved slots keys))"

definition resolveStackNetworkID :: "mcpeInventory \<Rightarrow> int \<Rightarrow> mcpeInventorySlot \<Rightarrow> stack_error + int" where
  "resolveStackNetworkID iv n ref =
     (if n \<ge> 0 then Inr n
      else case firstResolved (map_of (responseStackIDs iv) n) (ref # aliasInventorySlots ref) of
        Some resolved \<Rightarrow> Inr resolved
      | None \<Rightarrow> Inl (itemStackRequestError InvalidItemNetId))"

text \<open>
  The code ranges over the map of changes in any order. The order only matters for a slot that was changed under
  two names; here it is the order of the list.
\<close>

definition rememberSlots :: "changes \<Rightarrow> (mcpeInventorySlot, int) gomap" where
  "rememberSlots changes =
     fold (\<lambda>(ref, it). fold (\<lambda>alias. AList.update alias (itemStackNetworkID it)) (ref # aliasInventorySlots ref))
       changes []"

definition rememberResponseStackIDs :: "int \<Rightarrow> changes \<Rightarrow> mcpeInventory \<Rightarrow> mcpeInventory" where
  "rememberResponseStackIDs requestID changes iv =
     (if changes = [] then iv
      else
        let ids0 = (if length (responseStackIDs iv) > 256 then [] else responseStackIDs iv);
            slots = rememberSlots changes;
            ids1 = AList.update requestID slots ids0;
            ids2 = (if requestID \<noteq> 0 then AList.update (i32 (- requestID)) slots ids1 else ids1)
        in iv\<lparr>responseStackIDs := ids2\<rparr>)"

section \<open>Requests\<close>

record StackRequestSlotInfo =
  infoContainer :: container
  infoSlot :: u8
  infoStackNetworkID :: int

datatype StackRequestAction =
    TakeStackRequestAction StackRequestSlotInfo StackRequestSlotInfo u8
  | PlaceStackRequestAction StackRequestSlotInfo StackRequestSlotInfo u8
  | PlaceInContainerStackRequestAction StackRequestSlotInfo StackRequestSlotInfo u8
  | TakeOutContainerStackRequestAction StackRequestSlotInfo StackRequestSlotInfo u8
  | SwapStackRequestAction StackRequestSlotInfo StackRequestSlotInfo
  | DropStackRequestAction StackRequestSlotInfo u8
  | DestroyStackRequestAction StackRequestSlotInfo u8
  | MineBlockStackRequestAction int int
  | OtherStackRequestAction

record ItemStackRequest =
  RequestID :: int
  Actions :: "StackRequestAction list"

record StackResponseSlotInfo =
  respSlot :: u8
  respHotbarSlot :: u8
  respCount :: u8
  respStackNetworkID :: int

record StackResponseContainerInfo =
  respContainer :: container
  respSlotInfo :: "StackResponseSlotInfo list"

record ItemStackResponse =
  respStatus :: stack_status
  respRequestID :: int
  respContainerInfo :: "StackResponseContainerInfo list"

type_synonym request_state = "mcpeInventory \<times> changes"
type_synonym action_result = "stack_error option \<times> request_state"

definition verifyStackRequestSlot ::
  "mcpeInventory \<Rightarrow> StackRequestSlotInfo \<Rightarrow> stack_error + mcpeInventorySlot \<times> ItemInstance"
where
  "verifyStackRequestSlot iv info =
     (case resolveSlot (infoContainer info) (infoSlot info) of
        Inl e \<Rightarrow> Inl e
      | Inr ref \<Rightarrow>
      (case item iv ref of
        Inl e \<Rightarrow> Inl e
      | Inr it \<Rightarrow>
      (case resolveStackNetworkID iv (infoStackNetworkID info) ref of
        Inl e \<Rightarrow> Inl e
      | Inr expectedStackID \<Rightarrow>
          if itemStackNetworkID it \<noteq> expectedStackID
          then Inl (itemStackRequestError InvalidItemNetId)
          else Inr (ref, it))))"

definition setRequestSlot :: "mcpeInventorySlot \<Rightarrow> ItemInstance \<Rightarrow> request_state \<Rightarrow> request_state" where
  "setRequestSlot ref it = (\<lambda>(iv0, changes).
     let iv = snd (setItem ref it iv0);
         actual = (case item iv ref of Inl e \<Rightarrow> zeroItem | Inr a \<Rightarrow> a)
     in (iv, AList.update ref actual changes))"

text \<open>\<^verbatim>\<open>item.Stack.Count -= uint16(count)\<close>, replaced by the zero item when nothing is left.\<close>

definition takeFrom :: "ItemInstance \<Rightarrow> u8 \<Rightarrow> ItemInstance" where
  "takeFrom it count =
     (let it' = it\<lparr>Stack := (Stack it)\<lparr>Count := Count (Stack it) - ucast count\<rparr>\<rparr>
      in if Count (Stack it') = 0 then zeroItem else it')"

definition transferStack ::
  "StackRequestSlotInfo \<Rightarrow> StackRequestSlotInfo \<Rightarrow> u8 \<Rightarrow> request_state \<Rightarrow> action_result"
where
  "transferStack source destination count st =
     (let iv = fst st in
      if count = 0 then (Some (itemStackRequestError InvalidTransferAmount), st)
      else case verifyStackRequestSlot iv source of
        Inl e \<Rightarrow> (Some e, st)
      | Inr (sourceRef, sourceItem) \<Rightarrow>
      (case verifyStackRequestSlot iv destination of
        Inl e \<Rightarrow> (Some e, st)
      | Inr (destinationRef, destinationItem) \<Rightarrow>
        if sourceRef = destinationRef
        then (Some (itemStackRequestError DstContainerAndSlotEqualToSrcContainerAndSlot), st)
        else if itemIsEmpty sourceItem \<or> Count (Stack sourceItem) < ucast count
        then (Some (itemStackRequestError InvalidTransferAmount), st)
        else if itemIsEmpty destinationItem then
          let moved0 = sourceItem\<lparr>Stack := (Stack sourceItem)\<lparr>Count := ucast count\<rparr>\<rparr>;
              (moved, iv1) =
                (if ucast count \<noteq> Count (Stack sourceItem)
                 then let (n, iv') = nextNetworkStackID iv in (moved0\<lparr>StackNetworkID := n\<rparr>, iv')
                 else (moved0, iv))
          in (None, setRequestSlot destinationRef moved
                      (setRequestSlot sourceRef (takeFrom sourceItem count) (iv1, snd st)))
        else if \<not> sameStackType sourceItem destinationItem
        then (Some (itemStackRequestError CannotPlaceItem), st)
        else if Count (Stack destinationItem) + ucast count > 64
        then (Some (itemStackRequestError CannotPlaceItem), st)
        else
          let destinationItem' = destinationItem\<lparr>Stack := (Stack destinationItem)
                \<lparr>Count := Count (Stack destinationItem) + ucast count\<rparr>\<rparr>
          in (None, setRequestSlot destinationRef destinationItem'
                      (setRequestSlot sourceRef (takeFrom sourceItem count) st))))"

definition swapStacks ::
  "StackRequestSlotInfo \<Rightarrow> StackRequestSlotInfo \<Rightarrow> request_state \<Rightarrow> action_result"
where
  "swapStacks source destination st =
     (case verifyStackRequestSlot (fst st) source of
        Inl e \<Rightarrow> (Some e, st)
      | Inr (sourceRef, sourceItem) \<Rightarrow>
      (case verifyStackRequestSlot (fst st) destination of
        Inl e \<Rightarrow> (Some e, st)
      | Inr (destinationRef, destinationItem) \<Rightarrow>
        if sourceRef = destinationRef
        then (Some (itemStackRequestError DstContainerAndSlotEqualToSrcContainerAndSlot), st)
        else (None, setRequestSlot destinationRef sourceItem
                      (setRequestSlot sourceRef destinationItem st))))"

definition dropStack :: "StackRequestSlotInfo \<Rightarrow> u8 \<Rightarrow> request_state \<Rightarrow> action_result" where
  "dropStack source count st =
     (if count = 0 then (Some (itemStackRequestError InvalidTransferAmount), st)
      else case verifyStackRequestSlot (fst st) source of
        Inl e \<Rightarrow> (Some e, st)
      | Inr (ref, it) \<Rightarrow>
          if itemIsEmpty it \<or> Count (Stack it) < ucast count
          then (Some (itemStackRequestError CannotDropItem), st)
          else (None, setRequestSlot ref (takeFrom it count) st))"

definition destroyStack :: "StackRequestSlotInfo \<Rightarrow> u8 \<Rightarrow> request_state \<Rightarrow> action_result" where
  "destroyStack source count st =
     (if count = 0 then (Some (itemStackRequestError InvalidTransferAmount), st)
      else case verifyStackRequestSlot (fst st) source of
        Inl e \<Rightarrow> (Some e, st)
      | Inr (ref, it) \<Rightarrow>
          if itemIsEmpty it \<or> Count (Stack it) < ucast count
          then (Some (itemStackRequestError CannotDestroyItem), st)
          else (None, setRequestSlot ref (takeFrom it count) st))"

definition ackMineBlockStack :: "int \<Rightarrow> int \<Rightarrow> request_state \<Rightarrow> action_result" where
  "ackMineBlockStack hotbarSlot stackID st =
     (if hotbarSlot < 0 \<or> hotbarSlot \<ge> 9
      then (Some (itemStackRequestError FailedToValidateSrcSlot), st)
      else case verifyStackRequestSlot (fst st)
             \<lparr>infoContainer = ContainerInventory, infoSlot = word_of_int hotbarSlot, infoStackNetworkID = stackID\<rparr> of
        Inl e \<Rightarrow> (Some e, st)
      | Inr (ref, it) \<Rightarrow> (None, (fst st, AList.update ref it (snd st))))"

fun applyStackRequestAction :: "bool \<Rightarrow> StackRequestAction \<Rightarrow> request_state \<Rightarrow> action_result" where
  "applyStackRequestAction creative (TakeStackRequestAction s d n) st = transferStack s d n st"
| "applyStackRequestAction creative (PlaceStackRequestAction s d n) st = transferStack s d n st"
| "applyStackRequestAction creative (PlaceInContainerStackRequestAction s d n) st = transferStack s d n st"
| "applyStackRequestAction creative (TakeOutContainerStackRequestAction s d n) st = transferStack s d n st"
| "applyStackRequestAction creative (SwapStackRequestAction s d) st = swapStacks s d st"
| "applyStackRequestAction creative (DropStackRequestAction s n) st = dropStack s n st"
| "applyStackRequestAction creative (DestroyStackRequestAction s n) st =
     (if \<not> creative then (Some (itemStackRequestError PlayerNotInCreativeMode), st)
      else destroyStack s n st)"
| "applyStackRequestAction creative (MineBlockStackRequestAction h n) st = ackMineBlockStack h n st"
| "applyStackRequestAction creative OtherStackRequestAction st =
     (Some (itemStackRequestError ActionRequestNotAllowed), st)"

definition applyActions :: "bool \<Rightarrow> StackRequestAction list \<Rightarrow> request_state \<Rightarrow> action_result" where
  "applyActions creative = runSteps (applyStackRequestAction creative)"

definition stackRequestStatus :: "stack_error \<Rightarrow> stack_status" where
  "stackRequestStatus e = (case e of itemStackRequestError s \<Rightarrow> s | PlainError \<Rightarrow> StatusError)"

definition stackResponseSlotInfo :: "mcpeInventorySlot \<Rightarrow> ItemInstance \<Rightarrow> StackResponseSlotInfo" where
  "stackResponseSlotInfo ref it =
     \<lparr>respSlot = slot ref, respHotbarSlot = slot ref,
      respCount = (if itemIsEmpty it then 0 else ucast (Count (Stack it))),
      respStackNetworkID = itemStackNetworkID it\<rparr>"

text \<open>
  The changes grouped by container. \<^verbatim>\<open>sort.Ints\<close> orders the containers by number; two changes of
  one container differ in their slot, so \<^verbatim>\<open>sort.Slice\<close> has one possible result.
\<close>

definition groupChanges :: "changes \<Rightarrow> (container, StackResponseSlotInfo list) gomap" where
  "groupChanges changes =
     fold (\<lambda>(ref, it) containers.
       AList.update (container ref)
         ((case map_of containers (container ref) of Some xs \<Rightarrow> xs | None \<Rightarrow> []) @ [stackResponseSlotInfo ref it])
         containers) changes []"

definition stackResponseContainerInfo :: "(container \<Rightarrow> u8) \<Rightarrow> changes \<Rightarrow> StackResponseContainerInfo list" where
  "stackResponseContainerInfo cbyte changes =
     (let containers = groupChanges changes in
      map (\<lambda>c. \<lparr>respContainer = c, respSlotInfo = sort_key respSlot (the (map_of containers c))\<rparr>)
        (sort_key cbyte (map fst containers)))"

definition applyItemStackRequest ::
  "(container \<Rightarrow> u8) \<Rightarrow> bool \<Rightarrow> ItemStackRequest \<Rightarrow> mcpeInventory \<Rightarrow> (ItemStackResponse \<times> bool) \<times> mcpeInventory"
where
  "applyItemStackRequest cbyte creative request iv0 =
     (let snap = snapshot iv0 in
      case applyActions creative (Actions request) (iv0, []) of
        (Some e, (iv, changes)) \<Rightarrow>
          ((\<lparr>respStatus = stackRequestStatus e, respRequestID = RequestID request, respContainerInfo = []\<rparr>, False),
           restore snap iv)
      | (None, (iv, changes)) \<Rightarrow>
          ((\<lparr>respStatus = StatusOK, respRequestID = RequestID request,
             respContainerInfo = stackResponseContainerInfo cbyte changes\<rparr>, True),
           rememberResponseStackIDs (RequestID request) changes iv))"

fun applyRequests ::
  "(container \<Rightarrow> u8) \<Rightarrow> bool \<Rightarrow> ItemStackRequest list \<Rightarrow> mcpeInventory \<Rightarrow>
     (ItemStackResponse list \<times> bool) \<times> mcpeInventory"
where
  "applyRequests cbyte creative [] iv = (([], False), iv)"
| "applyRequests cbyte creative (r # rs) iv =
     (let ((response, ok), iv1) = applyItemStackRequest cbyte creative r iv;
          ((responses, rejected), iv2) = applyRequests cbyte creative rs iv1
      in ((response # responses, \<not> ok \<or> rejected), iv2))"

section \<open>Cells\<close>

text \<open>
  The inventory has 38 cells: the 36 main slots, the cursor and the off hand. A slot reference
  names a cell; the three main containers are aliases of the same slots.
\<close>

definition cells :: "mcpeInventory \<Rightarrow> ItemInstance list" where
  "cells iv = main iv @ [cursor iv, offhand iv]"

definition cellOf :: "mcpeInventorySlot \<Rightarrow> nat" where
  "cellOf ref = (if mainContainer (container ref) then unat (slot ref)
     else if container ref = ContainerCursor then 36 else 37)"

definition valid_ref :: "mcpeInventorySlot \<Rightarrow> bool" where
  "valid_ref ref \<longleftrightarrow> mainContainer (container ref) \<and> slot ref < 36 \<or>
     container ref = ContainerCursor \<or> container ref = ContainerOffhand"

definition setCell :: "mcpeInventorySlot \<Rightarrow> ItemInstance \<Rightarrow> mcpeInventory \<Rightarrow> mcpeInventory" where
  "setCell ref it iv =
     (if mainContainer (container ref) then iv\<lparr>main := (main iv)[unat (slot ref) := it]\<rparr>
      else if container ref = ContainerCursor then iv\<lparr>cursor := it\<rparr> else iv\<lparr>offhand := it\<rparr>)"

definition item_ok :: "int \<Rightarrow> ItemInstance \<Rightarrow> bool" where
  "item_ok n it \<longleftrightarrow> it = zeroItem \<or>
     \<not> itemIsEmpty it \<and> Count (Stack it) \<le> 64 \<and> cloneItemInstance it = it \<and>
     1 \<le> StackNetworkID it \<and> StackNetworkID it < n"

definition unique_ids :: "ItemInstance list \<Rightarrow> bool" where
  "unique_ids cs \<longleftrightarrow> (\<forall>i < length cs. \<forall>j < length cs. i \<noteq> j \<longrightarrow> cs ! i \<noteq> zeroItem \<longrightarrow> cs ! j \<noteq> zeroItem \<longrightarrow>
     StackNetworkID (cs ! i) \<noteq> StackNetworkID (cs ! j))"

text \<open>
  The invariant: 36 main slots, every cell empty or a stack of 1 to 64 items with an
  identifier that has been allocated, identifiers unique across the cells, a hotbar selection
  in range. \<open>k\<close> is the number of identifiers that can still be allocated before \<^verbatim>\<open>int32\<close> wraps.
\<close>

definition inv_ok :: "nat \<Rightarrow> mcpeInventory \<Rightarrow> bool" where
  "inv_ok k iv \<longleftrightarrow> length (main iv) = 36 \<and> (\<forall>it \<in> set (cells iv). item_ok (nextStackID iv) it) \<and>
     unique_ids (cells iv) \<and> selectedHotbar iv < 9 \<and> 1 \<le> nextStackID iv \<and> nextStackID iv + int k < 2 ^ 31"

lemma zeroItem_empty [simp]: "itemIsEmpty zeroItem"
  by (simp add: itemIsEmpty_def zeroItem_def zeroStack_def)

lemma id_nonzero: "1 \<le> StackNetworkID it \<Longrightarrow> it \<noteq> zeroItem"
  by (auto simp: zeroItem_def)

lemma item_ok_zero [simp]: "item_ok n zeroItem"
  by (simp add: item_ok_def)

lemma item_ok_empty: "item_ok n it \<Longrightarrow> itemIsEmpty it \<longleftrightarrow> it = zeroItem"
  by (auto simp: item_ok_def)

lemma clone_zero [simp]: "cloneItemInstance zeroItem = zeroItem"
  by (simp add: cloneItemInstance_def zeroItem_def zeroStack_def copySlice_def)

lemma clone_iff:
  "cloneItemInstance it = it \<longleftrightarrow> copySlice (CanBePlacedOn (Stack it)) = CanBePlacedOn (Stack it) \<and>
     copySlice (CanBreak (Stack it)) = CanBreak (Stack it)"
  by (cases it; cases "Stack it") (auto simp: cloneItemInstance_def)

lemma item_ok_clone: "item_ok n it \<Longrightarrow> cloneItemInstance it = it"
  by (auto simp: item_ok_def)

lemma item_ok_mono: "item_ok n it \<Longrightarrow> n \<le> m \<Longrightarrow> item_ok m it"
  by (auto simp: item_ok_def)

lemma cellOf_less: "valid_ref ref \<Longrightarrow> cellOf ref < 38"
  by (auto simp: valid_ref_def cellOf_def mainContainer_def word_less_nat_alt)

lemma length_cells: "length (main iv) = 36 \<Longrightarrow> length (cells iv) = 38"
  by (simp add: cells_def)

lemma item_cell:
  assumes "length (main iv) = 36" and "valid_ref ref"
  shows "item iv ref = Inr (cloneItemInstance (cells iv ! cellOf ref))"
  using assms
  by (auto simp: item_def valid_ref_def cells_def cellOf_def nth_append mainContainer_def word_less_nat_alt
      word_le_nat_alt)

lemma cells_setCell:
  assumes "length (main iv) = 36" and "valid_ref ref"
  shows "cells (setCell ref it iv) = (cells iv)[cellOf ref := it]"
  using assms
  by (auto simp: setCell_def valid_ref_def cells_def cellOf_def list_update_append mainContainer_def word_less_nat_alt)

lemma setCell_simps [simp]:
  "nextStackID (setCell ref it iv) = nextStackID iv" "selectedHotbar (setCell ref it iv) = selectedHotbar iv"
  "responseStackIDs (setCell ref it iv) = responseStackIDs iv" "length (main (setCell ref it iv)) = length (main iv)"
  by (simp_all add: setCell_def)

lemma setCell_idem: "setCell ref it (setCell ref it iv) = setCell ref it iv"
  by (simp add: setCell_def)

lemma normaliseItem_ok: "item_ok (nextStackID iv) it \<Longrightarrow> normaliseItem it iv = (it, iv)"
  by (auto simp: item_ok_def normaliseItem_def Let_def)

lemma setItem_ok: "item_ok (nextStackID iv) it \<Longrightarrow> valid_ref ref \<Longrightarrow> setItem ref it iv = (None, setCell ref it iv)"
  by (auto simp: setItem_def normaliseItem_ok valid_ref_def setCell_def mainContainer_def not_le)

lemma setRequestSlot_ok:
  assumes "length (main iv) = 36" and "item_ok (nextStackID iv) it" and "valid_ref ref"
  shows "setRequestSlot ref it (iv, ch) = (setCell ref it iv, AList.update ref it ch)"
proof -
  have "item (setCell ref it iv) ref = Inr it"
    using assms cellOf_less [of ref] length_cells [of iv]
    by (simp add: item_cell cells_setCell item_ok_clone)
  then show ?thesis using assms by (simp add: setRequestSlot_def setItem_ok)
qed

lemma resolveSlot_valid: "resolveSlot c s = Inr ref \<Longrightarrow> valid_ref ref \<and> ref = \<lparr>container = c, slot = s\<rparr>"
  by (auto simp: resolveSlot_def Let_def valid_ref_def mainContainer_def not_le word_less_nat_alt
      split: container.splits if_splits)

lemma verify_ok:
  assumes "inv_ok k iv" and "verifyStackRequestSlot iv info = Inr (ref, it)"
  shows "valid_ref ref" and "ref = \<lparr>container = infoContainer info, slot = infoSlot info\<rparr>"
    and "it = cells iv ! cellOf ref" and "item_ok (nextStackID iv) it" and "it \<in> set (cells iv)"
proof -
  show v: "valid_ref ref" "ref = \<lparr>container = infoContainer info, slot = infoSlot info\<rparr>"
    using assms(2) resolveSlot_valid by (fastforce simp: verifyStackRequestSlot_def split: sum.splits if_splits)+
  have len: "length (main iv) = 36" using assms(1) by (simp add: inv_ok_def)
  have c: "cells iv ! cellOf ref \<in> set (cells iv)"
    using cellOf_less [OF v(1)] by (simp add: length_cells [OF len])
  then have ok: "item_ok (nextStackID iv) (cells iv ! cellOf ref)" using assms(1) by (simp add: inv_ok_def)
  show "it = cells iv ! cellOf ref"
    using assms(2) item_cell [OF len v(1)] item_ok_clone [OF ok]
    by (auto simp: verifyStackRequestSlot_def split: sum.splits if_splits)
  then show "item_ok (nextStackID iv) it" "it \<in> set (cells iv)" using ok c by simp_all
qed

section \<open>What an action does to the cells\<close>

lemma takeFrom_simps:
  assumes "item_ok n it" and "it \<noteq> zeroItem" and "ucast c \<le> Count (Stack it)"
  shows "item_ok n (takeFrom it c)"
    and "takeFrom it c \<noteq> zeroItem \<Longrightarrow> StackNetworkID (takeFrom it c) = StackNetworkID it"
    and "takeFrom it c = zeroItem \<longleftrightarrow> Count (Stack it) = ucast c"
proof -
  have le: "Count (Stack it) - ucast c \<le> Count (Stack it)"
    using assms(3) by (simp add: word_sub_le)
  have e: "Count (Stack it) - ucast c = 0 \<longleftrightarrow> Count (Stack it) = ucast c" by simp
  show "item_ok n (takeFrom it c)"
    using assms(1,2) order.trans [OF le]
    by (auto simp: item_ok_def takeFrom_def Let_def itemIsEmpty_def clone_iff)
  show "takeFrom it c \<noteq> zeroItem \<Longrightarrow> StackNetworkID (takeFrom it c) = StackNetworkID it"
    by (auto simp: takeFrom_def Let_def)
  show "takeFrom it c = zeroItem \<longleftrightarrow> Count (Stack it) = ucast c"
    using e assms(1,2) id_nonzero [of "it\<lparr>Stack := (Stack it)\<lparr>Count := Count (Stack it) - ucast c\<rparr>\<rparr>"]
    by (auto simp: takeFrom_def Let_def item_ok_def)
qed

definition withCount :: "ItemInstance \<Rightarrow> u16 \<Rightarrow> ItemInstance" where
  "withCount it c = it\<lparr>Stack := (Stack it)\<lparr>Count := c\<rparr>\<rparr>"

lemma item_ok_withCount:
  assumes "item_ok n it" and "it \<noteq> zeroItem" and "c \<noteq> 0" and "c \<le> 64"
  shows "item_ok n (withCount it c)" and "withCount it c \<noteq> zeroItem"
    and "StackNetworkID (withCount it c) = StackNetworkID it"
  using assms id_nonzero [of "withCount it c"]
  by (auto simp: item_ok_def withCount_def itemIsEmpty_def clone_iff)

lemma nextNetworkStackID_ok:
  assumes "inv_ok (Suc k) iv"
  shows "nextNetworkStackID iv = (nextStackID iv, iv\<lparr>nextStackID := nextStackID iv + 1\<rparr>)"
  using assms by (simp add: nextNetworkStackID_def inv_ok_def Let_def)

text \<open>The two ways a transfer succeeds: into an empty cell, or onto a stack of the same kind.\<close>

definition moves :: "mcpeInventory \<Rightarrow> ItemInstance \<Rightarrow> ItemInstance \<Rightarrow> u8 \<Rightarrow> ItemInstance \<Rightarrow> mcpeInventory \<Rightarrow> bool" where
  "moves iv a b c m iv1 \<longleftrightarrow> b = zeroItem \<and>
     (Count (Stack a) = ucast c \<and> m = withCount a (ucast c) \<and> iv1 = iv \<or>
      Count (Stack a) \<noteq> ucast c \<and> m = (withCount a (ucast c))\<lparr>StackNetworkID := nextStackID iv\<rparr> \<and>
        iv1 = iv\<lparr>nextStackID := nextStackID iv + 1\<rparr>)"

definition merges :: "mcpeInventory \<Rightarrow> ItemInstance \<Rightarrow> ItemInstance \<Rightarrow> u8 \<Rightarrow> ItemInstance \<Rightarrow> mcpeInventory \<Rightarrow> bool" where
  "merges iv a b c m iv1 \<longleftrightarrow> b \<noteq> zeroItem \<and> (Stack a)\<lparr>Count := 0\<rparr> = (Stack b)\<lparr>Count := 0\<rparr> \<and>
     Count (Stack b) + ucast c \<le> 64 \<and> m = withCount b (Count (Stack b) + ucast c) \<and> iv1 = iv"

lemma transferStack_success:
  assumes ok: "inv_ok (Suc k) iv" and t: "transferStack s d c (iv, ch) = (None, st')"
  obtains sref dref a b m iv1 where
    "valid_ref sref" "valid_ref dref" "sref \<noteq> dref" "c \<noteq> 0"
    "sref = \<lparr>container = infoContainer s, slot = infoSlot s\<rparr>"
    "dref = \<lparr>container = infoContainer d, slot = infoSlot d\<rparr>"
    "a = cells iv ! cellOf sref" "b = cells iv ! cellOf dref"
    "a \<noteq> zeroItem" "item_ok (nextStackID iv) a" "item_ok (nextStackID iv) b" "ucast c \<le> Count (Stack a)"
    "moves iv a b c m iv1 \<or> merges iv a b c m iv1"
    "st' = setRequestSlot dref m (setRequestSlot sref (takeFrom a c) (iv1, ch))"
proof -
  have c: "c \<noteq> 0" using t by (auto simp: transferStack_def Let_def split: if_splits)
  obtain sref a dref b where v: "verifyStackRequestSlot iv s = Inr (sref, a)"
    "verifyStackRequestSlot iv d = Inr (dref, b)" "sref \<noteq> dref"
    using t c by (auto simp: transferStack_def Let_def split: sum.splits prod.splits if_splits)
  note va = verify_ok [OF ok v(1)] and vb = verify_ok [OF ok v(2)]
  have e: "itemIsEmpty a \<longleftrightarrow> a = zeroItem" "itemIsEmpty b \<longleftrightarrow> b = zeroItem"
    using item_ok_empty va(4) vb(4) by blast+
  have a: "a \<noteq> zeroItem" "ucast c \<le> Count (Stack a)"
    using t c v e by (auto simp: transferStack_def Let_def not_less split: if_splits)
  show ?thesis
  proof (cases "b = zeroItem")
    case True
    then show ?thesis
      using that [OF va(1) vb(1) v(3) c va(2) vb(2) va(3) vb(3) a(1) va(4) vb(4) a(2)] t c v e a
        nextNetworkStackID_ok [OF ok]
      by (auto simp: transferStack_def Let_def moves_def withCount_def not_less [symmetric] split: if_splits)
  next
    case False
    then have "sameStackType a b" "Count (Stack b) + ucast c \<le> 64"
      using t c v e a by (auto simp: transferStack_def Let_def not_less [symmetric] split: if_splits)
    then show ?thesis
      using False that [OF va(1) vb(1) v(3) c va(2) vb(2) va(3) vb(3) a(1) va(4) vb(4) a(2)] t c v e a
      by (auto simp: transferStack_def Let_def merges_def withCount_def sameStackType_def not_less [symmetric])
  qed
qed

section \<open>The invariant is kept\<close>

lemma unat_add_16: "unat x + unat y < 65536 \<Longrightarrow> unat (x + y :: u16) = unat x + unat y"
  by (simp add: unat_word_ariths)

lemma unique_ids_map:
  assumes "unique_ids cs" and "length cs' = length cs" and "inj_on p {..<length cs}"
    and "\<And>l. l < length cs \<Longrightarrow> p l < length cs"
    and "\<And>l. l < length cs \<Longrightarrow> cs' ! l \<noteq> zeroItem \<Longrightarrow>
      cs ! p l \<noteq> zeroItem \<and> StackNetworkID (cs' ! l) = StackNetworkID (cs ! p l)"
  shows "unique_ids cs'"
  unfolding unique_ids_def
proof (intro allI impI)
  fix i j assume ij: "i < length cs'" "j < length cs'" "i \<noteq> j" "cs' ! i \<noteq> zeroItem" "cs' ! j \<noteq> zeroItem"
  then have "p i \<noteq> p j" using assms(2,3) by (auto simp: inj_on_def)
  with ij assms(1,2,4,5) show "StackNetworkID (cs' ! i) \<noteq> StackNetworkID (cs' ! j)"
    by (simp add: unique_ids_def)
qed

lemma unique_ids_fresh:
  assumes "unique_ids cs" and "\<forall>it \<in> set cs. it \<noteq> zeroItem \<longrightarrow> StackNetworkID it \<noteq> StackNetworkID x"
  shows "unique_ids (cs[i := x])"
proof (cases "i < length cs")
  case True
  with assms show ?thesis by (auto simp: unique_ids_def nth_list_update)
qed (use assms in \<open>simp add: list_update_beyond\<close>)

lemma inv_ok_parts:
  assumes "inv_ok k iv"
  shows "length (main iv) = 36" "length (cells iv) = 38" "unique_ids (cells iv)" "1 \<le> nextStackID iv"
    "it \<in> set (cells iv) \<Longrightarrow> item_ok (nextStackID iv) it"
  using assms by (auto simp: inv_ok_def length_cells)

lemma setCell2_inv:
  assumes ok: "inv_ok k iv" and r: "valid_ref ref1" "valid_ref ref2"
    and x: "item_ok (nextStackID iv) x1" "item_ok (nextStackID iv) x2"
    and u: "unique_ids ((cells iv)[cellOf ref1 := x1, cellOf ref2 := x2])"
  shows "inv_ok k (setCell ref2 x2 (setCell ref1 x1 iv))"
proof -
  note p = inv_ok_parts [OF ok]
  have c: "cells (setCell ref2 x2 (setCell ref1 x1 iv)) = (cells iv)[cellOf ref1 := x1, cellOf ref2 := x2]"
    using p(1) r by (simp add: cells_setCell)
  have "set ((cells iv)[cellOf ref1 := x1, cellOf ref2 := x2]) \<subseteq> insert x2 (insert x1 (set (cells iv)))"
    by (meson set_update_subset_insert insert_mono order.trans)
  with p(5) x have "\<forall>it \<in> set ((cells iv)[cellOf ref1 := x1, cellOf ref2 := x2]). item_ok (nextStackID iv) it"
    by blast
  with ok u show ?thesis by (simp add: inv_ok_def c)
qed

lemma inv_ok_weaken: "inv_ok (Suc k) iv \<Longrightarrow> inv_ok k iv"
  by (simp add: inv_ok_def)

lemma inv_ok_alloc:
  assumes "inv_ok (Suc k) iv"
  shows "inv_ok k (iv\<lparr>nextStackID := nextStackID iv + 1\<rparr>)" and "cells (iv\<lparr>nextStackID := n\<rparr>) = cells iv"
  using assms by (auto simp: inv_ok_def cells_def intro: item_ok_mono)

lemma moved_item:
  assumes ok: "inv_ok (Suc k) iv" and a: "a \<noteq> zeroItem" "item_ok (nextStackID iv) a" "ucast c \<le> Count (Stack a)" "c \<noteq> 0"
    and b: "b \<noteq> zeroItem \<Longrightarrow> item_ok (nextStackID iv) b"
    and m: "moves iv a b c m iv1 \<or> merges iv a b c m iv1"
  shows "item_ok (nextStackID iv1) m" and "inv_ok k iv1" and "cells iv1 = cells iv"
    and "nextStackID iv \<le> nextStackID iv1"
proof -
  have "Count (Stack a) \<le> 64" using a by (simp add: item_ok_def)
  then have c: "(ucast c :: u16) \<le> 64" "(ucast c :: u16) \<noteq> 0"
    using a(3,4) order.trans by (blast, simp add: ucast_8_16_zero)
  note w = item_ok_withCount [OF a(2,1) c(2) c(1)]
  have nz: "Count (Stack b) + ucast c \<noteq> 0" if "merges iv a b c m iv1"
  proof -
    have "Count (Stack b) \<le> 64" "Count (Stack b) \<noteq> 0"
      using b that by (auto simp: item_ok_def merges_def itemIsEmpty_def)
    then have "unat (Count (Stack b) + ucast c) = unat (Count (Stack b)) + unat (ucast c :: u16)"
      using c(1) by (intro unat_add_16) (simp add: word_le_nat_alt)
    with \<open>Count (Stack b) \<noteq> 0\<close> show ?thesis by (metis add_is_0 unat_eq_zero)
  qed
  have fresh: "item_ok (nextStackID iv + 1) (x\<lparr>StackNetworkID := nextStackID iv\<rparr>)"
    if "item_ok (nextStackID iv) x" "x \<noteq> zeroItem" for x
    using that inv_ok_parts(4) [OF ok] by (auto simp: item_ok_def itemIsEmpty_def clone_iff)
  from m show "item_ok (nextStackID iv1) m"
  proof
    assume "moves iv a b c m iv1"
    then show ?thesis using w(1) fresh [OF w(1,2)] by (auto simp: moves_def)
  next
    assume g: "merges iv a b c m iv1"
    then have "b \<noteq> zeroItem" "Count (Stack b) + ucast c \<le> 64" by (simp_all add: merges_def)
    then show ?thesis
      using item_ok_withCount(1) [OF b _ nz [OF g]] g by (simp add: merges_def)
  qed
  show "inv_ok k iv1" "cells iv1 = cells iv" "nextStackID iv \<le> nextStackID iv1"
    using m inv_ok_alloc [OF ok] inv_ok_weaken [OF ok] by (auto simp: moves_def merges_def)
qed

lemma transfer_unique:
  assumes ok: "inv_ok (Suc k) iv" and i: "i < 38" "j < 38" and a: "a = cells iv ! i" "b = cells iv ! j"
    and z: "a \<noteq> zeroItem" "item_ok (nextStackID iv) a" "ucast c \<le> Count (Stack a)"
    and m: "moves iv a b c m iv1 \<or> merges iv a b c m iv1"
  shows "unique_ids ((cells iv)[i := takeFrom a c, j := m])"
proof -
  note p = inv_ok_parts [OF ok]
  note t = takeFrom_simps [OF z(2,1,3)]
  have u1: "unique_ids ((cells iv)[i := takeFrom a c])"
    by (rule unique_ids_map [OF p(3), where p = id]) (use i a z t(2) p(2) in \<open>auto simp: nth_list_update\<close>)
  consider (full) "b = zeroItem" "Count (Stack a) = ucast c" "m = withCount a (ucast c)"
    | (part) "m = (withCount a (ucast c))\<lparr>StackNetworkID := nextStackID iv\<rparr>"
    | (merge) "b \<noteq> zeroItem" "m = withCount b (Count (Stack b) + ucast c)"
    using m by (auto simp: moves_def merges_def)
  then show ?thesis
  proof cases
    case full
    let ?p = "id(i := j, j := i)"
    have "i \<noteq> j" using full a z by auto
    show ?thesis
    proof (rule unique_ids_map [OF p(3), where p = ?p])
      show "inj_on ?p {..<length (cells iv)}" by (auto simp: inj_on_def split: if_splits)
    qed (use full i a z t(3) p(2) \<open>i \<noteq> j\<close> in \<open>auto simp: nth_list_update withCount_def\<close>)
  next
    case part
    have "StackNetworkID it < nextStackID iv" if "it \<in> set ((cells iv)[i := takeFrom a c])" "it \<noteq> zeroItem" for it
    proof -
      have "it = takeFrom a c \<or> it \<in> set (cells iv)" using that set_update_subset_insert by fastforce
      then have "item_ok (nextStackID iv) it" using p(5) t(1) by blast
      then show ?thesis using that(2) by (simp add: item_ok_def)
    qed
    then show ?thesis using part by (intro unique_ids_fresh [OF u1]) force
  next
    case merge
    show ?thesis
      by (rule unique_ids_map [OF p(3), where p = id])
        (use merge i a z t(2) p(2) in \<open>auto simp: nth_list_update withCount_def split: if_splits\<close>)
  qed
qed

text \<open>Every action keeps the invariant, uses at most one identifier, and does not touch what was remembered.\<close>

definition state_ok :: "nat \<Rightarrow> request_state \<Rightarrow> bool" where
  "state_ok k st \<longleftrightarrow> inv_ok k (fst st)"

lemma transferStack_inv:
  assumes "inv_ok (Suc k) iv" and "transferStack s d c (iv, ch) = (r, st')"
  shows "inv_ok k (fst st')"
proof (cases r)
  case (Some e)
  then have "st' = (iv, ch)"
    using assms(2) by (auto simp: transferStack_def Let_def split: sum.splits prod.splits if_splits)
  then show ?thesis using inv_ok_weaken [OF assms(1)] by simp
next
  case None
  with assms(2) have "transferStack s d c (iv, ch) = (None, st')" by simp
  from transferStack_success [OF assms(1) this] obtain sref dref a b m iv1 where t:
    "valid_ref sref" "valid_ref dref" "c \<noteq> 0" "a = cells iv ! cellOf sref" "b = cells iv ! cellOf dref"
    "a \<noteq> zeroItem" "item_ok (nextStackID iv) a" "item_ok (nextStackID iv) b" "ucast c \<le> Count (Stack a)"
    "moves iv a b c m iv1 \<or> merges iv a b c m iv1"
    "st' = setRequestSlot dref m (setRequestSlot sref (takeFrom a c) (iv1, ch))" by metis
  note mi = moved_item [OF assms(1) t(6,7,9,3) t(8) t(10)]
  have ta: "item_ok (nextStackID iv1) (takeFrom a c)"
    using takeFrom_simps(1) [OF t(7,6,9)] item_ok_mono mi(4) by blast
  have "fst st' = setCell dref m (setCell sref (takeFrom a c) iv1)"
    using inv_ok_parts(1) [OF mi(2)] t(1,2) ta mi(1) by (simp add: t(11) setRequestSlot_ok)
  moreover have "unique_ids ((cells iv1)[cellOf sref := takeFrom a c, cellOf dref := m])"
    using transfer_unique [OF assms(1) cellOf_less [OF t(1)] cellOf_less [OF t(2)] t(4,5,6,7,9,10)] mi(3) by simp
  ultimately show ?thesis using setCell2_inv [OF mi(2) t(1,2) ta mi(1)] by simp
qed

lemma swapStacks_inv:
  assumes "inv_ok k iv" and "swapStacks s d (iv, ch) = (r, st')"
  shows "inv_ok k (fst st')"
proof (cases r)
  case (Some e)
  then show ?thesis
    using assms by (auto simp: swapStacks_def split: sum.splits prod.splits if_splits)
next
  case None
  with assms(2) obtain sref a dref b where v: "verifyStackRequestSlot iv s = Inr (sref, a)"
    "verifyStackRequestSlot iv d = Inr (dref, b)"
    "st' = setRequestSlot dref a (setRequestSlot sref b (iv, ch))"
    by (auto simp: swapStacks_def split: sum.splits prod.splits if_splits)
  note va = verify_ok [OF assms(1) v(1)] and vb = verify_ok [OF assms(1) v(2)] and p = inv_ok_parts [OF assms(1)]
  have f: "fst st' = setCell dref a (setCell sref b iv)"
    using p(1) va vb by (simp add: v(3) setRequestSlot_ok)
  let ?p = "id(cellOf sref := cellOf dref, cellOf dref := cellOf sref)"
  have "unique_ids ((cells iv)[cellOf sref := b, cellOf dref := a])"
  proof (rule unique_ids_map [OF p(3), where p = ?p])
    show "inj_on ?p {..<length (cells iv)}" by (auto simp: inj_on_def split: if_splits)
  qed (use va(3) vb(3) p(2) cellOf_less [OF va(1)] cellOf_less [OF vb(1)]
       in \<open>auto simp: nth_list_update split: if_splits\<close>)
  then show ?thesis using setCell2_inv [OF assms(1) va(1) vb(1) vb(4) va(4)] f by simp
qed

lemma take_inv:
  assumes ok: "inv_ok k iv" and v: "verifyStackRequestSlot iv s = Inr (ref, it)"
    and it: "\<not> itemIsEmpty it" "ucast c \<le> Count (Stack it)"
  shows "setRequestSlot ref (takeFrom it c) (iv, ch) = (setCell ref (takeFrom it c) iv, AList.update ref (takeFrom it c) ch)"
    and "inv_ok k (setCell ref (takeFrom it c) iv)"
proof -
  note w = verify_ok [OF ok v] and p = inv_ok_parts [OF ok]
  have nz: "it \<noteq> zeroItem" using it by auto
  note t = takeFrom_simps [OF w(4) nz it(2)]
  show "setRequestSlot ref (takeFrom it c) (iv, ch) = (setCell ref (takeFrom it c) iv, AList.update ref (takeFrom it c) ch)"
    by (rule setRequestSlot_ok [OF p(1) t(1) w(1)])
  have "unique_ids ((cells iv)[cellOf ref := takeFrom it c, cellOf ref := takeFrom it c])"
    by (rule unique_ids_map [OF p(3), where p = id])
      (use w(3) nz t(2) p(2) cellOf_less [OF w(1)] in \<open>auto simp: nth_list_update split: if_splits\<close>)
  from setCell2_inv [OF ok w(1) w(1) t(1) t(1) this]
  show "inv_ok k (setCell ref (takeFrom it c) iv)"
    by (simp add: setCell_idem)
qed

lemma dropStack_inv:
  assumes "inv_ok k iv" and "dropStack s c (iv, ch) = (r, st')"
  shows "inv_ok k (fst st')"
  using assms take_inv [OF assms(1)]
  by (auto simp: dropStack_def not_less split: sum.splits prod.splits if_splits)

lemma destroyStack_inv:
  assumes "inv_ok k iv" and "destroyStack s c (iv, ch) = (r, st')"
  shows "inv_ok k (fst st')"
  using assms take_inv [OF assms(1)]
  by (auto simp: destroyStack_def not_less split: sum.splits prod.splits if_splits)

lemma ackMineBlockStack_inv: "ackMineBlockStack h n (iv, ch) = (r, st') \<Longrightarrow> fst st' = iv"
  by (auto simp: ackMineBlockStack_def split: sum.splits prod.splits if_splits)

lemma action_inv:
  assumes ok: "inv_ok (Suc k) iv" and a: "applyStackRequestAction creative a (iv, ch) = (r, st')"
  shows "inv_ok k (fst st')"
proof -
  have w: "inv_ok k iv" using ok by (rule inv_ok_weaken)
  show ?thesis
  proof (cases a)
    case (MineBlockStackRequestAction h n)
    then show ?thesis using a ackMineBlockStack_inv [of h n iv ch r st'] w by simp
  qed (use a w transferStack_inv [OF ok] swapStacks_inv [OF w] dropStack_inv [OF w] destroyStack_inv [OF w]
       in \<open>auto split: if_splits\<close>)
qed

lemma setRequestSlot_frame:
  "responseStackIDs (fst (setRequestSlot ref it st)) = responseStackIDs (fst st)"
  by (cases st)
    (auto simp: setRequestSlot_def setItem_def normaliseItem_def nextNetworkStackID_def Let_def split: prod.splits)

lemma nextNetworkStackID_frame: "nextNetworkStackID iv = (n, iv') \<Longrightarrow> responseStackIDs iv' = responseStackIDs iv"
  by (auto simp: nextNetworkStackID_def Let_def)

lemma action_frame:
  assumes "applyStackRequestAction creative a st = (r, st')"
  shows "responseStackIDs (fst st') = responseStackIDs (fst st)"
proof -
  have t: "responseStackIDs (fst st') = responseStackIDs (fst st)" if "transferStack s d c st = (r, st')" for s d c
    using that
    by (auto simp: transferStack_def Let_def setRequestSlot_frame split: sum.splits prod.splits if_splits
        dest: nextNetworkStackID_frame)
  show ?thesis
    using assms
    by (cases a) (auto simp: t swapStacks_def dropStack_def destroyStack_def ackMineBlockStack_def
        setRequestSlot_frame split: sum.splits prod.splits if_splits)
qed

interpretation kept: invariant_steps "applyStackRequestAction creative" "\<lambda>a. True" state_ok
  for creative
  by unfold_locales (auto simp: state_ok_def intro: inv_ok_weaken action_inv)

interpretation remembered: invariant_steps "applyStackRequestAction creative" "\<lambda>a. True"
    "\<lambda>k st. responseStackIDs (fst st) = ids"
  for creative ids
  by unfold_locales (auto simp: action_frame)

lemma restore_snapshot: "responseStackIDs iv' = responseStackIDs iv \<Longrightarrow> restore (snapshot iv) iv' = iv"
  by (simp add: restore_def snapshot_def)

lemma list_all_True: "list_all (\<lambda>a. True) xs"
  by (simp add: list_all_iff)

lemma rejected_restores:
  assumes "applyActions creative as (iv, []) = (Some e, iv', ch)"
  shows "restore (snapshot iv) iv' = iv"
  using remembered.run_invar [where ids = "responseStackIDs iv" and as = as and s = "(iv, [])" and
      creative = creative and r = "Some e" and s' = "(iv', ch)"] assms
  by (auto simp: applyActions_def list_all_True intro: restore_snapshot)

text \<open>
  C24. A rejected item stack request has no effect: if any action of the request fails, the
  whole inventory, remembered stack identifiers included, is what it was before the request,
  and the response carries the request's ID, the status of the failing action and no container
  changes. Earlier actions of the same request are undone.
\<close>

theorem rejected_request_no_effect:
  assumes "applyItemStackRequest cbyte creative request iv = ((response, ok), iv')" and "\<not> ok"
  shows "iv' = iv \<and> respRequestID response = RequestID request \<and> respContainerInfo response = [] \<and>
    (\<exists>e st. applyActions creative (Actions request) (iv, []) = (Some e, st) \<and> respStatus response = stackRequestStatus e)"
proof -
  obtain r iv1 ch where r: "applyActions creative (Actions request) (iv, []) = (r, iv1, ch)"
    by (metis prod_cases3)
  with assms obtain e where e: "r = Some e"
    by (cases r) (auto simp: applyItemStackRequest_def Let_def)
  with r rejected_restores [of creative "Actions request" iv e iv1 ch] assms show ?thesis
    by (auto simp: applyItemStackRequest_def Let_def)
qed

definition sampleItem :: "u16 \<Rightarrow> int \<Rightarrow> ItemInstance" where
  "sampleItem c n = \<lparr>StackNetworkID = n, Stack = zeroStack\<lparr>NetworkID := 7, Count := c\<rparr>\<rparr>"

definition sampleInventory :: mcpeInventory where
  "sampleInventory = newMCPEInventory\<lparr>main := (replicate 36 zeroItem)[0 := sampleItem 10 1, 5 := sampleItem 60 2],
     nextStackID := 3\<rparr>"

definition at :: "container \<Rightarrow> u8 \<Rightarrow> int \<Rightarrow> StackRequestSlotInfo" where
  "at c s n = \<lparr>infoContainer = c, infoSlot = s, infoStackNetworkID = n\<rparr>"

definition sampleBytes :: "container \<Rightarrow> u8" where
  "sampleBytes c = (case c of ContainerCombinedHotBarAndInventory \<Rightarrow> 12 | ContainerHotBar \<Rightarrow> 28
     | ContainerInventory \<Rightarrow> 29 | ContainerOffhand \<Rightarrow> 34 | ContainerCursor \<Rightarrow> 59 | OtherContainer n \<Rightarrow> n)"

text \<open>Witness of \<open>rejected_request_no_effect\<close>: a valid first action is undone with the failing second one.\<close>

definition rejectedRequest :: ItemStackRequest where
  "rejectedRequest = \<lparr>RequestID = -3, Actions =
     [TakeStackRequestAction (at ContainerInventory 0 1) (at ContainerCursor 0 0) 4,
      PlaceStackRequestAction (at ContainerInventory 5 2) (at ContainerInventory 0 1) 60]\<rparr>"

theorem rejected_request_no_effect_witness:
  "snd (applyItemStackRequest sampleBytes False rejectedRequest sampleInventory) = sampleInventory"
proof -
  have "\<not> snd (fst (applyItemStackRequest sampleBytes False rejectedRequest sampleInventory))"
    by code_simp
  then show ?thesis
    using rejected_request_no_effect [of sampleBytes False rejectedRequest sampleInventory]
    by (metis prod.collapse)
qed

section \<open>The invariant across requests\<close>

definition actionCount :: "ItemStackRequest list \<Rightarrow> nat" where
  "actionCount rs = sum_list (map (\<lambda>r. length (Actions r)) rs)"

lemma remember_inv: "inv_ok k (rememberResponseStackIDs n ch iv) \<longleftrightarrow> inv_ok k iv"
  by (simp add: rememberResponseStackIDs_def Let_def inv_ok_def cells_def)

lemma inv_ok_add: "inv_ok (n + k) iv \<Longrightarrow> inv_ok k iv"
  by (simp add: inv_ok_def)

lemma request_inv:
  assumes "inv_ok (length (Actions r) + k) iv"
  shows "inv_ok k (snd (applyItemStackRequest cbyte creative r iv))"
proof -
  obtain e iv1 ch where run: "applyActions creative (Actions r) (iv, []) = (e, iv1, ch)" by (metis prod_cases3)
  have "state_ok k (iv1, ch)"
    using kept.run_invar [where as = "Actions r" and k = k and s = "(iv, [])" and creative = creative
        and r = e and s' = "(iv1, ch)"] run assms
    by (simp add: applyActions_def state_ok_def list_all_True)
  then show ?thesis
    using run rejected_restores [of creative "Actions r" iv _ iv1 ch] inv_ok_add [OF assms]
    by (cases e) (auto simp: applyItemStackRequest_def Let_def remember_inv state_ok_def)
qed

text \<open>
  C2. The inventory invariant survives every batch of item stack requests, accepted or
  rejected, whatever the client sends: there are 36 main slots, each of the 38 cells is empty or
  a stack of 1 to 64 items carrying a stack network ID that was handed out before, no two
  cells carry the same ID, and the selected hotbar slot is one of the nine. The
  hypothesis asks that one \<^verbatim>\<open>int32\<close> ID per action is still left before the counter wraps.
\<close>

theorem inventory_invariant:
  assumes "inv_ok (actionCount rs + k) iv"
  shows "inv_ok k (snd (applyRequests cbyte creative rs iv))"
  using assms
proof (induction rs arbitrary: iv)
  case Nil
  then show ?case by (simp add: actionCount_def)
next
  case (Cons r rs)
  from Cons.prems have "inv_ok (length (Actions r) + (actionCount rs + k)) iv"
    by (simp add: actionCount_def add.assoc)
  from Cons.IH [OF request_inv [OF this]] show ?case
    by (simp add: case_prod_unfold Let_def)
qed

lemma newMCPEInventory_ok: "int k + 1 < 2 ^ 31 \<Longrightarrow> inv_ok k newMCPEInventory"
proof -
  assume "int k + 1 < 2 ^ 31"
  moreover have "cells newMCPEInventory = replicate 38 zeroItem" by code_simp
  ultimately show ?thesis by (simp add: inv_ok_def unique_ids_def) (simp add: newMCPEInventory_def)
qed

lemma sampleInventory_ok: "inv_ok 1000 sampleInventory"
proof -
  have "sampleItem c n \<noteq> zeroItem" if "1 \<le> n" for c n using that by (simp add: sampleItem_def zeroItem_def)
  moreover have "item_ok 3 (sampleItem c n)" if "c \<noteq> 0" "c \<le> 64" "n = 1 \<or> n = 2" for c n
    using that by (auto simp: item_ok_def sampleItem_def itemIsEmpty_def clone_iff zeroStack_def copySlice_def)
  moreover have "unique_ids (cells sampleInventory)"
  proof -
    have "cells sampleInventory = (replicate 38 zeroItem)[0 := sampleItem 10 1, 5 := sampleItem 60 2]"
      by code_simp
    moreover have "unique_ids (replicate 38 zeroItem)" by (simp add: unique_ids_def)
    moreover have "StackNetworkID (sampleItem 10 1) = 1" "StackNetworkID (sampleItem 60 2) = 2"
      by (simp_all add: sampleItem_def)
    ultimately show ?thesis
      by (auto intro!: unique_ids_fresh dest!: set_update_subset_insert [THEN subsetD])
  qed
  moreover have "set (cells sampleInventory) \<subseteq> {zeroItem, sampleItem 10 1, sampleItem 60 2}"
    by (auto simp: cells_def sampleInventory_def newMCPEInventory_def dest!: set_update_subset_insert [THEN subsetD])
  ultimately show ?thesis
    by (auto simp: inv_ok_def sampleInventory_def newMCPEInventory_def)
qed

text \<open>Witness of \<open>inventory_invariant\<close>: a new inventory and the two requests below.\<close>

theorem inventory_invariant_witness:
  "inv_ok 5 (snd (applyRequests sampleBytes False [rejectedRequest, rejectedRequest] sampleInventory))"
proof -
  have "inv_ok (actionCount [rejectedRequest, rejectedRequest] + 5) sampleInventory"
    using sampleInventory_ok by (simp add: actionCount_def rejectedRequest_def inv_ok_def)
  then show ?thesis by (rule inventory_invariant)
qed

section \<open>Conservation of items\<close>

text \<open>How many items of one kind (an item stack up to its count) the inventory holds.\<close>

definition weight :: "ItemStack \<Rightarrow> ItemInstance \<Rightarrow> nat" where
  "weight kind it = (if \<not> itemIsEmpty it \<and> (Stack it)\<lparr>Count := 0\<rparr> = kind then unat (Count (Stack it)) else 0)"

definition totalItems :: "ItemStack \<Rightarrow> mcpeInventory \<Rightarrow> nat" where
  "totalItems kind iv = sum_list (map (weight kind) (cells iv))"

definition infoRef :: "StackRequestSlotInfo \<Rightarrow> mcpeInventorySlot" where
  "infoRef info = \<lparr>container = infoContainer info, slot = infoSlot info\<rparr>"

text \<open>A transfer between two names of one cell.\<close>

fun aliased :: "StackRequestAction \<Rightarrow> bool" where
  "aliased (TakeStackRequestAction s d n) \<longleftrightarrow> cellOf (infoRef s) = cellOf (infoRef d)"
| "aliased (PlaceStackRequestAction s d n) \<longleftrightarrow> cellOf (infoRef s) = cellOf (infoRef d)"
| "aliased (PlaceInContainerStackRequestAction s d n) \<longleftrightarrow> cellOf (infoRef s) = cellOf (infoRef d)"
| "aliased (TakeOutContainerStackRequestAction s d n) \<longleftrightarrow> cellOf (infoRef s) = cellOf (infoRef d)"
| "aliased _ \<longleftrightarrow> False"

fun removes :: "StackRequestAction \<Rightarrow> bool" where
  "removes (DropStackRequestAction s n) \<longleftrightarrow> True"
| "removes (DestroyStackRequestAction s n) \<longleftrightarrow> True"
| "removes _ \<longleftrightarrow> False"

lemma sum_list_update_add:
  fixes f :: "'a \<Rightarrow> nat"
  assumes "l < length zs"
  shows "sum_list (map f (zs[l := z])) + f (zs ! l) = sum_list (map f zs) + f z"
  using assms
proof (induction zs arbitrary: l)
  case (Cons w zs)
  then show ?case by (cases l) auto
qed simp

lemma sum_list_update2:
  fixes f :: "'a \<Rightarrow> nat"
  assumes "i < length xs" "j < length xs" "i \<noteq> j" and "f x + f y = f (xs ! i) + f (xs ! j)"
  shows "sum_list (map f (xs[i := x, j := y])) = sum_list (map f xs)"
  using sum_list_update_add [of i xs f x] sum_list_update_add [of j "xs[i := x]" f y] assms by simp

lemma sum_list_update_le:
  fixes f :: "'a \<Rightarrow> nat"
  assumes "f x \<le> f (xs ! i)"
  shows "sum_list (map f (xs[i := x])) \<le> sum_list (map f xs)"
  using assms
proof (induction xs arbitrary: i)
  case (Cons w xs)
  then show ?case by (cases i) auto
qed simp

lemma unat_ucast_8_16: "unat (ucast (c :: u8) :: u16) = unat c"
  using unsigned_less [of c, where 'a = nat] by (simp add: unsigned_ucast_eq take_bit_nat_eq_self)

lemma unat_sub_ucast:
  "ucast c \<le> x \<Longrightarrow> unat (x - ucast (c :: u8) :: u16) = unat x - unat c"
  by (simp add: unat_sub unat_ucast_8_16)

lemma weight_zero [simp]: "weight q zeroItem = 0"
  by (simp add: weight_def)

lemma weight_eq: "item_ok n a \<Longrightarrow> a \<noteq> zeroItem \<Longrightarrow>
  weight q a = (if (Stack a)\<lparr>Count := 0\<rparr> = q then unat (Count (Stack a)) else 0)"
  by (simp add: weight_def item_ok_empty)

lemma weight_withCount: "NetworkID (Stack a) \<noteq> 0 \<Longrightarrow>
  weight q (withCount a c) = (if (Stack a)\<lparr>Count := 0\<rparr> = q then unat c else 0)"
  by (auto simp: weight_def withCount_def itemIsEmpty_def)

lemma weight_takeFrom:
  assumes "item_ok n a" "a \<noteq> zeroItem" "ucast c \<le> Count (Stack a)"
  shows "weight q (takeFrom a c) = (if (Stack a)\<lparr>Count := 0\<rparr> = q then unat (Count (Stack a)) - unat c else 0)"
proof -
  have nz: "NetworkID (Stack a) \<noteq> 0" using assms by (simp add: item_ok_def itemIsEmpty_def)
  have "takeFrom a c = (if Count (Stack a) - ucast c = 0 then zeroItem else withCount a (Count (Stack a) - ucast c))"
    by (simp add: takeFrom_def withCount_def Let_def)
  then show ?thesis
    using unat_sub_ucast [OF assms(3)] weight_withCount [OF nz, of q "Count (Stack a) - ucast c"]
    by (auto simp del: unat_eq_zero)
qed

lemma transfer_weight:
  assumes "inv_ok (Suc k) iv" "item_ok (nextStackID iv) a" "a \<noteq> zeroItem" "ucast c \<le> Count (Stack a)"
    and "b \<noteq> zeroItem \<Longrightarrow> item_ok (nextStackID iv) b"
    and m: "moves iv a b c m iv1 \<or> merges iv a b c m iv1"
  shows "weight q (takeFrom a c) + weight q m = weight q a + weight q b"
proof -
  note t = weight_takeFrom [OF assms(2-4), of q] and wa = weight_eq [OF assms(2,3), of q]
  have nz: "NetworkID (Stack a) \<noteq> 0" using assms(2,3) by (simp add: item_ok_def itemIsEmpty_def)
  have le: "unat c \<le> unat (Count (Stack a))"
    using assms(4) by (simp add: word_le_nat_alt unat_ucast_8_16)
  from m show ?thesis
  proof
    assume mv: "moves iv a b c m iv1"
    have "weight q (x\<lparr>StackNetworkID := n\<rparr>) = weight q x" for x n
      by (simp add: weight_def itemIsEmpty_def)
    then have "weight q m = (if (Stack a)\<lparr>Count := 0\<rparr> = q then unat c else 0)"
      using mv weight_withCount [OF nz, of q "ucast c"] by (auto simp: moves_def unat_ucast_8_16)
    then show ?thesis using mv t wa le by (auto simp: moves_def)
  next
    assume mg: "merges iv a b c m iv1"
    then have b: "b \<noteq> zeroItem" "item_ok (nextStackID iv) b" using assms(5) by (auto simp: merges_def)
    then have nb: "NetworkID (Stack b) \<noteq> 0" by (simp add: item_ok_def itemIsEmpty_def)
    have "unat (Count (Stack b)) \<le> 64" "unat c \<le> 64"
      using b assms(2-4) by (auto simp: item_ok_def word_le_nat_alt unat_ucast_8_16)
    then have "unat (Count (Stack b) + ucast c) = unat (Count (Stack b)) + unat c"
      using unat_add_16 [of "Count (Stack b)" "ucast c"] by (simp add: unat_ucast_8_16)
    then show ?thesis
      using mg t wa le weight_eq [OF b(2,1), of q] weight_withCount [OF nb, of q "Count (Stack b) + ucast c"]
      by (auto simp: merges_def)
  qed
qed

lemma transferStack_cells:
  assumes "inv_ok (Suc k) iv" and "transferStack s d c (iv, ch) = (None, st')"
  obtains a b m iv1 where "cells (fst st') = (cells iv)[cellOf (infoRef s) := takeFrom a c, cellOf (infoRef d) := m]"
    "a = cells iv ! cellOf (infoRef s)" "b = cells iv ! cellOf (infoRef d)"
    "cellOf (infoRef s) < 38" "cellOf (infoRef d) < 38"
    "a \<noteq> zeroItem" "item_ok (nextStackID iv) a" "item_ok (nextStackID iv) b" "ucast c \<le> Count (Stack a)"
    "moves iv a b c m iv1 \<or> merges iv a b c m iv1"
proof -
  from transferStack_success [OF assms] obtain sref dref a b m iv1 where t:
    "valid_ref sref" "valid_ref dref" "c \<noteq> 0" "a = cells iv ! cellOf sref" "b = cells iv ! cellOf dref"
    "a \<noteq> zeroItem" "item_ok (nextStackID iv) a" "item_ok (nextStackID iv) b" "ucast c \<le> Count (Stack a)"
    "moves iv a b c m iv1 \<or> merges iv a b c m iv1"
    "st' = setRequestSlot dref m (setRequestSlot sref (takeFrom a c) (iv1, ch))"
    "sref = infoRef s" "dref = infoRef d" unfolding infoRef_def by metis
  note mi = moved_item [OF assms(1) t(6,7,9,3) t(8) t(10)]
  have ta: "item_ok (nextStackID iv1) (takeFrom a c)"
    using takeFrom_simps(1) [OF t(7,6,9)] item_ok_mono mi(4) by blast
  have "fst st' = setCell dref m (setCell sref (takeFrom a c) iv1)"
    using inv_ok_parts(1) [OF mi(2)] t(1,2) ta mi(1) by (simp add: t(11) setRequestSlot_ok)
  then have "cells (fst st') = (cells iv)[cellOf sref := takeFrom a c, cellOf dref := m]"
    using inv_ok_parts(1) [OF mi(2)] t(1,2) mi(3) by (simp add: cells_setCell)
  then show ?thesis using that t cellOf_less by blast
qed

lemma transferStack_total:
  assumes "inv_ok (Suc k) iv" and "transferStack s d c (iv, ch) = (r, st')"
    and "cellOf (infoRef s) \<noteq> cellOf (infoRef d)"
  shows "totalItems q (fst st') = totalItems q iv"
proof (cases r)
  case (Some e)
  then have "st' = (iv, ch)"
    using assms(2) by (auto simp: transferStack_def Let_def split: sum.splits prod.splits if_splits)
  then show ?thesis by simp
next
  case None
  with assms(2) have "transferStack s d c (iv, ch) = (None, st')" by simp
  from transferStack_cells [OF assms(1) this] obtain a b m iv1 where t:
    "cells (fst st') = (cells iv)[cellOf (infoRef s) := takeFrom a c, cellOf (infoRef d) := m]"
    "a = cells iv ! cellOf (infoRef s)" "b = cells iv ! cellOf (infoRef d)"
    "cellOf (infoRef s) < 38" "cellOf (infoRef d) < 38"
    "a \<noteq> zeroItem" "item_ok (nextStackID iv) a" "item_ok (nextStackID iv) b" "ucast c \<le> Count (Stack a)"
    "moves iv a b c m iv1 \<or> merges iv a b c m iv1" by metis
  show ?thesis
    unfolding totalItems_def t(1)
    by (rule sum_list_update2)
      (use t(2-5) assms(3) inv_ok_parts(2) [OF assms(1)] transfer_weight [OF assms(1) t(7,6,9) t(8) t(10), of q]
       in simp_all)
qed

lemma swapStacks_total:
  assumes "inv_ok k iv" and "swapStacks s d (iv, ch) = (r, st')"
  shows "totalItems q (fst st') = totalItems q iv"
proof (cases r)
  case (Some e)
  then show ?thesis using assms by (auto simp: swapStacks_def split: sum.splits prod.splits if_splits)
next
  case None
  with assms(2) obtain sref a dref b where v: "verifyStackRequestSlot iv s = Inr (sref, a)"
    "verifyStackRequestSlot iv d = Inr (dref, b)"
    "st' = setRequestSlot dref a (setRequestSlot sref b (iv, ch))"
    by (auto simp: swapStacks_def split: sum.splits prod.splits if_splits)
  note va = verify_ok [OF assms(1) v(1)] and vb = verify_ok [OF assms(1) v(2)] and p = inv_ok_parts [OF assms(1)]
  have f: "cells (fst st') = (cells iv)[cellOf sref := b, cellOf dref := a]"
    using p(1) va vb by (simp add: v(3) setRequestSlot_ok cells_setCell)
  show ?thesis
  proof (cases "cellOf sref = cellOf dref")
    case True
    then show ?thesis using f va(3) by (simp add: totalItems_def)
  next
    case False
    show ?thesis
      unfolding totalItems_def f
      by (rule sum_list_update2)
        (use va(3) vb(3) p(2) False cellOf_less [OF va(1)] cellOf_less [OF vb(1)] in simp_all)
  qed
qed

lemma take_total:
  assumes "inv_ok k iv" and "dropStack s c (iv, ch) = (r, st') \<or> destroyStack s c (iv, ch) = (r, st')"
  shows "totalItems q (fst st') \<le> totalItems q iv"
proof (cases "st' = (iv, ch)")
  case False
  with assms(2) obtain ref it where v: "verifyStackRequestSlot iv s = Inr (ref, it)" "\<not> itemIsEmpty it"
    "ucast c \<le> Count (Stack it)" "st' = setRequestSlot ref (takeFrom it c) (iv, ch)"
    by (auto simp: dropStack_def destroyStack_def not_less split: sum.splits prod.splits if_splits)
  note w = verify_ok [OF assms(1) v(1)] and p = inv_ok_parts [OF assms(1)]
  have nz: "it \<noteq> zeroItem" using v(2) by auto
  have "cells (fst st') = (cells iv)[cellOf ref := takeFrom it c]"
    using take_inv(1) [OF assms(1) v(1-3)] p(1) w(1) by (simp add: v(4) cells_setCell)
  moreover have "weight q (takeFrom it c) \<le> weight q (cells iv ! cellOf ref)"
    using weight_takeFrom [OF w(4) nz v(3), of q] weight_eq [OF w(4) nz, of q] w(3) by auto
  ultimately show ?thesis by (simp add: totalItems_def sum_list_update_le)
qed simp

lemma action_total:
  assumes ok: "inv_ok (Suc k) iv" and a: "applyStackRequestAction creative a (iv, ch) = (r, st')" and al: "\<not> aliased a"
  shows "totalItems q (fst st') \<le> totalItems q iv" and "\<not> removes a \<Longrightarrow> totalItems q (fst st') = totalItems q iv"
proof -
  note w = inv_ok_weaken [OF ok]
  show "\<not> removes a \<Longrightarrow> totalItems q (fst st') = totalItems q iv"
  proof (cases a)
    case (MineBlockStackRequestAction h n)
    then show ?thesis using a ackMineBlockStack_inv [of h n iv ch r st'] by simp
  qed (use a al transferStack_total [OF ok] swapStacks_total [OF w] in auto)
  then show "totalItems q (fst st') \<le> totalItems q iv"
    using a take_total [OF w, of _ _ ch r st' q] by (cases a) (auto split: if_splits)
qed

interpretation conserved: invariant_steps "applyStackRequestAction creative"
    "\<lambda>a. \<not> aliased a \<and> \<not> removes a" "\<lambda>k st. inv_ok k (fst st) \<and> totalItems q (fst st) = n"
  for creative q n
proof (unfold_locales, goal_cases)
  case (1 k s)
  then show ?case by (auto intro: inv_ok_weaken)
next
  case (2 k s a r s')
  then show ?case
    using action_total(2) [of k "fst s" creative a "snd s" r s' q] action_inv [of k "fst s" creative a "snd s" r s']
    by auto
qed

interpretation bounded: invariant_steps "applyStackRequestAction creative"
    "\<lambda>a. \<not> aliased a" "\<lambda>k st. inv_ok k (fst st) \<and> totalItems q (fst st) \<le> n"
  for creative q n
proof (unfold_locales, goal_cases)
  case (1 k s)
  then show ?case by (auto intro: inv_ok_weaken)
next
  case (2 k s a r s')
  then show ?case
    using action_total(1) [of k "fst s" creative a "snd s" r s' q] action_inv [of k "fst s" creative a "snd s" r s']
    by auto
qed

lemma remember_total: "totalItems q (rememberResponseStackIDs n ch iv) = totalItems q iv"
  by (simp add: rememberResponseStackIDs_def Let_def totalItems_def cells_def)

lemma request_outcome:
  assumes "applyActions creative (Actions r) (iv, []) = (e, iv1, ch)"
  shows "totalItems q (snd (applyItemStackRequest cbyte creative r iv)) =
    (if e = None then totalItems q iv1 else totalItems q iv)"
  using assms rejected_restores [of creative "Actions r" iv _ iv1 ch]
  by (cases e) (auto simp: applyItemStackRequest_def Let_def remember_total)

text \<open>
  C3. Item stack requests neither create nor duplicate items: if no action of the request
  transfers between two names of the same cell, then for every kind of item the inventory holds
  at most as many items after the request as before, and exactly as many when the request does
  not drop or destroy any. This covers take, place, swap and mine-block actions in any sequence,
  accepted or rejected, splitting and merging stacks on the way.
\<close>

theorem items_conserved:
  assumes "inv_ok (length (Actions r)) iv" and "\<forall>a \<in> set (Actions r). \<not> aliased a"
  shows "totalItems q (snd (applyItemStackRequest cbyte creative r iv)) \<le> totalItems q iv \<and>
    ((\<forall>a \<in> set (Actions r). \<not> removes a) \<longrightarrow>
       totalItems q (snd (applyItemStackRequest cbyte creative r iv)) = totalItems q iv)"
proof -
  obtain e iv1 ch where run: "applyActions creative (Actions r) (iv, []) = (e, iv1, ch)" by (metis prod_cases3)
  have "totalItems q iv1 \<le> totalItems q iv"
    using bounded.run_invar [where as = "Actions r" and k = 0 and s = "(iv, [])" and creative = creative
        and q = q and n = "totalItems q iv" and r = e and s' = "(iv1, ch)"] run assms
    by (simp add: applyActions_def list_all_iff)
  moreover have "totalItems q iv1 = totalItems q iv" if "\<forall>a \<in> set (Actions r). \<not> removes a"
    using conserved.run_invar [where as = "Actions r" and k = 0 and s = "(iv, [])" and creative = creative
        and q = q and n = "totalItems q iv" and r = e and s' = "(iv1, ch)"] run assms that
    by (simp add: applyActions_def list_all_iff)
  ultimately show ?thesis by (simp add: request_outcome [OF run])
qed

text \<open>Witness of \<open>items_conserved\<close>: four items move to the cursor, then back onto another stack.\<close>

definition movingRequest :: ItemStackRequest where
  "movingRequest = \<lparr>RequestID = -5, Actions =
     [TakeStackRequestAction (at ContainerHotBar 0 1) (at ContainerCursor 0 0) 4,
      PlaceStackRequestAction (at ContainerCursor 0 3) (at ContainerInventory 5 2) 4]\<rparr>"

theorem items_conserved_witness:
  "snd (fst (applyItemStackRequest sampleBytes False movingRequest sampleInventory)) \<and>
   totalItems (zeroStack\<lparr>NetworkID := 7\<rparr>) (snd (applyItemStackRequest sampleBytes False movingRequest sampleInventory))
     = totalItems (zeroStack\<lparr>NetworkID := 7\<rparr>) sampleInventory"
proof
  show "snd (fst (applyItemStackRequest sampleBytes False movingRequest sampleInventory))" by code_simp
  have "inv_ok (length (Actions movingRequest)) sampleInventory"
    using sampleInventory_ok by (simp add: inv_ok_def movingRequest_def)
  moreover have "\<forall>a \<in> set (Actions movingRequest). \<not> aliased a \<and> \<not> removes a" by code_simp
  ultimately show "totalItems (zeroStack\<lparr>NetworkID := 7\<rparr>)
      (snd (applyItemStackRequest sampleBytes False movingRequest sampleInventory))
     = totalItems (zeroStack\<lparr>NetworkID := 7\<rparr>) sampleInventory"
    using items_conserved [of movingRequest sampleInventory] by blast
qed

lemma verify_main:
  assumes "inv_ok k iv" and "mainContainer c" and "sl < 9" and "it = main iv ! unat sl" and "\<not> itemIsEmpty it"
  shows "verifyStackRequestSlot iv \<lparr>infoContainer = c, infoSlot = sl, infoStackNetworkID = StackNetworkID it\<rparr>
    = Inr (\<lparr>container = c, slot = sl\<rparr>, it)"
proof -
  have i: "unat sl < 9" "sl < 36" using assms(3) by (simp_all add: word_less_nat_alt)
  have "it \<in> set (cells iv)"
    using i inv_ok_parts(1) [OF assms(1)] assms(4) by (simp add: cells_def)
  then have ok: "item_ok (nextStackID iv) it" by (rule inv_ok_parts(5) [OF assms(1)])
  then have "1 \<le> StackNetworkID it" "cloneItemInstance it = it" using assms(5) by (auto simp: item_ok_def)
  moreover have "resolveSlot c sl = Inr \<lparr>container = c, slot = sl\<rparr>"
    using assms(2,3) i(2) by (auto simp: resolveSlot_def mainContainer_def Let_def)
  ultimately show ?thesis
    using assms(2,4,5) i(2)
    by (simp add: verifyStackRequestSlot_def item_def resolveStackNetworkID_def itemStackNetworkID_def)
qed

text \<open>
  C28. The guard against moving a stack onto itself compares container names, not cells: a
  transfer of \<open>c\<close> items from a main slot to the same slot under another of its container names is
  accepted and leaves \<open>c\<close> items more in the inventory than before, whenever the stack is large
  enough and the result stays within 64. This is a duplication of items.
\<close>

theorem aliased_transfer_duplicates:
  assumes "inv_ok (Suc k) iv" and "mainContainer c1" and "mainContainer c2" and "c1 \<noteq> c2" and "sl < 9"
    and "it = main iv ! unat sl" and "\<not> itemIsEmpty it" and "n \<noteq> 0" and "ucast n \<le> Count (Stack it)"
    and "Count (Stack it) + ucast n \<le> 64"
  shows "\<exists>iv' ch'. transferStack \<lparr>infoContainer = c1, infoSlot = sl, infoStackNetworkID = StackNetworkID it\<rparr>
       \<lparr>infoContainer = c2, infoSlot = sl, infoStackNetworkID = StackNetworkID it\<rparr> n (iv, ch) = (None, iv', ch') \<and>
     totalItems ((Stack it)\<lparr>Count := 0\<rparr>) iv' = totalItems ((Stack it)\<lparr>Count := 0\<rparr>) iv + unat n"
proof -
  let ?r1 = "\<lparr>container = c1, slot = sl\<rparr>" and ?r2 = "\<lparr>container = c2, slot = sl\<rparr>"
  let ?x = "takeFrom it n" and ?y = "withCount it (Count (Stack it) + ucast n)"
  note p = inv_ok_parts [OF assms(1)]
  have i: "unat sl < 9" "sl < 36" using assms(5) by (simp_all add: word_less_nat_alt)
  have c: "cells iv ! unat sl = it" "unat sl < length (cells iv)"
    using i p(1) assms(6) by (simp_all add: cells_def nth_append)
  have ok: "item_ok (nextStackID iv) it" using p(5) c nth_mem by metis
  have nz: "it \<noteq> zeroItem" using assms(7) by auto
  have r: "valid_ref ?r1" "valid_ref ?r2" "cellOf ?r1 = unat sl" "cellOf ?r2 = unat sl"
    using assms(2,3) i by (simp_all add: valid_ref_def cellOf_def)
  have sz: "unat (Count (Stack it) + ucast n) = unat (Count (Stack it)) + unat n"
    using ok nz assms(9) unat_add_16 [of "Count (Stack it)" "ucast n"]
    by (simp add: item_ok_def word_le_nat_alt unat_ucast_8_16)
  have "Count (Stack it) + ucast n \<noteq> 0"
    using sz assms(8) by (metis add_is_0 unat_eq_zero)
  then have y: "item_ok (nextStackID iv) ?y" using item_ok_withCount(1) [OF ok nz] assms(10) by blast
  note x = takeFrom_simps(1) [OF ok nz assms(9)]
  let ?iv = "setCell ?r2 ?y (setCell ?r1 ?x iv)"
  have "\<exists>ch'. transferStack \<lparr>infoContainer = c1, infoSlot = sl, infoStackNetworkID = StackNetworkID it\<rparr>
       \<lparr>infoContainer = c2, infoSlot = sl, infoStackNetworkID = StackNetworkID it\<rparr> n (iv, ch) = (None, ?iv, ch')"
    using verify_main [OF assms(1,2,5,6,7)] verify_main [OF assms(1,3,5,6,7)] assms(4,7-10) p(1) x y r(1,2)
    by (simp add: transferStack_def Let_def sameStackType_def setRequestSlot_ok not_less [symmetric] flip: withCount_def)
  moreover have "cells ?iv = (cells iv)[unat sl := ?y]"
    using p(1) r by (simp add: cells_setCell)
  moreover have "weight ((Stack it)\<lparr>Count := 0\<rparr>) ?y = weight ((Stack it)\<lparr>Count := 0\<rparr>) it + unat n"
    using sz weight_eq [OF ok nz] weight_withCount [of it] ok nz by (simp add: item_ok_def itemIsEmpty_def)
  ultimately show ?thesis
    using sum_list_update_add [OF c(2), of "weight ((Stack it)\<lparr>Count := 0\<rparr>)" ?y] c(1)
    by (auto simp: totalItems_def)
qed

text \<open>Witness of \<open>aliased_transfer_duplicates\<close>: ten items become thirteen.\<close>

theorem aliased_transfer_duplicates_witness:
  "\<exists>iv' ch'. transferStack (at ContainerInventory 0 1) (at ContainerHotBar 0 1) 3 (sampleInventory, []) = (None, iv', ch') \<and>
     totalItems (zeroStack\<lparr>NetworkID := 7\<rparr>) iv' = totalItems (zeroStack\<lparr>NetworkID := 7\<rparr>) sampleInventory + 3"
proof -
  have m: "main sampleInventory ! unat (0 :: u8) = sampleItem 10 1" by code_simp
  have ok: "inv_ok (Suc 0) sampleInventory" using sampleInventory_ok by (simp add: inv_ok_def)
  show ?thesis
    using aliased_transfer_duplicates [OF ok, of ContainerInventory ContainerHotBar 0 "sampleItem 10 1" 3 "[]"] m
    by (simp add: mainContainer_def at_def sampleItem_def itemIsEmpty_def zeroStack_def)
qed

section \<open>Responses do not depend on map order\<close>

definition slotsOf :: "changes \<Rightarrow> container \<Rightarrow> StackResponseSlotInfo list" where
  "slotsOf ch c = map (\<lambda>(ref, it). stackResponseSlotInfo ref it) (filter (\<lambda>(ref, it). container ref = c) ch)"

lemma groupChanges_spec:
  "map_of (groupChanges ch) c = (if slotsOf ch c = [] then None else Some (slotsOf ch c)) \<and> wf_map (groupChanges ch)"
proof (induction ch arbitrary: c rule: rev_induct)
  case Nil
  then show ?case by (simp add: groupChanges_def slotsOf_def)
next
  case (snoc e ch)
  obtain ref it where e: "e = (ref, it)" by (cases e)
  have "groupChanges (ch @ [e]) = AList.update (container ref)
    ((case map_of (groupChanges ch) (container ref) of Some xs \<Rightarrow> xs | None \<Rightarrow> []) @ [stackResponseSlotInfo ref it])
    (groupChanges ch)"
    by (simp add: groupChanges_def e)
  then show ?case
    using snoc.IH [of c] snoc.IH [of "container ref"]
    by (auto simp: amap_simps distinct_update slotsOf_def e)
qed

lemma groupChanges_keys: "set (map fst (groupChanges ch)) = (container \<circ> fst) ` set ch"
proof -
  have "slotsOf ch c \<noteq> [] \<longleftrightarrow> c \<in> (container \<circ> fst) ` set ch" for c
    by (force simp: slotsOf_def filter_empty_conv)
  then show ?thesis
    using groupChanges_spec [of ch] by (auto simp: keys_map_of set_eq_iff simp del: comp_apply)
qed

lemma sort_key_set_unique:
  assumes "set xs = set ys" and "distinct xs" "distinct ys" and "inj_on f (set xs)"
  shows "sort_key f xs = sort_key f ys"
  by (rule map_sorted_distinct_set_unique [where f = f]) (use assms in \<open>auto simp: distinct_map\<close>)

lemma slotsOf_distinct:
  assumes "wf_map ch"
  shows "distinct (slotsOf ch c)" and "inj_on respSlot (set (slotsOf ch c))"
proof -
  have "distinct ch" using assms by (simp add: distinct_map)
  moreover have inj: "inj_on (respSlot \<circ> (\<lambda>(ref, it). stackResponseSlotInfo ref it)) (set (filter (\<lambda>(ref, it). container ref = c) ch))"
  proof (rule inj_onI)
    fix x y assume h: "x \<in> set (filter (\<lambda>(ref, it). container ref = c) ch)" "y \<in> set (filter (\<lambda>(ref, it). container ref = c) ch)"
      "(respSlot \<circ> (\<lambda>(ref, it). stackResponseSlotInfo ref it)) x = (respSlot \<circ> (\<lambda>(ref, it). stackResponseSlotInfo ref it)) y"
    then have "fst x = fst y"
      by (intro mcpeInventorySlot.equality) (auto simp: stackResponseSlotInfo_def split: prod.splits)
    with h(1,2) assms show "x = y" by (auto simp: distinct_map inj_on_def)
  qed
  ultimately show "distinct (slotsOf ch c)" "inj_on respSlot (set (slotsOf ch c))"
    by (auto simp: slotsOf_def distinct_map intro: inj_on_imageI2 inj_on_imageI)
qed

text \<open>
  The response to an accepted request does not depend on the order in which Go iterates
  over the map of changed slots: containers are listed in increasing order of their number,
  each once, with their slots in increasing order, and the response lists exactly the changed
  slots, each with its slot number, the count and the stack network ID it was left with.
\<close>

lemma response_order_independent:
  assumes "inj_on cbyte ((container \<circ> fst) ` set ch)" and "wf_map ch" and "wf_map ch'" and "set ch' = set ch"
  shows "stackResponseContainerInfo cbyte ch' = stackResponseContainerInfo cbyte ch \<and>
    sorted (map (cbyte \<circ> respContainer) (stackResponseContainerInfo cbyte ch)) \<and>
    distinct (map respContainer (stackResponseContainerInfo cbyte ch)) \<and>
    {(respContainer info, s) |info s. info \<in> set (stackResponseContainerInfo cbyte ch) \<and> s \<in> set (respSlotInfo info)}
      = (\<lambda>(ref, it). (container ref, stackResponseSlotInfo ref it)) ` set ch"
proof -
  have k: "sort_key cbyte (map fst (groupChanges ch')) = sort_key cbyte (map fst (groupChanges ch))"
    using groupChanges_keys [of ch'] groupChanges_keys [of ch] groupChanges_spec assms(1,4)
    by (intro sort_key_set_unique) simp_all
  have e: "the (map_of (groupChanges x) c) = slotsOf x c" if "c \<in> set (map fst (groupChanges x))" for x c
    using that groupChanges_spec [of x c] by (auto simp: keys_map_of split: if_splits)
  have g: "sort_key respSlot (slotsOf ch' c) = sort_key respSlot (slotsOf ch c)" for c
    using slotsOf_distinct [OF assms(2), of c] slotsOf_distinct [OF assms(3), of c] assms(4)
    by (intro sort_key_set_unique) (auto simp: slotsOf_def)
  have r: "stackResponseContainerInfo cbyte x =
      map (\<lambda>c. \<lparr>respContainer = c, respSlotInfo = sort_key respSlot (slotsOf x c)\<rparr>)
        (sort_key cbyte (map fst (groupChanges x)))" for x
    by (auto simp: stackResponseContainerInfo_def Let_def e)
  have "{(respContainer info, s) |info s. info \<in> set (stackResponseContainerInfo cbyte ch) \<and> s \<in> set (respSlotInfo info)}
    = {(c, s) |c s. c \<in> (container \<circ> fst) ` set ch \<and> s \<in> set (slotsOf ch c)}"
    using groupChanges_keys [of ch] by (force simp: r)
  also have "\<dots> = (\<lambda>(ref, it). (container ref, stackResponseSlotInfo ref it)) ` set ch"
    by (force simp: slotsOf_def)
  finally show ?thesis
    using k g groupChanges_spec [of ch] by (simp add: r comp_def)
qed

section \<open>Predicted stack network IDs\<close>

definition resolved :: "mcpeInventorySlot \<Rightarrow> bool" where
  "resolved ref \<longleftrightarrow> resolveSlot (container ref) (slot ref) = Inr ref"

lemma resolved_valid: "resolved ref \<Longrightarrow> valid_ref ref"
  by (auto simp: resolved_def dest: resolveSlot_valid)

lemma verify_resolved: "verifyStackRequestSlot iv info = Inr (ref, it) \<Longrightarrow> resolved ref"
proof -
  assume "verifyStackRequestSlot iv info = Inr (ref, it)"
  then have r: "resolveSlot (infoContainer info) (infoSlot info) = Inr ref"
    by (auto simp: verifyStackRequestSlot_def split: sum.splits if_splits)
  with resolveSlot_valid [OF r] show ?thesis by (simp add: resolved_def)
qed

text \<open>
  The recorded changes name slots by resolved references and, as long as no cell was changed
  under two names, hold the current contents of the cells.
\<close>

definition tracks :: "request_state \<Rightarrow> bool" where
  "tracks st \<longleftrightarrow> wf_map (snd st) \<and> (\<forall>ref \<in> fst ` set (snd st). resolved ref) \<and>
     (inj_on cellOf (fst ` set (snd st)) \<longrightarrow> (\<forall>(ref, it) \<in> set (snd st). cells (fst st) ! cellOf ref = it))"

lemma set_update_keys: "fst ` set (AList.update k v m) = insert k (fst ` set m)"
  by (induction m) auto

lemma setCell_tracks:
  assumes "tracks (iv, ch)" and "length (main iv) = 36" and "resolved ref"
  shows "tracks (setCell ref it iv, AList.update ref it ch)"
proof -
  have v: "valid_ref ref" using assms(3) by (rule resolved_valid)
  have wf: "wf_map ch" using assms(1) by (simp add: tracks_def)
  have "cells (setCell ref it iv) ! cellOf r = i"
    if inj: "inj_on cellOf (insert ref (fst ` set ch))" and e: "(r, i) \<in> set (AList.update ref it ch)" for r i
  proof (cases "r = ref")
    case True
    then have "i = it" using e wf by (simp add: set_update_wf)
    then show ?thesis
      using True cellOf_less [OF v] length_cells [OF assms(2)] by (simp add: cells_setCell [OF assms(2) v])
  next
    case False
    then have m: "(r, i) \<in> set ch" using e wf by (simp add: set_update_wf)
    then have "r \<in> fst ` set ch" by force
    then have "cellOf r \<noteq> cellOf ref" using inj False by (auto simp: inj_on_def)
    moreover have "inj_on cellOf (fst ` set ch)" using inj by (simp add: inj_on_insert)
    ultimately show ?thesis
      using m assms(1) by (auto simp: tracks_def cells_setCell [OF assms(2) v])
  qed
  then show ?thesis
    using assms(1,3) wf by (auto simp: tracks_def set_update_keys distinct_update)
qed

lemma tracks_cells: "tracks (iv, ch) \<Longrightarrow> cells iv1 = cells iv \<Longrightarrow> tracks (iv1, ch)"
  by (simp add: tracks_def)

lemma set2_tracks:
  assumes "tracks (iv, ch)" and "length (main iv) = 36" and "resolved r1" "resolved r2"
    and "item_ok (nextStackID iv) x1" "item_ok (nextStackID iv) x2"
  shows "tracks (setRequestSlot r2 x2 (setRequestSlot r1 x1 (iv, ch)))"
  using assms setCell_tracks [OF assms(1,2,3)] setCell_tracks [of "setCell r1 x1 iv" "AList.update r1 x1 ch" r2 x2]
  by (simp add: setRequestSlot_ok resolved_valid)

lemma transferStack_resolved:
  assumes "transferStack s d c st = (None, st')"
  shows "resolved (infoRef s) \<and> resolved (infoRef d)"
proof -
  obtain sref a dref b where v: "verifyStackRequestSlot (fst st) s = Inr (sref, a)"
    "verifyStackRequestSlot (fst st) d = Inr (dref, b)"
    using assms by (auto simp: transferStack_def Let_def split: sum.splits prod.splits if_splits)
  have "infoRef i = ref" if "verifyStackRequestSlot (fst st) i = Inr (ref, x)" for i ref x
  proof -
    have "resolveSlot (infoContainer i) (infoSlot i) = Inr ref"
      using that by (auto simp: verifyStackRequestSlot_def split: sum.splits if_splits)
    then show ?thesis using resolveSlot_valid by (simp add: infoRef_def)
  qed
  with v show ?thesis using verify_resolved by blast
qed

lemma transferStack_tracks:
  assumes "inv_ok (Suc k) iv" and "tracks (iv, ch)" and "transferStack s d c (iv, ch) = (r, st')"
  shows "tracks st'"
proof (cases r)
  case (Some e)
  then have "st' = (iv, ch)"
    using assms(3) by (auto simp: transferStack_def Let_def split: sum.splits prod.splits if_splits)
  then show ?thesis using assms(2) by simp
next
  case None
  with assms(3) have n: "transferStack s d c (iv, ch) = (None, st')" by simp
  from transferStack_success [OF assms(1) this] obtain sref dref a b m iv1 where t:
    "sref = infoRef s" "dref = infoRef d" "c \<noteq> 0" "a \<noteq> zeroItem" "item_ok (nextStackID iv) a"
    "item_ok (nextStackID iv) b" "ucast c \<le> Count (Stack a)"
    "moves iv a b c m iv1 \<or> merges iv a b c m iv1"
    "st' = setRequestSlot dref m (setRequestSlot sref (takeFrom a c) (iv1, ch))"
    unfolding infoRef_def by metis
  note mi = moved_item [OF assms(1) t(4,5,7,3) t(6) t(8)]
  have ta: "item_ok (nextStackID iv1) (takeFrom a c)"
    using takeFrom_simps(1) [OF t(5,4,7)] item_ok_mono mi(4) by blast
  show ?thesis
    unfolding t(9)
    by (rule set2_tracks [OF tracks_cells [OF assms(2) mi(3)] inv_ok_parts(1) [OF mi(2)] _ _ ta mi(1)])
      (use transferStack_resolved [OF n] t(1,2) in simp_all)
qed

lemma swapStacks_tracks:
  assumes "inv_ok k iv" and "tracks (iv, ch)" and "swapStacks s d (iv, ch) = (r, st')"
  shows "tracks st'"
proof (cases r)
  case (Some e)
  then show ?thesis using assms by (auto simp: swapStacks_def split: sum.splits prod.splits if_splits)
next
  case None
  with assms(3) obtain sref a dref b where v: "verifyStackRequestSlot iv s = Inr (sref, a)"
    "verifyStackRequestSlot iv d = Inr (dref, b)" "st' = setRequestSlot dref a (setRequestSlot sref b (iv, ch))"
    by (auto simp: swapStacks_def split: sum.splits prod.splits if_splits)
  show ?thesis
    unfolding v(3)
    by (rule set2_tracks [OF assms(2) inv_ok_parts(1) [OF assms(1)]
        verify_resolved [OF v(1)] verify_resolved [OF v(2)] verify_ok(4) [OF assms(1) v(2)] verify_ok(4) [OF assms(1) v(1)]])
qed

lemma take_tracks:
  assumes "inv_ok k iv" and "tracks (iv, ch)"
    and "dropStack s c (iv, ch) = (r, st') \<or> destroyStack s c (iv, ch) = (r, st')"
  shows "tracks st'"
proof (cases "st' = (iv, ch)")
  case False
  with assms(3) obtain ref it where v: "verifyStackRequestSlot iv s = Inr (ref, it)" "\<not> itemIsEmpty it"
    "ucast c \<le> Count (Stack it)" "st' = setRequestSlot ref (takeFrom it c) (iv, ch)"
    by (auto simp: dropStack_def destroyStack_def not_less split: sum.splits prod.splits if_splits)
  then show ?thesis
    using setCell_tracks [OF assms(2) inv_ok_parts(1) [OF assms(1)] verify_resolved [OF v(1)]]
      take_inv(1) [OF assms(1) v(1-3)] by simp
qed (use assms in simp)

lemma ackMineBlockStack_tracks:
  assumes "inv_ok k iv" and "tracks (iv, ch)" and "ackMineBlockStack h n (iv, ch) = (r, st')"
  shows "tracks st'"
proof (cases "st' = (iv, ch)")
  case False
  with assms(3) obtain info ref it where v: "verifyStackRequestSlot iv info = Inr (ref, it)"
    "st' = (iv, AList.update ref it ch)"
    by (auto simp: ackMineBlockStack_def split: sum.splits prod.splits if_splits)
  have len: "length (main iv) = 36" using inv_ok_parts(1) [OF assms(1)] .
  have "cells (setCell ref it iv) = cells iv"
    using cells_setCell [OF len] verify_ok(1,3) [OF assms(1) v(1)] by simp
  then show ?thesis
    using setCell_tracks [OF assms(2) len verify_resolved [OF v(1)], of it] by (simp add: v(2) tracks_def)
qed (use assms in simp)

lemma action_tracks:
  assumes ok: "inv_ok (Suc k) iv" and t: "tracks (iv, ch)" and a: "applyStackRequestAction creative a (iv, ch) = (r, st')"
  shows "tracks st'"
proof -
  note w = inv_ok_weaken [OF ok]
  show ?thesis
  proof (cases a)
    case (DropStackRequestAction s n)
    then show ?thesis using a take_tracks [OF w t, of s n r st'] by simp
  next
    case (DestroyStackRequestAction s n)
    then show ?thesis using a t take_tracks [OF w t, of s n r st'] by (auto split: if_splits)
  next
    case (MineBlockStackRequestAction h n)
    then show ?thesis using a ackMineBlockStack_tracks [OF w t, of h n r st'] by simp
  qed (use a t transferStack_tracks [OF ok t] swapStacks_tracks [OF w t] in auto)
qed

interpretation tracked: invariant_steps "applyStackRequestAction creative" "\<lambda>a. True"
    "\<lambda>k st. inv_ok k (fst st) \<and> tracks st"
  for creative
proof (unfold_locales, goal_cases)
  case (1 k s)
  then show ?case by (auto intro: inv_ok_weaken)
next
  case (2 k s a r s')
  then show ?case
    using action_tracks [of k "fst s" "snd s" creative a r s'] action_inv [of k "fst s" creative a "snd s" r s']
    by auto
qed

lemma map_of_fold_update:
  "map_of (fold (\<lambda>k. AList.update k v) ks m) x = (if x \<in> set ks then Some v else map_of m x)"
  by (induction ks arbitrary: m) (auto simp: amap_simps)

lemma alias_cell: "key \<in> set (ref # aliasInventorySlots ref) \<Longrightarrow> cellOf key = cellOf ref"
  by (auto simp: aliasInventorySlots_def cellOf_def mainContainer_def split: if_splits)

lemma rememberSlots_lookup:
  assumes "wf_map ch" and "inj_on cellOf (fst ` set ch)" and "(ref, it) \<in> set ch"
    and "key \<in> set (ref # aliasInventorySlots ref)"
  shows "map_of (rememberSlots ch) key = Some (itemStackNetworkID it)"
  using assms
proof (induction ch rule: rev_induct)
  case (snoc e ch)
  obtain r i where e: "e = (r, i)" by (cases e)
  have step: "map_of (rememberSlots (ch @ [e])) key =
    (if key \<in> set (r # aliasInventorySlots r) then Some (itemStackNetworkID i) else map_of (rememberSlots ch) key)"
    by (simp add: rememberSlots_def e map_of_fold_update amap_simps)
  show ?case
  proof (cases "key \<in> set (r # aliasInventorySlots r)")
    case True
    then have "cellOf r = cellOf ref" using alias_cell snoc.prems(4) by metis
    then have "r = ref" using snoc.prems(2,3) e by (auto simp: inj_on_def)
    then have "i = it" using snoc.prems(1,3) e by (auto simp: rev_image_eqI)
    with True step show ?thesis by simp
  next
    case False
    then have "(ref, it) \<in> set ch" using snoc.prems(3,4) e by auto
    moreover have "wf_map ch" "inj_on cellOf (fst ` set ch)"
      using snoc.prems(1,2) by (auto intro: inj_on_subset)
    ultimately show ?thesis using snoc.IH snoc.prems(4) step False by simp
  qed
qed simp

lemma remembered_ids:
  assumes "ch \<noteq> []" and "n \<noteq> 0" and "- (2 ^ 31) < n" and "n < 2 ^ 31"
  shows "map_of (responseStackIDs (rememberResponseStackIDs n ch iv)) (- \<bar>n\<bar>) = Some (rememberSlots ch)"
proof -
  have "i32 (- n) = - n" using assms(3,4) by simp
  then show ?thesis
    using assms(1,2) by (auto simp: rememberResponseStackIDs_def Let_def amap_simps)
qed

text \<open>
  C25. The client may name the stacks that a request has produced before it has seen the response: by
  \<open>- \<bar>RequestID\<bar>\<close>, which for the negative IDs that clients use is the ID of the request itself and otherwise its negation. After an accepted
  request that changed no cell under two names, the server resolves this predicted ID in every
  changed slot, under the slot's own name, to the stack that the slot really holds: verification of the slot with
  the predicted ID succeeds and yields the current contents. This does not depend on the order \<open>ch'\<close> in which
  the code ranges over the changed slots when it remembers their IDs. (If one cell was changed under two
  names, that order decides which of two IDs is remembered.)
\<close>

theorem predicted_ids_resolve:
  assumes "inv_ok (length (Actions r)) iv"
    and "applyActions creative (Actions r) (iv, []) = (None, iv1, ch)"
    and "inj_on cellOf (fst ` set ch)" and "(ref, it) \<in> set ch"
    and "RequestID r \<noteq> 0" and "- (2 ^ 31) < RequestID r" and "RequestID r < 2 ^ 31"
  shows "snd (applyItemStackRequest cbyte creative r iv) = rememberResponseStackIDs (RequestID r) ch iv1 \<and>
    cells (snd (applyItemStackRequest cbyte creative r iv)) ! cellOf ref = it \<and>
    (\<forall>ch'. wf_map ch' \<and> set ch' = set ch \<longrightarrow> verifyStackRequestSlot (rememberResponseStackIDs (RequestID r) ch' iv1)
       \<lparr>infoContainer = container ref, infoSlot = slot ref, infoStackNetworkID = - \<bar>RequestID r\<bar>\<rparr> = Inr (ref, it))"
proof -
  have "inv_ok 0 iv1 \<and> tracks (iv1, ch)"
    using tracked.run_invar [where as = "Actions r" and k = 0 and s = "(iv, [])" and creative = creative
        and r = None and s' = "(iv1, ch)"] assms(1,2)
    by (simp add: applyActions_def list_all_True tracks_def)
  then have ok: "inv_ok 0 iv1" and t: "wf_map ch" "resolved ref" "cells iv1 ! cellOf ref = it"
    using assms(3,4) by (auto simp: tracks_def)
  have f: "snd (applyItemStackRequest cbyte creative r iv) = rememberResponseStackIDs (RequestID r) ch iv1"
    using assms(2) by (simp add: applyItemStackRequest_def Let_def)
  have c: "cells (rememberResponseStackIDs (RequestID r) ch' iv1) = cells iv1" for ch'
    by (simp add: rememberResponseStackIDs_def Let_def cells_def)
  have "verifyStackRequestSlot (rememberResponseStackIDs (RequestID r) ch' iv1)
     \<lparr>infoContainer = container ref, infoSlot = slot ref, infoStackNetworkID = - \<bar>RequestID r\<bar>\<rparr> = Inr (ref, it)"
    if p: "wf_map ch' \<and> set ch' = set ch" for ch'
  proof -
    let ?iv = "rememberResponseStackIDs (RequestID r) ch' iv1"
    have ne: "ch' \<noteq> []" "(ref, it) \<in> set ch'" "inj_on cellOf (fst ` set ch')" using p assms(3,4) by auto
    have v: "valid_ref ref" using t(2) by (rule resolved_valid)
    have l: "length (main ?iv) = 36" using inv_ok_parts(1) [OF ok] by (simp add: rememberResponseStackIDs_def Let_def)
    have "item_ok (nextStackID iv1) it"
      using inv_ok_parts(2,5) [OF ok] cellOf_less [OF v] t(3) nth_mem by metis
    then have i: "item ?iv ref = Inr it"
      using item_cell [OF l v] c t(3) item_ok_clone by simp
    have "resolveStackNetworkID ?iv (- \<bar>RequestID r\<bar>) ref = Inr (itemStackNetworkID it)"
      using remembered_ids [OF ne(1) assms(5-7), of iv1] rememberSlots_lookup [OF conjunct1 [OF p] ne(3,2), of ref] assms(5)
      by (simp add: resolveStackNetworkID_def)
    with i t(2) show ?thesis by (simp add: verifyStackRequestSlot_def resolved_def)
  qed
  then show ?thesis using f t(3) c by simp
qed

text \<open>Witness of \<open>predicted_ids_resolve\<close>: the cursor after four items were split off to it.\<close>

definition splitRequest :: ItemStackRequest where
  "splitRequest = \<lparr>RequestID = -5, Actions =
     [TakeStackRequestAction (at ContainerHotBar 0 1) (at ContainerCursor 0 0) 4]\<rparr>"

theorem predicted_ids_resolve_witness:
  "verifyStackRequestSlot (snd (applyItemStackRequest sampleBytes False splitRequest sampleInventory))
     (at ContainerCursor 0 (-5)) = Inr (\<lparr>container = ContainerCursor, slot = 0\<rparr>, sampleItem 4 3)"
proof -
  let ?h = "\<lparr>container = ContainerHotBar, slot = 0\<rparr>" and ?c = "\<lparr>container = ContainerCursor, slot = 0\<rparr>"
  let ?ch = "[(?h, sampleItem 6 1), (?c, sampleItem 4 3)]"
  let ?iv1 = "snd (applyItemStackRequest sampleBytes False splitRequest sampleInventory)\<lparr>responseStackIDs := []\<rparr>"
  have "applyActions False (Actions splitRequest) (sampleInventory, []) = (None, ?iv1, ?ch)" by code_simp
  moreover have "inv_ok (length (Actions splitRequest)) sampleInventory"
    using sampleInventory_ok by (simp add: inv_ok_def splitRequest_def)
  moreover have "inj_on cellOf (fst ` set ?ch)" by (simp add: cellOf_def mainContainer_def)
  moreover have "RequestID splitRequest = -5" by (simp add: splitRequest_def)
  ultimately have r: "snd (applyItemStackRequest sampleBytes False splitRequest sampleInventory) = rememberResponseStackIDs (-5) ?ch ?iv1"
    "\<forall>ch'. wf_map ch' \<and> set ch' = set ?ch \<longrightarrow> verifyStackRequestSlot (rememberResponseStackIDs (-5) ch' ?iv1)
       \<lparr>infoContainer = container ?c, infoSlot = slot ?c, infoStackNetworkID = - \<bar>- 5\<bar>\<rparr> = Inr (?c, sampleItem 4 3)"
    using predicted_ids_resolve [of splitRequest sampleInventory False ?iv1 ?ch ?c "sampleItem 4 3" sampleBytes] by simp_all
  have "verifyStackRequestSlot (rememberResponseStackIDs (-5) ?ch ?iv1) (at ContainerCursor 0 (-5)) = Inr (?c, sampleItem 4 3)"
    using r(2) [rule_format, of ?ch] by (simp add: at_def)
  then show ?thesis by (subst r(1))
qed

end
