(* ===== verification/Storage.thy ===== *)
theory Storage
  imports Prelude
begin

unbundle bit_operations_syntax

text \<open>
  Paletted storages, the network form of blocks and biomes
  (\<^verbatim>\<open>internal/server/chunk_publisher.go\<close>, from \<^verbatim>\<open>encodePalettedStorage\<close> on).

  The variable-length integer writer \<^verbatim>\<open>gtprotocol.WriteVarint32\<close> is third-party code: \<open>varint v\<close>
  stands for the bytes it writes for the \<^verbatim>\<open>int32\<close> with the bits of \<open>v\<close>. The hypothesis about it,
  \<open>varint_reader\<close>, is that a reader exists which gets every value back and leaves the rest of
  the input alone.
\<close>

section \<open>Encoding\<close>

type_synonym palette_state = "u32 list \<times> (u32, u16) gomap \<times> u16 list"

definition paletteStep :: "u32 \<Rightarrow> palette_state \<Rightarrow> palette_state" where
  "paletteStep val = (\<lambda>(palette, lookup, indices).
     case map_of lookup val of
       Some index \<Rightarrow> (palette, lookup, indices @ [index])
     | None \<Rightarrow>
         let index = of_nat (length palette)
         in (palette @ [val], AList.update val index lookup, indices @ [index]))"

definition paletteIndices :: "u32 list \<Rightarrow> u32 list \<times> u16 list" where
  "paletteIndices vals =
     (let (palette, lookup, indices) = fold paletteStep vals ([], [], []) in (palette, indices))"

definition paletteBits :: "nat \<Rightarrow> nat" where
  "paletteBits valueCount =
     (case find (\<lambda>bits. valueCount \<le> 2 ^ bits) [0, 1, 2, 3, 4, 5, 6, 8, 16] of
        Some bits \<Rightarrow> bits
      | None \<Rightarrow> 16)"

text \<open>\<^verbatim>\<open>binary.Write(buf, binary.LittleEndian, word)\<close>.\<close>

definition leBytes :: "u32 \<Rightarrow> bytes" where
  "leBytes w = [ucast w, ucast (drop_bit 8 w), ucast (drop_bit 16 w), ucast (drop_bit 24 w)]"

definition packStep :: "nat \<Rightarrow> nat \<times> u16 \<Rightarrow> u32 list \<Rightarrow> u32 list" where
  "packStep bits = (\<lambda>(i, index) words.
     let perWord = 32 div bits; wordIndex = i div perWord; bitOffset = (i mod perWord) * bits
     in words[wordIndex := words ! wordIndex OR push_bit bitOffset (ucast index AND (2 ^ bits - 1))])"

definition packWords :: "u16 list \<Rightarrow> nat \<Rightarrow> u32 list" where
  "packWords indices bits =
     (let perWord = 32 div bits in
      fold (packStep bits) (enumerate 0 indices)
        (replicate ((length indices + perWord - 1) div perWord) 0))"

definition writePackedIndices :: "u16 list \<Rightarrow> nat \<Rightarrow> bytes" where
  "writePackedIndices indices bits = concat (map leBytes (packWords indices bits))"

definition networkEncoding :: u8 where
  "networkEncoding = 1"

definition encodePalettedStorage :: "(u32 \<Rightarrow> bytes) \<Rightarrow> u32 list \<Rightarrow> bytes" where
  "encodePalettedStorage varint vals =
     (let (palette, indices) = paletteIndices vals;
          bits = paletteBits (length palette)
      in [push_bit 1 (of_nat bits) OR networkEncoding] @
         (if bits \<noteq> 0
          then writePackedIndices indices bits @ varint (of_nat (length palette))
          else []) @
         concat (map varint palette))"

section \<open>The reader a client runs\<close>

text \<open>The reference decoder: the header byte, the packed indices, the palette.\<close>

fun leWord :: "bytes \<Rightarrow> (u32 \<times> bytes) option" where
  "leWord (a # b # c # d # rest) =
     Some (ucast a OR push_bit 8 (ucast b) OR push_bit 16 (ucast c) OR push_bit 24 (ucast d), rest)"
| "leWord _ = None"

fun readMany :: "(bytes \<Rightarrow> ('a \<times> bytes) option) \<Rightarrow> nat \<Rightarrow> bytes \<Rightarrow> ('a list \<times> bytes) option" where
  "readMany rd 0 bs = Some ([], bs)"
| "readMany rd (Suc n) bs =
     (case rd bs of
        None \<Rightarrow> None
      | Some (x, bs') \<Rightarrow> map_option (\<lambda>(xs, rest). (x # xs, rest)) (readMany rd n bs'))"

definition unpackWords :: "nat \<Rightarrow> nat \<Rightarrow> u32 list \<Rightarrow> nat list" where
  "unpackWords n bits words =
     (let perWord = 32 div bits in
      map (\<lambda>i. unat (take_bit bits (drop_bit ((i mod perWord) * bits) (words ! (i div perWord))))) [0..<n])"

definition decodeStorage :: "(bytes \<Rightarrow> (u32 \<times> bytes) option) \<Rightarrow> nat \<Rightarrow> bytes \<Rightarrow> (u32 list \<times> bytes) option" where
  "decodeStorage unvarint n bs =
     (case bs of
        [] \<Rightarrow> None
      | header # bs0 \<Rightarrow>
          let bits = unat (drop_bit 1 header) in
          if bits = 0 then map_option (\<lambda>(v, rest). (replicate n v, rest)) (unvarint bs0)
          else
            let perWord = 32 div bits in
            case readMany leWord ((n + perWord - 1) div perWord) bs0 of
              None \<Rightarrow> None
            | Some (words, bs1) \<Rightarrow>
            (case unvarint bs1 of
              None \<Rightarrow> None
            | Some (count, bs2) \<Rightarrow>
                map_option (\<lambda>(palette, rest). (map (\<lambda>i. palette ! i) (unpackWords n bits words), rest))
                  (readMany unvarint (unat count) bs2)))"

definition varint_reader :: "(u32 \<Rightarrow> bytes) \<Rightarrow> (bytes \<Rightarrow> (u32 \<times> bytes) option) \<Rightarrow> bool" where
  "varint_reader varint unvarint \<longleftrightarrow> (\<forall>v rest. unvarint (varint v @ rest) = Some (v, rest))"

section \<open>Palettes\<close>

definition palette_ok :: "u32 list \<Rightarrow> palette_state \<Rightarrow> bool" where
  "palette_ok vals = (\<lambda>(palette, lookup, indices).
     distinct palette \<and> set palette = set vals \<and> length indices = length vals \<and>
     (\<forall>v i. map_of lookup v = Some i \<longleftrightarrow> unat i < length palette \<and> palette ! unat i = v) \<and>
     (\<forall>j < length vals. unat (indices ! j) < length palette \<and> palette ! unat (indices ! j) = vals ! j))"

lemma paletteStep_ok:
  assumes ok: "palette_ok vals (palette, lookup, indices)" and "length vals < 65536"
  shows "palette_ok (vals @ [x]) (paletteStep x (palette, lookup, indices))"
proof -
  have ih: "distinct palette" "set palette = set vals" "length indices = length vals"
    "\<And>v i. map_of lookup v = Some i \<longleftrightarrow> unat i < length palette \<and> palette ! unat i = v"
    "\<And>j. j < length vals \<Longrightarrow> unat (indices ! j) < length palette \<and> palette ! unat (indices ! j) = vals ! j"
    using ok by (auto simp: palette_ok_def)
  have len: "length palette < 65536"
    using ih(1,2) assms(2) by (metis card_length distinct_card order.strict_trans1)
  show ?thesis
  proof (cases "map_of lookup x")
    case (Some i)
    then have i: "unat i < length palette" "palette ! unat i = x" using ih(4) by auto
    have e: "paletteStep x (palette, lookup, indices) = (palette, lookup, indices @ [i])"
      by (simp add: paletteStep_def Some)
    have "x \<in> set vals" using i ih(2) nth_mem by metis
    then show ?thesis
      unfolding e using ih i by (auto simp: palette_ok_def nth_append less_Suc_eq)
  next
    case None
    have u: "unat (of_nat k :: u16) = k" if "k \<le> length palette" for k
      using that len by (simp add: unat_of_nat)
    have new: "x \<notin> set palette"
    proof
      assume "x \<in> set palette"
      then obtain k where "k < length palette" "palette ! k = x" by (auto simp: in_set_conv_nth)
      then show False using ih(4) [of x "of_nat k"] None u [of k] by simp
    qed
    have "map_of (AList.update x (of_nat (length palette)) lookup) v = Some i \<longleftrightarrow>
      unat i < length (palette @ [x]) \<and> (palette @ [x]) ! unat i = v" for v i
    proof (cases "unat i = length palette")
      case True
      moreover have "of_nat (unat i) = i" by simp
      ultimately have "i = of_nat (length palette)" by simp
      with True show ?thesis using ih(4) [of v i] by (auto simp: amap_simps)
    next
      case False
      then have "i \<noteq> of_nat (length palette)" using u by auto
      then show ?thesis using False ih(4) [of v i] new by (auto simp: amap_simps nth_append dest: nth_mem)
    qed
    then show ?thesis
      using ih new u [of "length palette"] None
      by (auto simp: paletteStep_def palette_ok_def Let_def nth_append less_Suc_eq)
  qed
qed

lemma fold_paletteStep: "length vals \<le> 65536 \<Longrightarrow> palette_ok vals (fold paletteStep vals ([], [], []))"
proof (induction vals rule: rev_induct)
  case Nil
  then show ?case by (simp add: palette_ok_def)
next
  case (snoc x vals)
  then have "palette_ok vals (fold paletteStep vals ([], [], []))" by simp
  with snoc.prems show ?case
    using paletteStep_ok [of vals _ _ _ x] by (cases "fold paletteStep vals ([], [], [])") auto
qed

lemma paletteIndices_spec:
  assumes "paletteIndices vals = (palette, indices)" and "length vals \<le> 65536"
  shows "distinct palette" "set palette = set vals" "length indices = length vals"
    "map (\<lambda>i. palette ! unat i) indices = vals" "\<forall>i \<in> set indices. unat i < length palette"
    "length palette \<le> length vals"
proof -
  obtain lookup where "fold paletteStep vals ([], [], []) = (palette, lookup, indices)"
    using assms(1) by (cases "fold paletteStep vals ([], [], [])") (auto simp: paletteIndices_def)
  then have ok: "palette_ok vals (palette, lookup, indices)" using fold_paletteStep [OF assms(2)] by simp
  then show d: "distinct palette" "set palette = set vals" and l: "length indices = length vals"
    by (auto simp: palette_ok_def)
  from ok show "map (\<lambda>i. palette ! unat i) indices = vals" "\<forall>i \<in> set indices. unat i < length palette"
    by (auto simp: palette_ok_def list_eq_iff_nth_eq in_set_conv_nth)
  show "length palette \<le> length vals" using d by (metis card_length distinct_card)
qed

lemma paletteBits_cases:
  "paletteBits n \<in> {0, 1, 2, 3, 4, 5, 6, 8, 16}"
  "n \<le> 65536 \<Longrightarrow> n \<le> 2 ^ paletteBits n"
  by (auto simp: paletteBits_def)

section \<open>Packed indices\<close>

lemma bit_packStep:
  assumes "bits \<noteq> 0" and "bits \<le> 16" and "i div (32 div bits) < length words"
  shows "length (packStep bits (i, index) words) = length words"
    and "w < length words \<Longrightarrow> b < 32 \<Longrightarrow> bit (packStep bits (i, index) words ! w) b \<longleftrightarrow> bit (words ! w) b \<or>
      w = i div (32 div bits) \<and> i mod (32 div bits) * bits \<le> b \<and> b < i mod (32 div bits) * bits + bits \<and>
      bit index (b - i mod (32 div bits) * bits)"
proof -
  have "(2 ^ bits - 1 :: u32) = mask bits" by (simp add: mask_eq_exp_minus_1)
  then show "w < length words \<Longrightarrow> b < 32 \<Longrightarrow> bit (packStep bits (i, index) words ! w) b \<longleftrightarrow> bit (words ! w) b \<or>
      w = i div (32 div bits) \<and> i mod (32 div bits) * bits \<le> b \<and> b < i mod (32 div bits) * bits + bits \<and>
      bit index (b - i mod (32 div bits) * bits)"
    using assms by (auto simp: packStep_def Let_def nth_list_update bit_simps)
qed (simp add: packStep_def Let_def)

lemma bit_packFold:
  assumes "bits \<noteq> 0" and "bits \<le> 16" and "length indices \<le> (32 div bits) * length words"
  defines "p \<equiv> 32 div bits"
  shows "length (fold (packStep bits) (enumerate 0 indices) words) = length words \<and>
    (\<forall>w < length words. \<forall>b < 32. bit (fold (packStep bits) (enumerate 0 indices) words ! w) b \<longleftrightarrow> bit (words ! w) b \<or>
      (\<exists>i < length indices. w = i div p \<and> i mod p * bits \<le> b \<and> b < i mod p * bits + bits \<and>
         bit (indices ! i) (b - i mod p * bits)))"
  using assms(3)
proof (induction indices rule: rev_induct)
  case (snoc x indices)
  let ?f = "fold (packStep bits) (enumerate 0 indices) words"
  have p: "p \<noteq> 0" using assms(1,2) by (auto simp: p_def div_eq_0_iff)
  have "length indices < p * length words" using snoc.prems by (simp add: p_def)
  then have i: "length indices div p < length words" using p by (simp add: div_less_iff_less_mult mult.commute)
  have ih: "length ?f = length words"
    "\<And>w b. w < length words \<Longrightarrow> b < 32 \<Longrightarrow> bit (?f ! w) b \<longleftrightarrow> bit (words ! w) b \<or>
      (\<exists>i < length indices. w = i div p \<and> i mod p * bits \<le> b \<and> b < i mod p * bits + bits \<and>
         bit (indices ! i) (b - i mod p * bits))"
    using snoc by auto
  have e: "fold (packStep bits) (enumerate 0 (indices @ [x])) words = packStep bits (length indices, x) ?f"
    by (simp add: enumerate_append_eq)
  note s = bit_packStep [OF assms(1,2), where i = "length indices" and words = ?f and index = x, folded p_def]
  show ?case
    unfolding e using s ih i by (auto simp: less_Suc_eq nth_append)
qed simp

lemma ceil_div:
  fixes n p :: nat
  assumes "p \<noteq> 0"
  shows "n \<le> p * ((n + p - 1) div p)"
proof -
  have "n + p - 1 = p * ((n + p - 1) div p) + (n + p - 1) mod p" by simp
  moreover have "(n + p - 1) mod p < p" using assms by simp
  ultimately show ?thesis using assms by linarith
qed

lemma perWord_pos: "bits \<noteq> 0 \<Longrightarrow> bits \<le> 16 \<Longrightarrow> 32 div bits \<noteq> (0 :: nat)"
  by (simp add: div_eq_0_iff)

lemma packWords_length:
  assumes "bits \<noteq> 0" and "bits \<le> 16"
  defines "p \<equiv> 32 div bits"
  shows "length (packWords indices bits) = (length indices + p - 1) div p"
    and "i < length indices \<Longrightarrow> i div p < length (packWords indices bits)"
proof -
  have p: "p \<noteq> 0" using perWord_pos [OF assms(1,2)] by (simp add: p_def)
  note n = ceil_div [OF p, of "length indices"]
  show l: "length (packWords indices bits) = (length indices + p - 1) div p"
    using bit_packFold [OF assms(1,2), of indices "replicate ((length indices + p - 1) div p) 0", folded p_def] n
    by (simp add: packWords_def Let_def p_def)
  assume "i < length indices"
  with n have "i < p * ((length indices + p - 1) div p)" by linarith
  then show "i div p < length (packWords indices bits)"
    using l p by (simp add: div_less_iff_less_mult mult.commute)
qed

lemma bit_packWords:
  assumes "bits \<noteq> 0" and "bits \<le> 16" and "w < length (packWords indices bits)" and "b < 32"
  defines "p \<equiv> 32 div bits"
  shows "bit (packWords indices bits ! w) b \<longleftrightarrow>
      (\<exists>i < length indices. w = i div p \<and> i mod p * bits \<le> b \<and> b < i mod p * bits + bits \<and>
         bit (indices ! i) (b - i mod p * bits))"
proof -
  have p: "p \<noteq> 0" using perWord_pos [OF assms(1,2)] by (simp add: p_def)
  let ?n = "(length indices + p - 1) div p"
  have "w < ?n" using assms(3) packWords_length(1) [OF assms(1,2), of indices] by (simp add: p_def)
  then show ?thesis
    using bit_packFold [OF assms(1,2), of indices "replicate ?n 0", folded p_def] ceil_div [OF p, of "length indices"] assms(4)
    by (simp add: packWords_def Let_def p_def)
qed

lemma slot_unique:
  fixes a b j bits :: nat
  assumes "a * bits \<le> b * bits + j" and "b * bits + j < a * bits + bits" and "j < bits"
  shows "a = b"
proof -
  have "(b * bits + j) div bits = b" using assms(3) by simp
  moreover have "(b * bits + j) div bits = a"
    using assms(1,2) by (intro div_nat_eqI) (simp_all add: mult.commute add.commute)
  ultimately show ?thesis by simp
qed

lemma unpack_pack:
  assumes "bits \<noteq> 0" and "bits \<le> 16" and "\<forall>i \<in> set indices. unat i < 2 ^ bits"
  shows "unpackWords (length indices) bits (packWords indices bits) = map unat indices"
proof (rule nth_equalityI)
  fix i assume "i < length (unpackWords (length indices) bits (packWords indices bits))"
  then have i: "i < length indices" by (simp add: unpackWords_def Let_def)
  define p where "p = 32 div bits"
  have p: "p \<noteq> 0" "p * bits \<le> 32" using assms(1,2) by (auto simp: p_def div_eq_0_iff)
  let ?w = "packWords indices bits ! (i div p)" and ?o = "i mod p * bits"
  have w: "i div p < length (packWords indices bits)"
    using packWords_length(2) [OF assms(1,2) i] by (simp add: p_def)
  have "(i mod p + 1) * bits \<le> p * bits" using p(1) by (intro mult_right_mono) (simp_all add: Suc_le_eq)
  then have off: "?o + bits \<le> 32" using p(2) by simp
  have "take_bit bits (drop_bit ?o ?w) = ucast (take_bit bits (indices ! i))"
  proof (rule bit_word_eqI)
    fix j assume "j < LENGTH(32)"
    have "bit ?w (?o + j) \<longleftrightarrow> bit (indices ! i) j" if "j < bits"
    proof -
      have ex: "bit ?w (?o + j) \<longleftrightarrow> (\<exists>i' < length indices. i div p = i' div p \<and> i' mod p * bits \<le> ?o + j \<and>
          ?o + j < i' mod p * bits + bits \<and> bit (indices ! i') (?o + j - i' mod p * bits))"
        using bit_packWords [OF assms(1,2) w, of "?o + j"] that off by (simp add: p_def)
      have un: "i' = i" if "i div p = i' div p" "i' mod p * bits \<le> ?o + j" "?o + j < i' mod p * bits + bits" for i'
        using slot_unique [OF that(2,3) \<open>j < bits\<close>] that(1) by (metis div_mult_mod_eq)
      show ?thesis
      proof
        assume "bit ?w (?o + j)"
        then obtain i' where h: "i div p = i' div p" "i' mod p * bits \<le> ?o + j" "?o + j < i' mod p * bits + bits"
          "bit (indices ! i') (?o + j - i' mod p * bits)" using ex by blast
        from un [OF h(1-3)] h(4) show "bit (indices ! i) j" by simp
      next
        assume "bit (indices ! i) j"
        then show "bit ?w (?o + j)" unfolding ex using i that by (intro exI [of _ i]) simp
      qed
    qed
    then show "bit (take_bit bits (drop_bit ?o ?w)) j \<longleftrightarrow> bit (ucast (take_bit bits (indices ! i)) :: u32) j"
      using off assms(2) by (auto simp: bit_simps add.commute)
  qed
  moreover have "take_bit bits (indices ! i) = indices ! i"
    unfolding word_unat_eq_iff using assms(3) i by (simp add: unsigned_take_bit_eq take_bit_nat_eq_self)
  ultimately have "take_bit bits (drop_bit ?o ?w) = ucast (indices ! i)" by simp
  moreover have "unat (ucast (indices ! i) :: u32) = unat (indices ! i)"
    using unsigned_less [of "indices ! i", where 'a = nat] by (simp add: unsigned_ucast_eq take_bit_nat_eq_self)
  ultimately have "unat (take_bit bits (drop_bit ?o ?w)) = unat (indices ! i)" by simp
  then show "unpackWords (length indices) bits (packWords indices bits) ! i = map unat indices ! i"
    using i by (simp add: unpackWords_def Let_def p_def)
qed (simp add: unpackWords_def Let_def)

section \<open>Round trip\<close>

lemma leWord_leBytes: "leWord (leBytes w @ rest) = Some (w, rest)"
proof -
  let ?v = "ucast (ucast w :: u8) OR push_bit 8 (ucast (ucast (drop_bit 8 w) :: u8)) OR
    push_bit 16 (ucast (ucast (drop_bit 16 w) :: u8)) OR push_bit 24 (ucast (ucast (drop_bit 24 w) :: u8)) :: u32"
  have "?v = w"
  proof (rule bit_word_eqI)
    fix n assume "n < LENGTH(32)"
    then consider "n < 8" | "8 \<le> n" "n < 16" | "16 \<le> n" "n < 24" | "24 \<le> n" "n < 32" by fastforce
    then show "bit ?v n = bit w n" by cases (auto simp: bit_simps)
  qed
  then show ?thesis by (simp add: leBytes_def)
qed

lemma readMany_concat:
  assumes "\<And>x rest. rd (wr x @ rest) = Some (x, rest)"
  shows "readMany rd (length xs) (concat (map wr xs) @ rest) = Some (xs, rest)"
  by (induction xs) (simp_all add: assms)

lemma header_bits:
  assumes "bits \<in> {0, 1, 2, 3, 4, 5, 6, 8, 16 :: nat}"
  shows "unat (drop_bit 1 (push_bit 1 (of_nat bits) OR networkEncoding)) = bits"
  using assms by (auto simp: networkEncoding_def)

lemma decode_encode_storage:
  assumes "varint_reader varint unvarint" and "vals \<noteq> []" and "length vals \<le> 65536"
  shows "decodeStorage unvarint (length vals) (encodePalettedStorage varint vals @ rest) = Some (vals, rest)"
proof -
  obtain palette indices where p: "paletteIndices vals = (palette, indices)" by (cases "paletteIndices vals")
  note s = paletteIndices_spec [OF p assms(3)]
  have v: "unvarint (varint x @ r) = Some (x, r)" for x r using assms(1) by (simp add: varint_reader_def)
  let ?b = "paletteBits (length palette)"
  have b: "?b \<in> {0, 1, 2, 3, 4, 5, 6, 8, 16}" "length palette \<le> 2 ^ ?b"
    using paletteBits_cases s(6) assms(3) by (blast, simp add: order.trans)
  note h = header_bits [OF b(1)]
  show ?thesis
  proof (cases "?b = 0")
    case True
    with b(2) have "length palette \<le> 1" by simp
    moreover have "palette \<noteq> []" using s(2) assms(2) by auto
    ultimately obtain x where x: "palette = [x]" by (cases palette) auto
    then have "vals = replicate (length vals) x" using s(2) by (intro replicate_eqI) auto
    then show ?thesis
      using p True x h by (simp add: encodePalettedStorage_def decodeStorage_def v)
  next
    case False
    have le: "?b \<le> 16" using b(1) by auto
    have "\<forall>i \<in> set indices. unat i < 2 ^ ?b" using s(5) b(2) by (meson order.strict_trans2)
    then have u: "unpackWords (length vals) ?b (packWords indices ?b) = map unat indices"
      using unpack_pack [OF False le, of indices] s(3) by simp
    have "unat (of_nat (length palette) :: u32) = length palette"
      using s(6) assms(3) by (simp add: unat_of_nat)
    then have pal: "readMany unvarint (unat (of_nat (length palette) :: u32)) (concat (map varint palette) @ rest) = Some (palette, rest)"
      using readMany_concat [of unvarint varint palette rest, OF v] by simp
    have wd: "readMany leWord ((length vals + 32 div ?b - 1) div (32 div ?b)) (writePackedIndices indices ?b @ r)
      = Some (packWords indices ?b, r)" for r
      using readMany_concat [of leWord leBytes "packWords indices ?b" r, OF leWord_leBytes]
        packWords_length(1) [OF False le, of indices] s(3) by (simp add: writePackedIndices_def)
    have "map (\<lambda>i. palette ! i) (map unat indices) = vals" using s(4) by (simp add: comp_def)
    then show ?thesis
      using p False h u pal wd by (simp add: encodePalettedStorage_def decodeStorage_def Let_def v)
  qed
qed

text \<open>A fixed-width writer is enough to show that the hypothesis can hold.\<close>

lemma leBytes_reader: "varint_reader leBytes leWord"
  by (simp add: varint_reader_def leWord_leBytes)

end
