(* ===== verification/Chunk_Publisher.thy ===== *)
theory Chunk_Publisher
  imports Flat Storage
begin

unbundle bit_operations_syntax

text \<open>
  Building the chunk packets (\<^verbatim>\<open>internal/server/chunk_publisher.go\<close>): which chunks are sent and in
  which order, the payload of level chunks and sub-chunks, height maps, the answers to
  sub-chunk requests. Sending them over a connection is in \<open>World_Sync\<close>.

  The interface \<^verbatim>\<open>ChunkProvider\<close> is a record of functions; \<open>flatProvider\<close> is the implementation the
  server uses. Each call that takes a context gets the answers its polls would see.
\<close>

record ChunkProvider =
  provChunk :: "ctx_polls \<Rightarrow> ChunkPos \<Rightarrow> flat_error + Chunk"
  provDimension :: Dimension
  provSpawn :: Vec3
  provSpawnBlock :: BlockPos

definition flatProvider :: "nbt_encoder \<Rightarrow> FlatGenerator \<Rightarrow> ChunkProvider" where
  "flatProvider enc g =
     \<lparr>provChunk = FlatChunk enc g, provDimension = GenDimension g, provSpawn = Spawn g, provSpawnBlock = SpawnBlock g\<rparr>"

record chunkPublisher =
  pubSource :: ChunkProvider
  pubRadius :: int

definition newChunkPublisher :: "ChunkProvider \<Rightarrow> int \<Rightarrow> chunkPublisher" where
  "newChunkPublisher source radius = \<lparr>pubSource = source, pubRadius = (if radius < 1 then 1 else radius)\<rparr>"

section \<open>Which chunks are sent\<close>

definition absInt32 :: "int \<Rightarrow> int" where
  "absInt32 v = (if v < 0 then i32 (- v) else v)"

definition ring :: "ChunkPos \<Rightarrow> int \<Rightarrow> ChunkPos list" where
  "ring center distance =
     concat (map (\<lambda>x. concat (map (\<lambda>z.
       if max (absInt32 x) (absInt32 z) \<noteq> distance then []
       else [\<lparr>chunkX = i32 (chunkX center + x), chunkZ = i32 (chunkZ center + z)\<rparr>])
         [- distance..distance])) [- distance..distance])"

text \<open>
  \<^verbatim>\<open>make\<close> panics when the capacity, computed in \<^verbatim>\<open>int32\<close>, is negative; the outer loop never ends at
  the largest \<^verbatim>\<open>int32\<close>. Both are \<open>None\<close>.
\<close>

definition chunkPositions :: "ChunkPos \<Rightarrow> int \<Rightarrow> ChunkPos list option" where
  "chunkPositions center radius =
     (let side = i32 (i32 (radius * 2) + 1) in
      if i32 (side * side) < 0 \<or> radius = 2 ^ 31 - 1 then None
      else Some (concat (map (ring center) [0..radius])))"

section \<open>Payloads\<close>

definition cellX :: "nat \<Rightarrow> u8" where
  "cellX i = of_nat (i div 256)"

definition cellZ :: "nat \<Rightarrow> u8" where
  "cellZ i = of_nat (i div 16 mod 16)"

definition cellY :: "nat \<Rightarrow> int" where
  "cellY i = int (i mod 16)"

definition blockValues :: "Chunk \<Rightarrow> int \<Rightarrow> u8 \<Rightarrow> u32 list" where
  "blockValues chunk index layer =
     map (\<lambda>i. RuntimeID chunk (cellX i) (i16 (SubY chunk index + cellY i)) (cellZ i) layer) [0..<4096]"

definition encodeBlockStorage :: "(u32 \<Rightarrow> bytes) \<Rightarrow> Chunk \<Rightarrow> int \<Rightarrow> u8 \<Rightarrow> bytes" where
  "encodeBlockStorage varint chunk index layer = encodePalettedStorage varint (blockValues chunk index layer)"

definition biomeValues :: "Chunk \<Rightarrow> int \<Rightarrow> u32 list" where
  "biomeValues chunk index =
     map (\<lambda>i. BiomeID chunk (cellX i) (i16 (SubY chunk index + cellY i)) (cellZ i)) [0..<4096]"

definition encodeBiomes :: "(u32 \<Rightarrow> bytes) \<Rightarrow> Chunk \<Rightarrow> bytes" where
  "encodeBiomes varint chunk =
     concat (map (\<lambda>index. encodePalettedStorage varint (biomeValues chunk index))
       [0..int (length (subChunks chunk)) - 1])"

definition subChunkVersion :: u8 where
  "subChunkVersion = 9"

text \<open>The layer counter is a \<^verbatim>\<open>uint8\<close> that is compared with an \<^verbatim>\<open>int\<close>: it may wrap around.\<close>

partial_function (option) layerLoop :: "(u32 \<Rightarrow> bytes) \<Rightarrow> Chunk \<Rightarrow> int \<Rightarrow> int \<Rightarrow> u8 \<Rightarrow> bytes \<Rightarrow> bytes option" where
  "layerLoop varint chunk index storageCount layer buf =
     (if uint layer < storageCount
      then layerLoop varint chunk index storageCount (layer + 1) (buf @ encodeBlockStorage varint chunk index layer)
      else Some buf)"

definition encodeSubChunk :: "(u32 \<Rightarrow> bytes) \<Rightarrow> Chunk \<Rightarrow> int \<Rightarrow> bytes option" where
  "encodeSubChunk varint chunk index =
     (let storageCount = SubChunkLayerCount chunk index in
      layerLoop varint chunk index storageCount 0
        [subChunkVersion, word_of_int storageCount, word_of_int (i32 (i32 index + MinSubY (dimension chunk)))])"

datatype subChunkMode = SubChunkRequestModeLimited

record LevelChunk =
  lcPosition :: ChunkPos
  lcDimension :: int
  lcSubChunkCount :: subChunkMode
  lcHighestSubChunk :: u16
  lcCacheEnabled :: bool
  lcRawPayload :: bytes

definition levelChunkPacket :: "(u32 \<Rightarrow> bytes) \<Rightarrow> Chunk \<Rightarrow> LevelChunk" where
  "levelChunkPacket varint chunk =
     \<lparr>lcPosition = position chunk, lcDimension = ID (dimension chunk), lcSubChunkCount = SubChunkRequestModeLimited,
      lcHighestSubChunk = HighestFilledSubChunk chunk, lcCacheEnabled = False,
      lcRawPayload = encodeBiomes varint chunk @ [0]\<rparr>"

section \<open>Sub-chunk requests\<close>

datatype heightMapType = HeightMapDataNone | HeightMapDataHasData | HeightMapDataTooHigh | HeightMapDataTooLow

text \<open>The loops over the columns: the data, and whether all columns are higher or all lower.\<close>

definition heightStep :: "Chunk \<Rightarrow> int \<Rightarrow> u8 \<times> u8 \<Rightarrow> int list \<times> bool \<times> bool \<Rightarrow> int list \<times> bool \<times> bool" where
  "heightStep chunk index = (\<lambda>(x, z) (data, higher, lower).
     let y = HighestBlockY chunk x z 0;
         i = unat (push_bit 4 (ucast z :: u16) OR ucast x);
         otherIndex = SubIndex chunk y
     in if otherIndex > index then (data[i := 16], higher, False)
        else if otherIndex < index then (data[i := -1], False, lower)
        else (data[i := signed_wrap 8 (i16 (y - SubY chunk otherIndex))], False, False))"

definition subChunkHeightMap :: "Chunk \<Rightarrow> int \<Rightarrow> heightMapType \<times> int list option" where
  "subChunkHeightMap chunk index =
     (let (data, higher, lower) = fold (heightStep chunk index) columns (replicate 256 0, True, True) in
      if higher then (HeightMapDataTooHigh, None)
      else if lower then (HeightMapDataTooLow, None)
      else (HeightMapDataHasData, Some data))"

datatype subChunkResult =
    SubChunkResultUnset
  | SubChunkResultSuccess
  | SubChunkResultInvalidDimension
  | SubChunkResultIndexOutOfBounds
  | SubChunkResultSuccessAllAir

record SubChunkRequest =
  scDimension :: int
  scPosition :: "int \<times> int \<times> int"
  scOffsets :: "(int \<times> int \<times> int) list"

record SubChunkEntry =
  entryOffset :: "int \<times> int \<times> int"
  entryResult :: subChunkResult
  entryRawPayload :: bytes
  entryHeightMapType :: heightMapType
  entryHeightMapData :: "int list option"
  entryRenderHeightMapType :: heightMapType
  entryRenderHeightMapData :: "int list option"

record SubChunkPacket =
  spCacheEnabled :: bool
  spDimension :: int
  spPosition :: "int \<times> int \<times> int"
  spEntries :: "SubChunkEntry list"

datatype sub_error = SubGenerate flat_error | SubContext ctx_error | SubNoReturn

definition newEntry :: "int \<times> int \<times> int \<Rightarrow> subChunkResult \<Rightarrow> SubChunkEntry" where
  "newEntry offset result =
     \<lparr>entryOffset = offset, entryResult = result, entryRawPayload = [], entryHeightMapType = HeightMapDataNone,
      entryHeightMapData = None, entryRenderHeightMapType = HeightMapDataNone, entryRenderHeightMapData = None\<rparr>"

definition subChunkEntry ::
  "(u32 \<Rightarrow> bytes) \<Rightarrow> ctx_polls \<Rightarrow> ChunkProvider \<Rightarrow> Dimension \<Rightarrow> SubChunkRequest \<Rightarrow> int \<times> int \<times> int \<Rightarrow>
     sub_error + SubChunkEntry"
where
  "subChunkEntry varint ctx source dm request offset =
     (let (px, py, pz) = scPosition request; (ox, oy, oz) = offset;
          targetY = i32 (py + oy); minSubY = MinSubY dm; maxSubY = MaxSubY dm
      in if scDimension request \<noteq> ID dm then Inr (newEntry offset SubChunkResultInvalidDimension)
         else if targetY < minSubY \<or> targetY > maxSubY
         then Inr (newEntry offset SubChunkResultIndexOutOfBounds)
         else case provChunk source ctx \<lparr>chunkX = i32 (px + ox), chunkZ = i32 (pz + oz)\<rparr> of
           Inl e \<Rightarrow> Inl (SubGenerate e)
         | Inr chunk \<Rightarrow>
             let index = i32 (targetY - minSubY) in
             if index < 0 \<or> index \<ge> int (length (subChunks chunk))
             then Inr (newEntry offset SubChunkResultIndexOutOfBounds)
             else
               let (hType, hData) = subChunkHeightMap chunk index;
                   withMaps = (\<lambda>entry. entry\<lparr>entryHeightMapType := hType, entryHeightMapData := hData,
                     entryRenderHeightMapType := hType, entryRenderHeightMapData := hData\<rparr>)
               in if SubChunkEmpty chunk index
                  then Inr (withMaps (newEntry offset SubChunkResultSuccessAllAir))
                  else case encodeSubChunk varint chunk index of
                    None \<Rightarrow> Inl SubNoReturn
                  | Some payload \<Rightarrow>
                      Inr (withMaps ((newEntry offset SubChunkResultSuccess)\<lparr>entryRawPayload := payload\<rparr>)))"

text \<open>\<open>ctx n\<close> are the polls around the \<open>n\<close>-th offset: the loop's own poll first, then the provider's.\<close>

fun subChunkEntries ::
  "(u32 \<Rightarrow> bytes) \<Rightarrow> (nat \<Rightarrow> ctx_polls) \<Rightarrow> ChunkProvider \<Rightarrow> SubChunkRequest \<Rightarrow> (nat \<times> int \<times> int \<times> int) list \<Rightarrow>
     sub_error + SubChunkEntry list"
where
  "subChunkEntries varint ctx source request [] = Inr []"
| "subChunkEntries varint ctx source request ((n, offset) # offsets) =
     (case ctx n 0 of
        Some e \<Rightarrow> Inl (SubContext e)
      | None \<Rightarrow>
      (case subChunkEntry varint (\<lambda>k. ctx n (Suc k)) source (provDimension source) request offset of
        Inl e \<Rightarrow> Inl e
      | Inr entry \<Rightarrow> map_sum id (\<lambda>entries. entry # entries) (subChunkEntries varint ctx source request offsets)))"

definition subChunkPacket ::
  "(u32 \<Rightarrow> bytes) \<Rightarrow> (nat \<Rightarrow> ctx_polls) \<Rightarrow> ChunkProvider \<Rightarrow> SubChunkRequest \<Rightarrow> sub_error + SubChunkPacket"
where
  "subChunkPacket varint ctx source request =
     map_sum id (\<lambda>entries. \<lparr>spCacheEnabled = False, spDimension = scDimension request, spPosition = scPosition request, spEntries = entries\<rparr>)
       (subChunkEntries varint ctx source request (enumerate 0 (scOffsets request)))"

section \<open>The positions form the square around the centre, nearest first\<close>

definition cheb :: "int \<times> int \<Rightarrow> int" where
  "cheb = (\<lambda>(x, z). max \<bar>x\<bar> \<bar>z\<bar>)"

definition place :: "ChunkPos \<Rightarrow> int \<times> int \<Rightarrow> ChunkPos" where
  "place center = (\<lambda>(x, z). \<lparr>chunkX = i32 (chunkX center + x), chunkZ = i32 (chunkZ center + z)\<rparr>)"

definition ringOffsets :: "int \<Rightarrow> (int \<times> int) list" where
  "ringOffsets d = filter (\<lambda>p. cheb p = d) (List.product [- d..d] [- d..d])"

definition square :: "int \<Rightarrow> (int \<times> int) set" where
  "square r = {(x, z). \<bar>x\<bar> \<le> r \<and> \<bar>z\<bar> \<le> r}"

lemma concat_map_filter_product:
  "concat (map (\<lambda>x. concat (map (\<lambda>z. if P (x, z) then [] else [f (x, z)]) ys)) xs) =
     map f (filter (\<lambda>p. \<not> P p) (List.product xs ys))"
proof (induction xs)
  case (Cons x xs)
  have "concat (map (\<lambda>z. if P (x, z) then [] else [f (x, z)]) ys) = map f (filter (\<lambda>p. \<not> P p) (map (Pair x) ys))"
    by (induction ys) auto
  with Cons show ?case by simp
qed simp

lemma absInt32_abs: "- (2 ^ 31) < v \<Longrightarrow> v < 2 ^ 31 \<Longrightarrow> absInt32 v = \<bar>v\<bar>"
  by (simp add: absInt32_def)

lemma ring_offsets:
  assumes "d < 2 ^ 31"
  shows "ring center d = map (place center) (ringOffsets d)"
proof -
  have "ring center d = concat (map (\<lambda>x. concat (map (\<lambda>z. if cheb (x, z) \<noteq> d then [] else [place center (x, z)])
      [- d..d])) [- d..d])"
    unfolding ring_def using assms
    by (intro arg_cong [of _ _ concat] map_cong refl) (auto simp: absInt32_abs cheb_def place_def intro!: arg_cong [of _ _ concat])
  then show ?thesis
    using concat_map_filter_product [of "\<lambda>p. cheb p \<noteq> d" "place center" "[- d..d]" "[- d..d]"]
    by (simp add: ringOffsets_def)
qed

lemma set_ringOffsets: "set (ringOffsets d) = {p. cheb p = d}"
  by (auto simp: ringOffsets_def cheb_def max_def split: if_splits)

lemma rings_spec:
  "distinct (concat (map ringOffsets [0..int n - 1])) \<and>
   set (concat (map ringOffsets [0..int n - 1])) = {p. cheb p < int n} \<and>
   sorted (map cheb (concat (map ringOffsets [0..int n - 1])))"
proof (induction n)
  case 0
  then show ?case by (auto simp: cheb_def)
next
  case (Suc n)
  have "[0..int (Suc n) - 1] = [0..int n - 1] @ [int n]" using upto_rec2 [of 0 "int n"] by simp
  then have e: "concat (map ringOffsets [0..int (Suc n) - 1]) = concat (map ringOffsets [0..int n - 1]) @ ringOffsets (int n)"
    by simp
  have d: "distinct (ringOffsets (int n))" by (simp add: ringOffsets_def distinct_product)
  have s: "sorted (map cheb (ringOffsets (int n)))"
  proof -
    have "map cheb (ringOffsets (int n)) = replicate (length (ringOffsets (int n))) (int n)"
      by (rule replicate_eqI) (auto simp: set_ringOffsets)
    then show ?thesis by simp
  qed
  have "set (concat (map ringOffsets [0..int n - 1])) \<inter> set (ringOffsets (int n)) = {}"
    using Suc by (auto simp: set_ringOffsets)
  moreover have "{p. cheb p < int (Suc n)} = {p. cheb p < int n} \<union> {p. cheb p = int n}" by auto
  ultimately show ?case
    unfolding e using Suc d s by (auto simp: sorted_append set_ringOffsets simp del: upto.simps set_concat)
qed

lemma i32_add_inject:
  assumes "i32 (c + x) = i32 (c + y)" and "\<bar>x\<bar> < 2 ^ 31" and "\<bar>y\<bar> < 2 ^ 31"
  shows "x = y"
proof -
  have "(c + x) mod 2 ^ 32 = (c + y) mod 2 ^ 32" using assms(1) by (simp only: i32_eq_iff)
  then have "(2 ^ 32 :: int) dvd x - y" by (metis add_diff_cancel_left mod_eq_dvd_iff)
  then obtain k where "x - y = 2 ^ 32 * k" by (elim dvdE)
  moreover have "\<bar>x - y\<bar> < 2 ^ 32" using assms(2,3) by (auto simp: abs_if split: if_splits)
  ultimately have "\<bar>k\<bar> < 1" by (simp add: abs_mult)
  then show ?thesis using \<open>x - y = 2 ^ 32 * k\<close> by simp
qed

lemma place_inj: "r < 2 ^ 31 \<Longrightarrow> inj_on (place center) (square r)"
  by (rule inj_onI) (auto simp: place_def square_def dest!: i32_add_inject)

lemma card_square: "0 \<le> r \<Longrightarrow> card (square r) = nat ((2 * r + 1) * (2 * r + 1))"
proof -
  assume "0 \<le> r"
  have "square r = {- r..r} \<times> {- r..r}" by (auto simp: square_def)
  then show ?thesis using \<open>0 \<le> r\<close> by (simp add: card_cartesian_product nat_mult_distrib)
qed

lemma chunkPositions_offsets:
  assumes "0 \<le> r" and "r \<le> 23169"
  shows "chunkPositions center r = Some (map (place center) (concat (map ringOffsets [0..r])))"
proof -
  have "(r * 2 + 1) * (r * 2 + 1) \<le> (23169 * 2 + 1) * (23169 * 2 + 1)"
    using assms by (intro mult_mono) simp_all
  moreover have z: "0 \<le> (r * 2 + 1) * (r * 2 + 1)" using assms by simp
  moreover have "in_i32 q" if "q \<le> (23169 * 2 + 1) * (23169 * 2 + 1)" "0 \<le> q" for q :: int
    using that by simp
  ultimately have "in_i32 ((r * 2 + 1) * (r * 2 + 1))" by blast
  then have "0 \<le> i32 ((r * 2 + 1) * (r * 2 + 1))"
    using z by (simp only: i32_id)
  then have "\<not> i32 (i32 (i32 (r * 2) + 1) * i32 (i32 (r * 2) + 1)) < 0"
    using assms by simp
  moreover have "concat (map (ring center) [0..r]) = map (place center) (concat (map ringOffsets [0..r]))"
    using assms by (auto simp: map_concat comp_def ring_offsets intro!: arg_cong [of _ _ concat] map_cong)
  ultimately show ?thesis using assms by (simp add: chunkPositions_def Let_def)
qed

text \<open>
  C30. The initial chunks are exactly the square of the view radius around the spawn chunk: for
  every radius from 0 to 23169 the list exists, has \<open>(2r+1)^2\<close> entries without repetition, contains
  the chunk at every offset of at most \<open>r\<close> in each coordinate (with \<^verbatim>\<open>int32\<close> wrap-around at the edge of
  the world) and nothing else, and is ordered by the distance from the centre, nearest first.
\<close>

theorem chunk_positions_square:
  assumes "0 \<le> r" and "r \<le> 23169"
  shows "\<exists>offs. chunkPositions center r = Some (map (place center) offs) \<and> set offs = square r \<and>
    sorted (map cheb offs) \<and> distinct (map (place center) offs) \<and> length offs = nat ((2 * r + 1) * (2 * r + 1))"
proof -
  let ?offs = "concat (map ringOffsets [0..r])"
  have r: "[0..r] = [0..int (nat (r + 1)) - 1]" "{p. cheb p < int (nat (r + 1))} = square r"
    using assms by (auto simp: cheb_def square_def)
  note s = rings_spec [of "nat (r + 1)", folded r(1), unfolded r(2)]
  then have d: "distinct (map (place center) ?offs)"
    using place_inj [of r center] assms by (simp add: distinct_map del: upto.simps set_concat)
  have "length ?offs = card (set ?offs)" using s distinct_card by metis
  then have "length ?offs = nat ((2 * r + 1) * (2 * r + 1))"
    using s card_square [OF assms(1)] by simp
  then show ?thesis
    using s d chunkPositions_offsets [OF assms] by (intro exI [of _ ?offs]) (simp del: upto.simps set_concat)
qed

text \<open>Witness of \<open>chunk_positions_square\<close>: the nine chunks of radius 1.\<close>

theorem chunk_positions_square_witness:
  "\<exists>offs. chunkPositions \<lparr>chunkX = 5, chunkZ = -2\<rparr> 1 = Some (map (place \<lparr>chunkX = 5, chunkZ = -2\<rparr>) offs) \<and>
     set offs = square 1 \<and> length offs = 9"
  using chunk_positions_square [of 1 "\<lparr>chunkX = 5, chunkZ = -2\<rparr>"] by auto

text \<open>
  C32. A view distance of 23170 to 32767 chunks, which the configuration accepts, makes the
  server panic instead: the capacity of the position list overflows \<^verbatim>\<open>int32\<close> and is negative.
\<close>

theorem chunk_positions_panics:
  assumes "23170 \<le> r" and "r \<le> 32767"
  shows "chunkPositions center r = None"
proof -
  have "(23170 * 2 + 1) * (23170 * 2 + 1) \<le> (r * 2 + 1) * (r * 2 + 1)"
    using assms by (intro mult_mono) simp_all
  moreover have "(r * 2 + 1) * (r * 2 + 1) \<le> (32767 * 2 + 1) * (32767 * 2 + 1)"
    using assms by (intro mult_mono) simp_all
  ultimately have b: "2 ^ 31 \<le> (r * 2 + 1) * (r * 2 + 1)" "(r * 2 + 1) * (r * 2 + 1) < 2 ^ 32" by simp_all
  have "i32 x = x - 2 ^ 32" if "2 ^ 31 \<le> x" "x < 2 ^ 32" for x
    using that by (simp add: signed_wrap_def) (simp add: mod_pos_geq)?
  from this [OF b] b(2) have "i32 ((r * 2 + 1) * (r * 2 + 1)) < 0" by linarith
  then show ?thesis using assms by (simp add: chunkPositions_def)
qed

text \<open>Witness of \<open>chunk_positions_panics\<close>.\<close>

theorem chunk_positions_panics_witness: "chunkPositions \<lparr>chunkX = 0, chunkZ = 0\<rparr> 30000 = None"
  by (rule chunk_positions_panics) simp_all

section \<open>Sub-chunk payloads\<close>

lemma layerLoop_steps:
  assumes "uint layer + int n = count" and "count \<le> 255"
  shows "layerLoop varint c index count layer buf =
    Some (buf @ concat (map (\<lambda>l. encodeBlockStorage varint c index (of_nat l)) [unat layer..<unat layer + n]))"
  using assms
proof (induction n arbitrary: layer buf)
  case 0
  then show ?case by (subst layerLoop.simps) simp
next
  case (Suc n)
  have "uint layer + 1 < 256" using Suc.prems by linarith
  then have l: "uint (layer + 1) = uint layer + 1" by (simp add: uint_word_ariths)
  then have l': "unat (layer + 1) = Suc (unat layer)"
    by (metis Suc_as_int of_nat_Suc of_nat_eq_iff uint_nat add.commute)
  have "[unat layer..<unat layer + Suc n] = unat layer # [Suc (unat layer)..<Suc (unat layer) + n]"
    by (simp add: upt_conv_Cons)
  then show ?case
    using Suc.IH [of "layer + 1" "buf @ encodeBlockStorage varint c index layer"] Suc.prems l l'
    by (subst layerLoop.simps) simp
qed

lemma layerLoop_256: "layerLoop varint c index 256 layer buf \<noteq> Some bs"
proof
  have "count \<noteq> 256" if "layerLoop varint c index count layer buf = Some bs" for count
  proof (rule layerLoop.raw_induct [where P = "\<lambda>varint c index count layer buf bs. count \<noteq> 256", OF _ that])
    fix loop varint' c' index' count' buf' bs' and layer' :: u8
    assume ih: "\<And>v c i n l b y. loop v c i n l b = Some y \<Longrightarrow> n \<noteq> 256"
      and s: "(if uint layer' < count'
         then loop varint' c' index' count' (layer' + 1) (buf' @ encodeBlockStorage varint' c' index' layer')
         else Some buf') = Some bs'"
    show "count' \<noteq> 256" using ih s uint_bounded [of layer'] by (auto split: if_splits)
  qed
  moreover assume "layerLoop varint c index 256 layer buf = Some bs"
  ultimately show False by blast
qed

lemma layerCount_bounds:
  assumes "0 \<le> i" and "i < int (length (subChunks c))"
  shows "0 \<le> SubChunkLayerCount c i" and "SubChunkLayerCount c i \<le> 256"
proof -
  let ?xs = "map (uint \<circ> fst) (filter (\<lambda>(l, b). b \<noteq> []) (subChunks c ! nat i))"
  have n: "SubChunkLayerCount c i = fold max ?xs (-1) + 1"
    using assms by (simp add: SubChunkLayerCount_def fold_highest)
  have "uint l \<le> 255" for l :: u8 using uint_bounded [of l] by simp
  then show "0 \<le> SubChunkLayerCount c i" "SubChunkLayerCount c i \<le> 256"
    using fold_max_bounds [of ?xs "-1"] by (auto simp: n)
qed

lemma layerCount_air:
  assumes "0 \<le> i" and "i < int (length (subChunks c))" and "uint l \<ge> SubChunkLayerCount c i"
  shows "stored_at (subChunks c ! nat i) l k = None"
proof (rule ccontr)
  let ?sub = "subChunks c ! nat i"
  let ?xs = "map (uint \<circ> fst) (filter (\<lambda>(l, b). b \<noteq> []) ?sub)"
  assume "stored_at ?sub l k \<noteq> None"
  then obtain b where "map_of ?sub l = Some b" "map_of b k \<noteq> None"
    by (cases "map_of ?sub l") (auto simp: stored_at_def layerBlocks_def)
  then have "(l, b) \<in> set ?sub" "b \<noteq> []" by (auto dest: map_of_SomeD)
  then have "uint l \<in> set ?xs" by force
  then have "uint l \<le> fold max ?xs (-1)" using fold_max_bounds [of ?xs "-1"] by blast
  then show False using assms by (simp add: SubChunkLayerCount_def fold_highest)
qed

text \<open>
  C31. Encoding a sub-chunk terminates exactly when no block lies in layer 255: for at most 255
  layers the loop returns a payload, while with 256 layers the \<^verbatim>\<open>uint8\<close> loop counter wraps to 0
  before it reaches the bound and the loop never ends.
\<close>

theorem sub_chunk_encoding_terminates:
  assumes "0 \<le> i" and "i < int (length (subChunks c))"
  shows "(\<exists>bs. encodeSubChunk varint c i = Some bs) \<longleftrightarrow> SubChunkLayerCount c i \<le> 255"
proof (cases "SubChunkLayerCount c i \<le> 255")
  case True
  then show ?thesis
    using layerLoop_steps [of 0 "nat (SubChunkLayerCount c i)" "SubChunkLayerCount c i" varint c i]
      layerCount_bounds [OF assms]
    by (simp add: encodeSubChunk_def Let_def)
next
  case False
  then have "SubChunkLayerCount c i = 256" using layerCount_bounds [OF assms] by linarith
  then show ?thesis
    using False layerLoop_256 by (simp add: encodeSubChunk_def Let_def)
qed

text \<open>Witness of \<open>sub_chunk_encoding_terminates\<close>: a chunk whose only block is in layer 255.\<close>

theorem sub_chunk_encoding_terminates_witness:
  "encodeSubChunk leBytes (sampleChunk\<lparr>subChunks := [[(255, [(0, 9)])]]\<rparr>) 0 = None"
proof -
  let ?c = "sampleChunk\<lparr>subChunks := [[(255, [(0, 9)])]]\<rparr>"
  have "SubChunkLayerCount ?c 0 = 256" by (simp add: SubChunkLayerCount_def)
  then show ?thesis
    using sub_chunk_encoding_terminates [of 0 ?c leBytes] by (cases "encodeSubChunk leBytes ?c 0") simp_all
qed

lemma cell_index:
  assumes "x \<le> 15" and "z \<le> 15" and "y < 16"
  defines "i \<equiv> unat x * 256 + unat z * 16 + y"
  shows "i < 4096" and "cellX i = x" and "cellZ i = z" and "cellY i = int y"
proof -
  have b: "unat x \<le> 15" "unat z \<le> 15" using assms(1,2) by (simp_all add: word_le_nat_alt)
  then show "i < 4096" using assms(3) by (simp add: i_def)
  have d: "i = (unat x * 16 + unat z) * 16 + y" by (simp add: i_def)
  have "(a * 16 + y) div 16 = a" "(a * 16 + y) mod 16 = y" for a using assms(3) by simp_all
  then have q: "i div 16 = unat x * 16 + unat z" "i mod 16 = y" unfolding d by blast+
  then have "i div 16 mod 16 = unat z" "i div 16 div 16 = unat x" using b by simp_all
  then have "i div 16 mod 16 = unat z" "i div 256 = unat x" by (simp_all flip: div_mult2_eq)
  with q(2) show "cellX i = x" "cellZ i = z" "cellY i = int y"
    by (simp_all add: cellX_def cellZ_def cellY_def)
qed

lemma blockValues_nth:
  assumes "chunk_shape c" and "0 \<le> i" and "i < int (length (subChunks c))"
    and "x \<le> 15" and "z \<le> 15" and "y < 16"
  shows "blockValues c i l ! (unat x * 256 + unat z * 16 + y) = RuntimeID c x (SubY c i + int y) z l"
proof -
  note k = cell_index [OF assms(4-6)]
  have "i16 (SubY c i + int y) = SubY c i + int y"
    using SubY_eq(2,3) [OF assms(1-3)] assms(6) by simp
  with k show ?thesis by (simp add: blockValues_def)
qed

lemma RuntimeID_above_layers:
  assumes "chunk_shape c" and "0 \<le> i" and "i < int (length (subChunks c))" and "y < 16"
    and "uint l \<ge> SubChunkLayerCount c i"
  shows "RuntimeID c x (SubY c i + int y) z l = airRuntimeID c"
proof (cases "validBlock c (x, SubY c i + int y, z, l)")
  case True
  have "in_i16 (SubY c i + int y)" using SubY_eq(2,3) [OF assms(1-3)] assms(4) by simp
  then have "SubIndex c (SubY c i + int y) = (SubY c i + int y) div 16 - dimMinY (dimension c) div 16"
    by (rule SubIndex_eq [OF assms(1)])
  also have "\<dots> = i" using SubY_eq(1) [OF assms(1-3)] assms(4) by simp
  finally show ?thesis
    using layerCount_air [OF assms(2,3,5)] by (simp add: RuntimeID_stored [OF True])
qed (rule RuntimeID_outside)

text \<open>
  C6. What a client decodes from a sub-chunk payload is the sub-chunk: the payload starts with the
  version, the number of layers and the sub-chunk's vertical index; reading that many paletted
  storages consumes exactly the rest, and every block of the sub-chunk is found in the storage of its
  layer at the index of its column and height, while layers that are not sent hold only air.
\<close>

theorem sub_chunk_payload_decodes:
  assumes "chunk_ok c" and "0 \<le> i" and "i < int (length (subChunks c))"
    and "SubChunkLayerCount c i \<le> 255" and "varint_reader varint unvarint"
  shows "\<exists>rest layers. encodeSubChunk varint c i =
      Some ([subChunkVersion, word_of_int (SubChunkLayerCount c i), word_of_int (i + MinSubY (dimension c))] @ rest) \<and>
    readMany (decodeStorage unvarint 4096) (nat (SubChunkLayerCount c i)) rest = Some (layers, []) \<and>
    (\<forall>x z y l. x \<le> 15 \<longrightarrow> z \<le> 15 \<longrightarrow> y < 16 \<longrightarrow> RuntimeID c x (SubY c i + int y) z l =
       (if uint l < SubChunkLayerCount c i then layers ! unat l ! (unat x * 256 + unat z * 16 + y) else airRuntimeID c))"
proof -
  have shape: "chunk_shape c" using assms(1) by (simp add: chunk_ok_def)
  let ?n = "nat (SubChunkLayerCount c i)"
  let ?layers = "map (\<lambda>l. blockValues c i (of_nat l)) [0..<?n]"
  let ?rest = "concat (map (encodePalettedStorage varint) ?layers)"
  have n: "int ?n = SubChunkLayerCount c i" using layerCount_bounds(1) [OF assms(2,3)] by simp
  have d: "dim_ok (dimension c)" using shape by (simp add: chunk_shape_def)
  then have r: "- 2048 \<le> dimMinY (dimension c) div 16" "dimMaxY (dimension c) div 16 \<le> 2047"
    "dimMinY (dimension c) div 16 \<le> dimMaxY (dimension c) div 16"
    by (auto simp: dim_ok_def)
  have "i \<le> dimMaxY (dimension c) div 16 - dimMinY (dimension c) div 16"
    using shape dim_ok_simps(7) [OF d] assms(3) by (simp add: chunk_shape_def)
  with r assms(2) have "in_i32 i" "in_i32 (i + MinSubY (dimension c))"
    by (simp_all add: dim_ok_simps [OF d])
  then have i32s: "i32 i = i" "i32 (i + MinSubY (dimension c)) = i + MinSubY (dimension c)"
    by (simp_all only: i32_id)
  have enc: "encodeSubChunk varint c i =
      Some ([subChunkVersion, word_of_int (SubChunkLayerCount c i), word_of_int (i + MinSubY (dimension c))] @ ?rest)"
    using layerLoop_steps [of 0 ?n "SubChunkLayerCount c i" varint c i] n assms(4)
    by (simp add: encodeSubChunk_def i32s encodeBlockStorage_def comp_def Let_def)
  have rd: "readMany (decodeStorage unvarint 4096) (length ls) (concat (map (encodePalettedStorage varint) ls)) = Some (ls, [])"
    if "\<forall>vals \<in> set ls. length vals = 4096" for ls
    using that
  proof (induction ls)
    case (Cons vals ls)
    then have "decodeStorage unvarint 4096 (encodePalettedStorage varint vals @ r) = Some (vals, r)" for r
      using decode_encode_storage [OF assms(5), of vals r] by force
    with Cons show ?case by simp
  qed simp
  have "\<forall>vals \<in> set ?layers. length vals = 4096" by (simp add: blockValues_def)
  from rd [OF this] have dec: "readMany (decodeStorage unvarint 4096) ?n ?rest = Some (?layers, [])" by simp
  have "RuntimeID c x (SubY c i + int y) z l =
       (if uint l < SubChunkLayerCount c i then ?layers ! unat l ! (unat x * 256 + unat z * 16 + y) else airRuntimeID c)"
    if "x \<le> 15" "z \<le> 15" "y < 16" for x z y l
  proof (cases "uint l < SubChunkLayerCount c i")
    case True
    moreover have "int (unat l) = uint l" by simp
    ultimately have "unat l < ?n" using n by linarith
    with True show ?thesis using blockValues_nth [OF shape assms(2,3) that, of l] by simp
  next
    case False
    then show ?thesis using RuntimeID_above_layers [OF shape assms(2,3) that(3)] by simp
  qed
  with enc dec show ?thesis by blast
qed

text \<open>Witness of \<open>sub_chunk_payload_decodes\<close>, on the sample chunk with a fixed-width integer writer.\<close>

theorem sub_chunk_payload_decodes_witness:
  "\<exists>rest layers. encodeSubChunk leBytes sampleChunk 0 = Some ([subChunkVersion, 1, 0] @ rest) \<and>
     readMany (decodeStorage leWord 4096) 1 rest = Some (layers, [])"
proof -
  have "SubChunkLayerCount sampleChunk 0 = 1" "0 < int (length (subChunks sampleChunk))"
    "MinSubY (dimension sampleChunk) = 0"
    by (simp_all add: SubChunkLayerCount_def sampleChunk_def MinSubY_def MinY_def withDefaults_def floorDiv16_def)
  then show ?thesis
    using sub_chunk_payload_decodes [OF sampleChunk_ok, of 0 leBytes leWord] leBytes_reader by auto
qed

section \<open>Height maps\<close>

definition columnIndex :: "u8 \<times> u8 \<Rightarrow> nat" where
  "columnIndex = (\<lambda>(x, z). unat z * 16 + unat x)"

text \<open>The height of a column relative to a sub-chunk: above it, below it, or the offset inside it.\<close>

definition relHeight :: "Chunk \<Rightarrow> int \<Rightarrow> u8 \<times> u8 \<Rightarrow> int" where
  "relHeight c index = (\<lambda>(x, z).
     let y = HighestBlockY c x z 0; other = SubIndex c y in
     if other > index then 16 else if other < index then -1 else y mod 16)"

lemma column_word:
  assumes "x \<le> 15" and "z \<le> 15"
  shows "unat (push_bit 4 (ucast (z :: u8) :: u16) OR ucast (x :: u8)) = columnIndex (x, z)"
proof -
  have b: "unat x < 16" "unat z < 16" using assms by (simp_all add: word_le_nat_alt)
  have x: "unat (ucast x :: u16) = unat x" and z: "unat (ucast z :: u16) = unat z"
    using unsigned_less [of x, where 'a = nat] unsigned_less [of z, where 'a = nat]
    by (simp_all add: unsigned_ucast_eq take_bit_nat_eq_self)
  have d: "push_bit 4 (ucast z :: u16) AND ucast x = 0"
  proof (rule bit_word_eqI)
    fix n assume "n < LENGTH(16)"
    have "bit (ucast x :: u16) n \<Longrightarrow> n < 4"
      using and15_small [OF assms(1)] by (metis bit_take_bit_iff bit_ucast_iff mask4(1) take_bit_eq_mask)
    then show "bit (push_bit 4 (ucast z :: u16) AND ucast x) n \<longleftrightarrow> bit (0 :: u16) n"
      by (auto simp: bit_simps)
  qed
  have "push_bit 4 (ucast z :: u16) OR ucast x = push_bit 4 (ucast z) + ucast x"
    using d by (simp add: disjunctive_add_eq_or)
  moreover have "unat (push_bit 4 (ucast z :: u16)) = unat z * 16"
    using b(2) z by (simp add: push_bit_eq_mult unat_word_ariths)
  ultimately show ?thesis
    using b x by (simp add: unat_word_ariths columnIndex_def)
qed

lemma SubY_SubIndex:
  assumes "chunk_shape c" and "inHeight c y"
  shows "i16 (y - SubY c (SubIndex c y)) = y mod 16"
proof -
  note i = SubIndex_range [OF assms]
  have "SubIndex c y = y div 16 - dimMinY (dimension c) div 16"
    using SubIndex_eq [OF assms(1) inHeight_i16 [OF assms]] .
  then have "SubY c (SubIndex c y) = 16 * (y div 16)" using SubY_eq(1) [OF assms(1) i] by simp
  then have "y - SubY c (SubIndex c y) = y mod 16" by (simp add: minus_mult_div_eq_mod)
  moreover have g: "in_i16 m" if "0 \<le> m" "m < 16" for m :: int using that by simp
  have "in_i16 (y mod 16)" by (rule g) simp_all
  ultimately show ?thesis by (simp only: i16_id)
qed

lemma HighestBlockY_inHeight:
  assumes "chunk_ok c" and "x \<le> 15" and "z \<le> 15"
  shows "inHeight c (HighestBlockY c x z l)"
proof -
  have "chunk_shape c" using assms(1) by (simp add: chunk_ok_def)
  then have "MinY (dimension c) \<le> MaxY (dimension c)"
    by (auto simp: chunk_shape_def dim_ok_simps dim_ok_def)
  then show ?thesis using HighestBlockY_spec [OF assms, of l] by (auto split: if_splits)
qed

lemma heightStep_eq:
  assumes "chunk_ok c" and "x \<le> 15" and "z \<le> 15"
  shows "heightStep c index (x, z) (hs, higher, lower) =
    (hs[columnIndex (x, z) := relHeight c index (x, z)],
     higher \<and> relHeight c index (x, z) = 16, lower \<and> relHeight c index (x, z) = -1)"
proof -
  let ?y = "HighestBlockY c x z 0"
  have "i16 (?y - SubY c (SubIndex c ?y)) = ?y mod 16"
    using SubY_SubIndex HighestBlockY_inHeight [OF assms] assms(1) by (simp add: chunk_ok_def)
  moreover have "0 \<le> ?y mod 16" "?y mod 16 < 16" by simp_all
  then have "signed_wrap 8 (?y mod 16) = ?y mod 16" "?y mod 16 \<noteq> 16" "?y mod 16 \<noteq> -1"
    by (simp_all add: signed_wrap_def)
  ultimately show ?thesis
    by (auto simp: heightStep_def relHeight_def Let_def column_word [OF assms(2,3)])
qed

lemma columnIndex_inj: "inj_on columnIndex {(x, z). x \<le> 15 \<and> z \<le> 15}"
proof (rule inj_onI, clarify)
  fix x z x' z' :: u8
  assume h: "columnIndex (x, z) = columnIndex (x', z')" "x \<le> 15" "x' \<le> 15"
  then have b: "unat x < 16" "unat x' < 16" by (simp_all add: word_le_nat_alt)
  have "unat z * 16 + unat x = unat z' * 16 + unat x'" using h(1) by (simp add: columnIndex_def)
  moreover have "(unat z * 16 + unat x) div 16 = unat z" "(unat z' * 16 + unat x') div 16 = unat z'" using b by simp_all
  ultimately have "unat z = unat z'" by metis
  moreover from this have "unat x = unat x'" using \<open>unat z * 16 + unat x = unat z' * 16 + unat x'\<close> by simp
  ultimately show "x = x' \<and> z = z'" by (simp add: word_unat_eq_iff)
qed

lemma fold_heightStep:
  assumes "chunk_ok c" and "\<forall>(x, z) \<in> set cols. x \<le> 15 \<and> z \<le> 15" and "distinct cols" and "length hs = 256"
  shows "\<exists>hs'. fold (heightStep c index) cols (hs, higher, lower) =
      (hs', higher \<and> (\<forall>p \<in> set cols. relHeight c index p = 16), lower \<and> (\<forall>p \<in> set cols. relHeight c index p = -1)) \<and>
    length hs' = 256 \<and> (\<forall>p \<in> set cols. hs' ! columnIndex p = relHeight c index p) \<and>
    (\<forall>i. i \<notin> columnIndex ` set cols \<longrightarrow> hs' ! i = hs ! i)"
  using assms(2-4)
proof (induction cols arbitrary: hs higher lower)
  case (Cons p cols)
  obtain x z where p: "p = (x, z)" by (cases p)
  have xz: "x \<le> 15" "z \<le> 15" using Cons.prems(1) p by auto
  have i: "columnIndex p < 256" using xz by (simp add: p columnIndex_def word_le_nat_alt)
  have new: "columnIndex p \<notin> columnIndex ` set cols"
  proof
    assume "columnIndex p \<in> columnIndex ` set cols"
    then obtain q where "q \<in> set cols" "columnIndex p = columnIndex q" by auto
    moreover have "p = q" using columnIndex_inj calculation Cons.prems(1) by (auto simp: inj_on_def)
    ultimately show False using Cons.prems(2) by simp
  qed
  let ?hs = "hs[columnIndex p := relHeight c index p]"
  obtain hs' where ih: "fold (heightStep c index) cols (?hs, higher \<and> relHeight c index p = 16, lower \<and> relHeight c index p = -1) =
      (hs', (higher \<and> relHeight c index p = 16) \<and> (\<forall>p \<in> set cols. relHeight c index p = 16),
       (lower \<and> relHeight c index p = -1) \<and> (\<forall>p \<in> set cols. relHeight c index p = -1))"
    "length hs' = 256" "\<forall>p \<in> set cols. hs' ! columnIndex p = relHeight c index p"
    "\<forall>i. i \<notin> columnIndex ` set cols \<longrightarrow> hs' ! i = ?hs ! i"
    using Cons.IH [of ?hs "higher \<and> relHeight c index p = 16" "lower \<and> relHeight c index p = -1"] Cons.prems by auto
  have "hs' ! columnIndex p = relHeight c index p" using ih(4) new i Cons.prems(3) by simp
  then show ?case
    using ih heightStep_eq [OF assms(1) xz, of index hs higher lower] by (auto simp: p)
qed simp

lemma columns_distinct: "distinct columns"
  by (simp add: columns_def distinct_product distinct_map inj_on_def word_unat_eq_iff unat_of_nat)

text \<open>
  C29. The height map sent with a sub-chunk is right in all 256 columns: it is "too high" exactly
  when the topmost block of every column lies above the sub-chunk, "too low" exactly when every one
  lies below, and otherwise lists for each column 16 (above), -1 (below) or the height of the
  topmost block inside the sub-chunk, at index \<^verbatim>\<open>z * 16 + x\<close>.
\<close>

theorem height_map_correct:
  assumes "chunk_ok c"
  shows "let inside = {(x, z). x \<le> (15 :: u8) \<and> z \<le> (15 :: u8)} in
    (\<forall>p \<in> inside. relHeight c index p = 16) \<and> subChunkHeightMap c index = (HeightMapDataTooHigh, None) \<or>
    (\<forall>p \<in> inside. relHeight c index p = -1) \<and> subChunkHeightMap c index = (HeightMapDataTooLow, None) \<or>
    (\<exists>p \<in> inside. relHeight c index p \<noteq> 16) \<and> (\<exists>p \<in> inside. relHeight c index p \<noteq> -1) \<and>
    (\<exists>hs. subChunkHeightMap c index = (HeightMapDataHasData, Some hs) \<and> length hs = 256 \<and>
       (\<forall>p \<in> inside. hs ! columnIndex p = relHeight c index p))"
proof -
  obtain hs where "fold (heightStep c index) columns (replicate 256 0, True, True) =
      (hs, \<forall>p \<in> set columns. relHeight c index p = 16, \<forall>p \<in> set columns. relHeight c index p = -1)"
    "length hs = 256" "\<forall>p \<in> set columns. hs ! columnIndex p = relHeight c index p"
    using fold_heightStep [OF assms _ columns_distinct, of "replicate 256 0" index True True] by (auto simp: columns_all)
  then show ?thesis
    unfolding subChunkHeightMap_def by (simp add: columns_all Let_def)
qed

text \<open>Witness of \<open>height_map_correct\<close>: a column of the sample chunk with a block at height 3.\<close>

theorem height_map_correct_witness:
  "\<exists>hs. subChunkHeightMap sampleChunk 0 = (HeightMapDataHasData, Some hs) \<and> length hs = 256 \<and>
     hs ! columnIndex (1, 2) = 3"
proof -
  let ?in = "{(x, z). x \<le> (15 :: u8) \<and> z \<le> (15 :: u8)}"
  have r: "relHeight sampleChunk 0 (1, 2) = 3" by code_simp
  have m: "((1, 2) :: u8 \<times> u8) \<in> ?in" by simp
  from height_map_correct [OF sampleChunk_ok, of 0, unfolded Let_def] show ?thesis
    by (elim disjE conjE exE) (use r m in \<open>force+\<close>)
qed

end
