(* ===== verification/Resource_Pack.thy ===== *)
theory Resource_Pack
  imports Prelude
begin

text \<open>
  Resource packs and their download queue (\<^verbatim>\<open>internal/resourcepack/resourcepack.go\<close>).

  A UUID is a 128-bit word; the text form given by \<^verbatim>\<open>uuid.UUID.String\<close> is the parameter \<open>us\<close>, the
  SHA-256 function the parameter \<open>sha\<close>, and the numbering of the protocol's pack types the record
  \<open>packTypes\<close>. Lengths and offsets are \<open>nat\<close>: an offset is a product of two 32-bit
  numbers and a slice is shorter than \<open>2 ^ 63\<close>, so the 64-bit arithmetic of the code does
  not wrap; the conversions to \<^verbatim>\<open>uint32\<close> are kept.
\<close>

type_synonym uuid = "128 word"

record packTypes =
  ResourcePackTypeAddon :: u8
  ResourcePackTypeBehaviour :: u8
  ResourcePackTypeResources :: u8

record Pack =
  packUUID :: uuid
  packVersion :: string
  packData :: bytes
  packType :: u8
  packContentKey :: string
  packSubPackName :: string
  packContentIdentity :: string
  packAddonPack :: bool
  packHasScripts :: bool
  packPremium :: bool
  packDownloadURL :: string

definition DefaultChunkSize :: u32 where
  "DefaultChunkSize = 1024 * 128"

section \<open>Normalisation and announcements\<close>

definition normalizePack :: "(uuid \<Rightarrow> string) \<Rightarrow> packTypes \<Rightarrow> Pack \<Rightarrow> Pack" where
  "normalizePack us types pack =
     (let pack = (if packVersion pack = [] then pack\<lparr>packVersion := ''1.0.0''\<rparr> else pack);
          pack = (if packContentIdentity pack = [] then pack\<lparr>packContentIdentity := us (packUUID pack)\<rparr> else pack)
      in if packType pack = 0 then pack\<lparr>packType := ResourcePackTypeResources types\<rparr> else pack)"

text \<open>The loop of \<^verbatim>\<open>Normalize\<close> from index \<open>i\<close> on; the error is the index of the first pack without UUID.\<close>

fun normalizeFrom :: "(uuid \<Rightarrow> string) \<Rightarrow> packTypes \<Rightarrow> nat \<Rightarrow> Pack list \<Rightarrow> nat + Pack list" where
  "normalizeFrom us types i [] = Inr []"
| "normalizeFrom us types i (pack # packs) =
     (if packUUID pack = 0 then Inl i
      else map_sum id (\<lambda>rest. normalizePack us types pack # rest) (normalizeFrom us types (Suc i) packs))"

definition Normalize :: "(uuid \<Rightarrow> string) \<Rightarrow> packTypes \<Rightarrow> Pack list \<Rightarrow> nat + Pack list" where
  "Normalize us types packs = normalizeFrom us types 0 packs"

record TexturePackInfo =
  tpUUID :: uuid
  tpVersion :: string
  tpSize :: nat
  tpContentKey :: string
  tpSubPackName :: string
  tpContentIdentity :: string
  tpHasScripts :: bool
  tpAddonPack :: bool
  tpRTXEnabled :: bool
  tpDownloadURL :: string

definition texturePackInfo :: "(uuid \<Rightarrow> string) \<Rightarrow> packTypes \<Rightarrow> Pack \<Rightarrow> TexturePackInfo" where
  "texturePackInfo us types pack =
     \<lparr>tpUUID = packUUID pack, tpVersion = packVersion pack, tpSize = length (packData pack),
      tpContentKey = packContentKey pack, tpSubPackName = packSubPackName pack,
      tpContentIdentity = (if packContentIdentity pack = [] then us (packUUID pack) else packContentIdentity pack),
      tpHasScripts = packHasScripts pack,
      tpAddonPack = (packAddonPack pack \<or> packType pack = ResourcePackTypeAddon types \<or>
        packType pack = ResourcePackTypeBehaviour types),
      tpRTXEnabled = False, tpDownloadURL = packDownloadURL pack\<rparr>"

record StackResourcePack =
  stackUUID :: string
  stackVersion :: string
  stackSubPackName :: string

definition stackResourcePack :: "(uuid \<Rightarrow> string) \<Rightarrow> Pack \<Rightarrow> StackResourcePack" where
  "stackResourcePack us pack =
     \<lparr>stackUUID = us (packUUID pack), stackVersion = packVersion pack, stackSubPackName = packSubPackName pack\<rparr>"

record ResourcePackDataInfo =
  diUUID :: string
  diDataChunkSize :: u32
  diChunkCount :: u32
  diSize :: nat
  diHash :: bytes
  diPremium :: bool
  diPackType :: u8

definition DataInfo :: "(uuid \<Rightarrow> string) \<Rightarrow> (bytes \<Rightarrow> bytes) \<Rightarrow> u32 \<Rightarrow> Pack \<Rightarrow> ResourcePackDataInfo" where
  "DataInfo us sha chunkSize pack =
     (let chunkSize = (if chunkSize = 0 then DefaultChunkSize else chunkSize);
          size = length (packData pack);
          chunkCount = (if size \<noteq> 0 then of_nat ((size + unat chunkSize - 1) div unat chunkSize) else 0)
      in \<lparr>diUUID = us (packUUID pack), diDataChunkSize = chunkSize, diChunkCount = chunkCount, diSize = size,
          diHash = sha (packData pack), diPremium = packPremium pack, diPackType = packType pack\<rparr>)"

record ResourcePackChunkData =
  cdUUID :: string
  cdChunkIndex :: u32
  cdDataOffset :: nat
  cdData :: bytes

datatype pack_error =
    ChunkOutOfRange uuid u32
  | PackNotFound string
  | RequestBeforeDownload
  | AllDownloaded
  | UUIDMismatch uuid string
  | IndexMismatch u32 u32

definition PackChunk :: "(uuid \<Rightarrow> string) \<Rightarrow> u32 \<Rightarrow> u32 \<Rightarrow> Pack \<Rightarrow> pack_error + ResourcePackChunkData \<times> bool" where
  "PackChunk us chunkSize chunkIndex pack =
     (let chunkSize = (if chunkSize = 0 then DefaultChunkSize else chunkSize);
          offset = unat chunkIndex * unat chunkSize;
          size = length (packData pack)
      in if offset > size then Inl (ChunkOutOfRange (packUUID pack) chunkIndex)
         else
           let finish = (if offset + unat chunkSize > size then size else offset + unat chunkSize);
               payload = take (finish - offset) (drop offset (packData pack))
           in Inr (\<lparr>cdUUID = us (packUUID pack), cdChunkIndex = chunkIndex, cdDataOffset = offset, cdData = payload\<rparr>,
                   finish \<ge> size))"

section \<open>The download queue\<close>

record Queue =
  qPacks :: "Pack list"
  qSelected :: "nat list"
  qCurrent :: nat
  qCurrentChunk :: u32
  qChunkSize :: u32

definition NewQueue :: "Pack list \<Rightarrow> Queue" where
  "NewQueue packs =
     \<lparr>qPacks = packs, qSelected = [], qCurrent = 0, qCurrentChunk = 0, qChunkSize = DefaultChunkSize\<rparr>"

record ResourcePacksInfo =
  infoTexturePackRequired :: bool
  infoHasAddons :: bool
  infoHasScripts :: bool
  infoTexturePacks :: "TexturePackInfo list"

definition QueueInfo :: "(uuid \<Rightarrow> string) \<Rightarrow> packTypes \<Rightarrow> bool \<Rightarrow> Queue \<Rightarrow> ResourcePacksInfo" where
  "QueueInfo us types required queue =
     (let (info, hasAddons, hasScripts) = fold (\<lambda>pack (info, hasAddons, hasScripts).
          let packInfo = texturePackInfo us types pack in
          (info @ [packInfo], hasAddons \<or> tpAddonPack packInfo, hasScripts \<or> tpHasScripts packInfo))
        (qPacks queue) ([], False, False)
      in \<lparr>infoTexturePackRequired = required, infoHasAddons = hasAddons, infoHasScripts = hasScripts,
          infoTexturePacks = info\<rparr>)"

record ResourcePackStack =
  rpsTexturePackRequired :: bool
  rpsTexturePacks :: "StackResourcePack list"
  rpsBaseGameVersion :: string

definition QueueStack :: "(uuid \<Rightarrow> string) \<Rightarrow> bool \<Rightarrow> string \<Rightarrow> Queue \<Rightarrow> ResourcePackStack" where
  "QueueStack us required baseGameVersion queue =
     \<lparr>rpsTexturePackRequired = required, rpsTexturePacks = map (stackResourcePack us) (qPacks queue),
      rpsBaseGameVersion = baseGameVersion\<rparr>"

datatype pack_packet =
    DataInfoPacket ResourcePackDataInfo
  | ChunkDataPacket ResourcePackChunkData

text \<open>\<^verbatim>\<open>currentPack\<close>: \<open>None\<close> is the nil pointer.\<close>

definition currentPack :: "Queue \<Rightarrow> Pack option" where
  "currentPack queue =
     (if qSelected queue = [] \<or> qCurrent queue \<ge> length (qSelected queue) then None
      else Some (qPacks queue ! (qSelected queue ! qCurrent queue)))"

definition cutRequest :: "string \<Rightarrow> string \<times> string" where
  "cutRequest request = (case Cut CHR ''_'' request of None \<Rightarrow> (request, []) | Some (before, after) \<Rightarrow> (before, after))"

definition matches :: "(uuid \<Rightarrow> string) \<Rightarrow> string \<Rightarrow> Pack \<Rightarrow> bool" where
  "matches us request pack =
     (let (ident, version) = cutRequest request in
      us (packUUID pack) = ident \<and> (version = [] \<or> packVersion pack = version))"

definition findPack :: "(uuid \<Rightarrow> string) \<Rightarrow> Queue \<Rightarrow> string \<Rightarrow> nat option" where
  "findPack us queue request =
     map_option fst (find (\<lambda>(index, pack). matches us request pack) (enumerate 0 (qPacks queue)))"

text \<open>The loop of \<^verbatim>\<open>Begin\<close>: on an unknown pack it returns with what it has selected so far.\<close>

fun selectPacks :: "(uuid \<Rightarrow> string) \<Rightarrow> string list \<Rightarrow> nat list \<Rightarrow> Queue \<Rightarrow> pack_error option \<times> Queue" where
  "selectPacks us [] seen queue = (None, queue)"
| "selectPacks us (request # requests) seen queue =
     (case findPack us queue request of
        None \<Rightarrow> (Some (PackNotFound request), queue)
      | Some index \<Rightarrow>
          if index \<in> set seen then selectPacks us requests seen queue
          else selectPacks us requests (index # seen) (queue\<lparr>qSelected := qSelected queue @ [index]\<rparr>))"

definition Begin ::
  "(uuid \<Rightarrow> string) \<Rightarrow> (bytes \<Rightarrow> bytes) \<Rightarrow> string list \<Rightarrow> Queue \<Rightarrow> (pack_error + pack_packet list) \<times> Queue"
where
  "Begin us sha requests queue =
     (let queue = queue\<lparr>qSelected := [], qCurrent := 0, qCurrentChunk := 0\<rparr> in
      if requests = [] then (Inr [], queue)
      else case selectPacks us requests [] queue of
        (Some e, queue) \<Rightarrow> (Inl e, queue)
      | (None, queue) \<Rightarrow>
          (case currentPack queue of
             None \<Rightarrow> (Inr [], queue)
           | Some pack \<Rightarrow> (Inr [DataInfoPacket (DataInfo us sha (qChunkSize queue) pack)], queue)))"

definition HandleChunkRequest ::
  "(uuid \<Rightarrow> string) \<Rightarrow> (bytes \<Rightarrow> bytes) \<Rightarrow> string \<times> u32 \<Rightarrow> Queue \<Rightarrow> (pack_error + pack_packet list) \<times> Queue"
where
  "HandleChunkRequest us sha = (\<lambda>(uuid, chunkIndex) queue.
     if qSelected queue = [] then (Inl RequestBeforeDownload, queue)
     else case currentPack queue of
       None \<Rightarrow> (Inl AllDownloaded, queue)
     | Some pack \<Rightarrow>
         if uuid \<noteq> us (packUUID pack) then (Inl (UUIDMismatch (packUUID pack) uuid), queue)
         else if chunkIndex \<noteq> qCurrentChunk queue then (Inl (IndexMismatch (qCurrentChunk queue) chunkIndex), queue)
         else case PackChunk us (qChunkSize queue) chunkIndex pack of
           Inl e \<Rightarrow> (Inl e, queue)
         | Inr (chunk, final) \<Rightarrow>
             if \<not> final
             then (Inr [ChunkDataPacket chunk], queue\<lparr>qCurrentChunk := qCurrentChunk queue + 1\<rparr>)
             else
               let queue = queue\<lparr>qCurrent := qCurrent queue + 1, qCurrentChunk := 0\<rparr> in
               (case currentPack queue of
                  Some next_pack \<Rightarrow>
                    (Inr [ChunkDataPacket chunk, DataInfoPacket (DataInfo us sha (qChunkSize queue) next_pack)], queue)
                | None \<Rightarrow> (Inr [ChunkDataPacket chunk], queue)))"

section \<open>The queue serves byte streams\<close>

text \<open>
  The abstract view of a download: the announced packs that are still to be delivered, each with
  the index of its next chunk and the bytes that remain. A request is answered only if it names the
  first stream and its next chunk; the answer is the next piece of the stream, and when the stream
  ends the announcement of the following one.
\<close>

type_synonym stream = "ResourcePackDataInfo \<times> nat \<times> bytes"

definition streamStep ::
  "nat \<Rightarrow> string \<times> u32 \<Rightarrow> stream list \<Rightarrow> (bytes \<times> ResourcePackDataInfo list \<times> stream list) option"
where
  "streamStep cs = (\<lambda>(u, k) streams. case streams of
     [] \<Rightarrow> None
   | (info, next_chunk, bs) # rest \<Rightarrow>
       if u \<noteq> diUUID info \<or> unat k \<noteq> next_chunk then None
       else if length bs \<le> cs then Some (bs, map fst (take 1 rest), rest)
       else Some (take cs bs, [], (info, next_chunk + 1, drop cs bs) # rest))"

definition freshStream :: "(uuid \<Rightarrow> string) \<Rightarrow> (bytes \<Rightarrow> bytes) \<Rightarrow> u32 \<Rightarrow> Pack \<Rightarrow> stream" where
  "freshStream us sha cs pack = (DataInfo us sha cs pack, 0, packData pack)"

definition pending :: "(uuid \<Rightarrow> string) \<Rightarrow> (bytes \<Rightarrow> bytes) \<Rightarrow> Queue \<Rightarrow> stream list" where
  "pending us sha q =
     (case currentPack q of
        None \<Rightarrow> []
      | Some pack \<Rightarrow>
          (DataInfo us sha (qChunkSize q) pack, unat (qCurrentChunk q),
           drop (unat (qCurrentChunk q) * unat (qChunkSize q)) (packData pack)) #
          map (\<lambda>i. freshStream us sha (qChunkSize q) (qPacks q ! i)) (drop (Suc (qCurrent q)) (qSelected q)))"

text \<open>
  The invariant of a queue: the selection names packs, each once, and the next chunk lies inside
  the current pack. The number of chunks of every pack fits 32 bits.
\<close>

definition packs_fit :: "Queue \<Rightarrow> bool" where
  "packs_fit q \<longleftrightarrow> qChunkSize q \<noteq> 0 \<and> (\<forall>p \<in> set (qPacks q). length (packData p) \<le> (2 ^ 32 - 1) * unat (qChunkSize q))"

definition queue_ok :: "Queue \<Rightarrow> bool" where
  "queue_ok q \<longleftrightarrow> packs_fit q \<and> distinct (qSelected q) \<and> (\<forall>i \<in> set (qSelected q). i < length (qPacks q)) \<and>
     qCurrent q \<le> length (qSelected q) \<and>
     (\<forall>pack. currentPack q = Some pack \<longrightarrow> qCurrentChunk q = 0 \<or>
        unat (qCurrentChunk q) * unat (qChunkSize q) < length (packData pack))"

lemma currentPack_Some:
  "currentPack q = Some p \<longleftrightarrow> qCurrent q < length (qSelected q) \<and> p = qPacks q ! (qSelected q ! qCurrent q)"
  by (auto simp: currentPack_def)

lemma currentPack_None: "currentPack q = None \<longleftrightarrow> length (qSelected q) \<le> qCurrent q"
  by (auto simp: currentPack_def)

lemma currentPack_in: "queue_ok q \<Longrightarrow> currentPack q = Some p \<Longrightarrow> p \<in> set (qPacks q)"
  by (auto simp: queue_ok_def currentPack_Some)

lemma pending_next:
  assumes "qCurrentChunk q = 0"
  shows "pending us sha q = map (\<lambda>i. freshStream us sha (qChunkSize q) (qPacks q ! i)) (drop (qCurrent q) (qSelected q))"
  using assms
  by (cases "qCurrent q < length (qSelected q)")
    (auto simp: pending_def currentPack_def freshStream_def Cons_nth_drop_Suc [symmetric])

lemma PackChunk_eq:
  assumes "cs \<noteq> 0" and "unat k * unat cs \<le> length (packData p)"
  shows "PackChunk us cs k p =
    Inr (\<lparr>cdUUID = us (packUUID p), cdChunkIndex = k, cdDataOffset = unat k * unat cs,
          cdData = take (unat cs) (drop (unat k * unat cs) (packData p))\<rparr>,
         length (packData p) \<le> unat k * unat cs + unat cs)"
  using assms by (auto simp: PackChunk_def Let_def)

lemma chunk_in_pack:
  "queue_ok q \<Longrightarrow> currentPack q = Some p \<Longrightarrow> unat (qCurrentChunk q) * unat (qChunkSize q) \<le> length (packData p)"
  unfolding queue_ok_def by (metis less_imp_le mult_zero_left unat_0 zero_le)

lemma next_chunk_index:
  assumes "queue_ok q" and "currentPack q = Some p"
    and "unat (qCurrentChunk q) * unat (qChunkSize q) + unat (qChunkSize q) < length (packData p)"
  shows "unat (qCurrentChunk q + 1) = Suc (unat (qCurrentChunk q))"
proof -
  have "Suc (unat (qCurrentChunk q)) * unat (qChunkSize q) < length (packData p)"
    using assms(3) by (simp add: add.commute)
  also have "\<dots> \<le> (2 ^ 32 - 1) * unat (qChunkSize q)"
    using assms(1) currentPack_in [OF assms(1,2)] by (auto simp: queue_ok_def packs_fit_def)
  also have "\<dots> \<le> 2 ^ 32 * unat (qChunkSize q)" by simp
  finally have "Suc (unat (qCurrentChunk q)) * unat (qChunkSize q) < 2 ^ 32 * unat (qChunkSize q)" .
  then have "Suc (unat (qCurrentChunk q)) < 2 ^ 32" using mult_less_cancel2 by blast
  then show ?thesis by (simp add: unat_word_ariths)
qed

lemma DataInfo_uuid [simp]: "diUUID (DataInfo us sha cs p) = us (packUUID p)"
  by (simp add: DataInfo_def Let_def)

lemma handle_refines:
  assumes ok: "queue_ok q" and step: "HandleChunkRequest us sha (u, k) q = (r, q')"
  shows "queue_ok q'" (is ?ok)
    and "case streamStep (unat (qChunkSize q)) (u, k) (pending us sha q) of
        None \<Rightarrow> (\<exists>e. r = Inl e) \<and> q' = q
      | Some (payload, announced, rest) \<Rightarrow>
          r = Inr (ChunkDataPacket \<lparr>cdUUID = u, cdChunkIndex = k, cdDataOffset = unat k * unat (qChunkSize q), cdData = payload\<rparr>
            # map DataInfoPacket announced) \<and> pending us sha q' = rest" (is ?sim)
proof -
  show "?ok" and "?sim"
  proof (atomize (full), cases "currentPack q")
    case None
    then have "(\<exists>e. r = Inl e) \<and> q' = q" using step by (auto simp: HandleChunkRequest_def split: if_splits)
    with None ok show "?ok \<and> ?sim" by (simp add: pending_def streamStep_def)
  next
    case (Some p)
    let ?k = "qCurrentChunk q" and ?cs = "unat (qChunkSize q)"
    have cs: "qChunkSize q \<noteq> 0" using ok by (simp add: queue_ok_def packs_fit_def)
    have sel: "qSelected q \<noteq> []" using Some by (auto simp: currentPack_def split: if_splits)
    consider (bad) "u \<noteq> us (packUUID p) \<or> k \<noteq> ?k"
      | (more) "u = us (packUUID p)" "k = ?k" "unat ?k * ?cs + ?cs < length (packData p)"
      | (final) "u = us (packUUID p)" "k = ?k" "length (packData p) \<le> unat ?k * ?cs + ?cs" by force
    then show "?ok \<and> ?sim"
    proof cases
      case bad
      then have "(\<exists>e. r = Inl e) \<and> q' = q"
        using step Some sel by (auto simp: HandleChunkRequest_def split: if_splits)
      with bad Some ok show ?thesis by (simp add: pending_def streamStep_def word_unat_eq_iff)
    next
      case more
      note pc = PackChunk_eq [OF cs chunk_in_pack [OF ok Some], of us]
      have r: "r = Inr [ChunkDataPacket \<lparr>cdUUID = u, cdChunkIndex = k, cdDataOffset = unat k * ?cs,
          cdData = take ?cs (drop (unat ?k * ?cs) (packData p))\<rparr>]" and q': "q' = q\<lparr>qCurrentChunk := ?k + 1\<rparr>"
        using step Some sel more by (simp_all add: HandleChunkRequest_def pc)
      have n: "unat (?k + 1) = Suc (unat ?k)" by (rule next_chunk_index [OF ok Some more(3)])
      have c': "currentPack q' = Some p" using Some by (simp add: q' currentPack_Some)
      have "queue_ok q'" using ok more(3) Some c' n
        by (auto simp: queue_ok_def q' packs_fit_def currentPack_def split: if_splits)
      then show ?thesis
        using more Some c' n r by (simp add: pending_def streamStep_def q' add.commute)
    next
      case final
      note pc = PackChunk_eq [OF cs chunk_in_pack [OF ok Some], of us]
      let ?q = "q\<lparr>qCurrent := qCurrent q + 1, qCurrentChunk := 0\<rparr>"
      let ?bs = "drop (unat ?k * ?cs) (packData p)"
      have len: "length ?bs \<le> ?cs" using final(3) by auto
      have q': "q' = ?q" and r: "r = Inr (ChunkDataPacket \<lparr>cdUUID = u, cdChunkIndex = k, cdDataOffset = unat k * ?cs,
          cdData = ?bs\<rparr> # (case currentPack ?q of None \<Rightarrow> [] | Some p' \<Rightarrow> [DataInfoPacket (DataInfo us sha (qChunkSize q) p')]))"
        using step Some sel final len
        by (auto simp: HandleChunkRequest_def pc Let_def split: option.splits)
      have rest: "pending us sha ?q = map (\<lambda>i. freshStream us sha (qChunkSize q) (qPacks q ! i)) (drop (Suc (qCurrent q)) (qSelected q))"
        by (simp add: pending_next)
      have "(case currentPack ?q of None \<Rightarrow> [] | Some p' \<Rightarrow> [DataInfoPacket (DataInfo us sha (qChunkSize q) p')]) =
          map DataInfoPacket (map fst (take 1 (pending us sha ?q)))"
        by (cases "currentPack ?q") (simp_all add: pending_def)
      moreover have "queue_ok ?q" using ok Some by (auto simp: queue_ok_def packs_fit_def currentPack_Some)
      ultimately show ?thesis
        using final Some len r rest by (simp add: pending_def [of us sha q] streamStep_def q' del: One_nat_def)
    qed
  qed
qed

lemma handle_chunkSize:
  "HandleChunkRequest us sha uk q = (r, q') \<Longrightarrow> qChunkSize q' = qChunkSize q"
  by (cases uk) (auto simp: HandleChunkRequest_def Let_def split: if_splits option.splits sum.splits)

section \<open>Selecting packs\<close>

definition appendNew :: "'a \<Rightarrow> 'a list \<Rightarrow> 'a list" where
  "appendNew x xs = (if x \<in> set xs then xs else xs @ [x])"

lemma findPack_selected [simp]: "findPack us (q\<lparr>qSelected := s\<rparr>) = findPack us q"
  by (simp add: findPack_def fun_eq_iff)

lemma findPack_less: "findPack us q r = Some i \<Longrightarrow> i < length (qPacks q) \<and> matches us r (qPacks q ! i)"
  by (auto simp: findPack_def enumerate_eq_zip find_Some_iff)

lemma selectPacks_ok:
  assumes "set seen = set (qSelected q)" and "selectPacks us requests seen q = (None, q')"
  shows "(\<forall>r \<in> set requests. findPack us q r \<noteq> None) \<and>
    q' = q\<lparr>qSelected := fold appendNew (map (the \<circ> findPack us q) requests) (qSelected q)\<rparr>"
  using assms
proof (induction requests arbitrary: seen q)
  case (Cons r rs)
  then obtain i where i: "findPack us q r = Some i" by (auto split: option.splits)
  show ?case
  proof (cases "i \<in> set seen")
    case True
    with Cons i show ?thesis by (simp add: appendNew_def)
  next
    case False
    with Cons.prems i have "selectPacks us rs (i # seen) (q\<lparr>qSelected := qSelected q @ [i]\<rparr>) = (None, q')" by simp
    with Cons.IH [of "i # seen" "q\<lparr>qSelected := qSelected q @ [i]\<rparr>"] Cons.prems i False
    show ?thesis by (simp add: appendNew_def)
  qed
qed simp

lemma fold_appendNew:
  "distinct xs \<Longrightarrow> distinct (fold appendNew ys xs) \<and> set (fold appendNew ys xs) = set xs \<union> set ys"
  by (induction ys arbitrary: xs) (auto simp: appendNew_def)

lemma Begin_ok:
  assumes fit: "packs_fit q" and b: "Begin us sha requests q = (Inr pks, q')" and ne: "requests \<noteq> []"
  shows "qSelected q' = fold appendNew (map (the \<circ> findPack us q) requests) []" (is ?sel)
    and "queue_ok q'" and "qCurrent q' = 0" and "qCurrentChunk q' = 0"
    and "qPacks q' = qPacks q" and "qChunkSize q' = qChunkSize q" and "qSelected q' \<noteq> []"
    and "pks = map (DataInfoPacket \<circ> fst) (take 1 (pending us sha q'))"
proof -
  let ?q = "q\<lparr>qSelected := [], qCurrent := 0, qCurrentChunk := 0\<rparr>"
  have f: "findPack us ?q = findPack us q" by (simp add: findPack_def fun_eq_iff)
  from b ne have s: "selectPacks us requests [] ?q = (None, q')"
    and pks: "pks = (case currentPack q' of None \<Rightarrow> [] | Some p \<Rightarrow> [DataInfoPacket (DataInfo us sha (qChunkSize q') p)])"
    by (auto simp: Begin_def Let_def split: prod.splits option.splits)
  let ?sel' = "fold appendNew (map (the \<circ> findPack us q) requests) []"
  from selectPacks_ok [of "[]" ?q us requests q'] s
  have found: "\<forall>r \<in> set requests. findPack us q r \<noteq> None" and q': "q' = ?q\<lparr>qSelected := ?sel'\<rparr>"
    by (simp_all add: f)
  show ?sel "qCurrent q' = 0" "qCurrentChunk q' = 0" "qPacks q' = qPacks q" "qChunkSize q' = qChunkSize q"
    by (simp_all add: q')
  have d: "distinct ?sel'" "set ?sel' = (the \<circ> findPack us q) ` set requests"
    using fold_appendNew [of "[]" "map (the \<circ> findPack us q) requests"] by simp_all
  then show "qSelected q' \<noteq> []" using ne by (auto simp: q')
  have "\<forall>i \<in> set ?sel'. i < length (qPacks q)" using found findPack_less by (fastforce simp: d(2))
  with d(1) fit show "queue_ok q'" by (simp add: q' queue_ok_def packs_fit_def)
  show "pks = map (DataInfoPacket \<circ> fst) (take 1 (pending us sha q'))"
    by (simp add: pks pending_def split: option.split)
qed

section \<open>A client that follows the announcements\<close>

text \<open>
  The client side of the protocol: ask for the announced number of chunks in order, join them, and
  go on with the pack announced together with the last chunk. \<open>None\<close> means that a request is
  refused or that a pack is awaited that was never announced.
\<close>

definition announcedNext :: "pack_packet list \<Rightarrow> ResourcePackDataInfo option" where
  "announcedNext pks = (case pks of [DataInfoPacket info] \<Rightarrow> Some info | _ \<Rightarrow> None)"

fun fetchChunks ::
  "(uuid \<Rightarrow> string) \<Rightarrow> (bytes \<Rightarrow> bytes) \<Rightarrow> string \<Rightarrow> u32 list \<Rightarrow> Queue \<Rightarrow>
     (bytes \<times> ResourcePackDataInfo option \<times> Queue) option"
where
  "fetchChunks us sha u [] q = Some ([], None, q)"
| "fetchChunks us sha u (k # ks) q =
     (case HandleChunkRequest us sha (u, k) q of
        (Inr (ChunkDataPacket c # others), q') \<Rightarrow>
          (case fetchChunks us sha u ks q' of
             Some (bs, ann, q'') \<Rightarrow> Some (cdData c @ bs, if ks = [] then announcedNext others else ann, q'')
           | None \<Rightarrow> None)
      | _ \<Rightarrow> None)"

fun fetchPacks ::
  "(uuid \<Rightarrow> string) \<Rightarrow> (bytes \<Rightarrow> bytes) \<Rightarrow> nat \<Rightarrow> ResourcePackDataInfo option \<Rightarrow> Queue \<Rightarrow>
     ((string \<times> bytes) list \<times> Queue) option"
where
  "fetchPacks us sha 0 info q = Some ([], q)"
| "fetchPacks us sha (Suc n) None q = None"
| "fetchPacks us sha (Suc n) (Some info) q =
     (case fetchChunks us sha (diUUID info) (map of_nat [0..<unat (diChunkCount info)]) q of
        None \<Rightarrow> None
      | Some (bs, ann, q') \<Rightarrow>
          map_option (\<lambda>(packs, q''). ((diUUID info, bs) # packs, q'')) (fetchPacks us sha n ann q'))"

definition chunksOf :: "nat \<Rightarrow> nat \<Rightarrow> nat" where
  "chunksOf cs n = (n + cs - 1) div cs"

lemma chunksOf_step:
  assumes "0 < cs" and "cs < n"
  shows "chunksOf cs n = Suc (chunksOf cs (n - cs))"
proof -
  have e: "n + cs - 1 = (n - cs + cs - 1) + cs" using assms by linarith
  have "(n + cs - 1) div cs = (n - cs + cs - 1) div cs + 1"
    unfolding e using assms(1) by (intro div_add_self2) simp
  then show ?thesis by (simp only: chunksOf_def Suc_eq_plus1)
qed

lemma chunksOf_one:
  assumes "0 < n" and "n \<le> cs"
  shows "chunksOf cs n = 1"
proof -
  have e: "n + cs - 1 = (n - 1) + cs" using assms by linarith
  have "(n + cs - 1) div cs = (n - 1) div cs + 1"
    unfolding e using assms by (intro div_add_self2) simp
  moreover have "(n - 1) div cs = 0" using assms by simp
  ultimately show ?thesis by (simp only: chunksOf_def add_0)
qed

lemma chunksOf_le: "0 < cs \<Longrightarrow> n \<le> m * cs \<Longrightarrow> chunksOf cs n \<le> m"
proof -
  assume h: "0 < cs" "n \<le> m * cs"
  then have "n + cs - 1 < (m + 1) * cs" by simp
  then have "(n + cs - 1) div cs < m + 1" using h(1) by (simp add: div_less_iff_less_mult)
  then show ?thesis by (simp add: chunksOf_def)
qed

lemma DataInfo_chunkCount:
  assumes "cs \<noteq> 0" and "length (packData p) \<le> (2 ^ 32 - 1) * unat cs"
  shows "unat (diChunkCount (DataInfo us sha cs p)) =
    (if packData p = [] then 0 else chunksOf (unat cs) (length (packData p)))"
proof -
  have "chunksOf (unat cs) (length (packData p)) \<le> 2 ^ 32 - 1"
    using assms by (intro chunksOf_le) (auto simp: unat_gt_0)
  then show ?thesis using assms(1) by (simp add: DataInfo_def Let_def chunksOf_def unat_of_nat)
qed

definition nextInfo :: "stream list \<Rightarrow> ResourcePackDataInfo option" where
  "nextInfo streams = (case streams of [] \<Rightarrow> None | s # _ \<Rightarrow> Some (fst s))"

lemma announcedNext_take: "announcedNext (map DataInfoPacket (map fst (take 1 rest))) = nextInfo rest"
  by (cases rest) (simp_all add: announcedNext_def nextInfo_def)

lemma fetch_stream:
  assumes "queue_ok q" and "pending us sha q = (info, k, bs) # rest" and "bs \<noteq> []"
    and "k + chunksOf (unat (qChunkSize q)) (length bs) \<le> 2 ^ 32"
  shows "\<exists>q'. fetchChunks us sha (diUUID info) (map of_nat [k..<k + chunksOf (unat (qChunkSize q)) (length bs)]) q =
      Some (bs, nextInfo rest, q') \<and> queue_ok q' \<and> pending us sha q' = rest \<and> qChunkSize q' = qChunkSize q"
  using assms
proof (induction "length bs" arbitrary: q k bs rule: less_induct)
  case less
  let ?cs = "unat (qChunkSize q)" and ?n = "chunksOf (unat (qChunkSize q)) (length bs)"
  have cs: "0 < ?cs" using less.prems(1) by (simp add: queue_ok_def packs_fit_def unat_gt_0)
  obtain r q1 where h: "HandleChunkRequest us sha (diUUID info, of_nat k) q = (r, q1)" by fastforce
  note ok1 = handle_refines(1) [OF less.prems(1) h] and sim = handle_refines(2) [OF less.prems(1) h]
  note cs1 = handle_chunkSize [OF h]
  show ?case
  proof (cases "length bs \<le> ?cs")
    case True
    then have n: "?n = 1" using less.prems(3) by (intro chunksOf_one) auto
    then have "unat (of_nat k :: u32) = k" using less.prems(4) by (simp add: unat_of_nat)
    with sim True less.prems(2) have "pending us sha q1 = rest"
      and "r = Inr (ChunkDataPacket \<lparr>cdUUID = diUUID info, cdChunkIndex = of_nat k, cdDataOffset = k * ?cs, cdData = bs\<rparr> #
          map DataInfoPacket (map fst (take 1 rest)))"
      by (auto simp: streamStep_def)
    then show ?thesis using h ok1 cs1 announcedNext_take [of rest] by (simp add: n)
  next
    case False
    then have n: "?n = Suc (chunksOf ?cs (length (drop ?cs bs)))" using chunksOf_step [OF cs, of "length bs"] by simp
    then have "unat (of_nat k :: u32) = k" using less.prems(4) by (simp add: unat_of_nat)
    with sim False less.prems(2) have p1: "pending us sha q1 = (info, Suc k, drop ?cs bs) # rest"
      and r: "r = Inr [ChunkDataPacket \<lparr>cdUUID = diUUID info, cdChunkIndex = of_nat k, cdDataOffset = k * ?cs, cdData = take ?cs bs\<rparr>]"
      by (auto simp: streamStep_def)
    have "length (drop ?cs bs) < length bs" using cs False by auto
    from less.hyps [OF this ok1 p1] False less.prems(4)
    obtain q' where q': "fetchChunks us sha (diUUID info) (map of_nat [Suc k..<Suc k + chunksOf ?cs (length (drop ?cs bs))]) q1 =
        Some (drop ?cs bs, nextInfo rest, q')" "queue_ok q'" "pending us sha q' = rest" "qChunkSize q' = qChunkSize q"
      by (auto simp: cs1 n)
    have "chunksOf ?cs (length (drop ?cs bs)) \<noteq> 0"
      using False cs by (auto simp: chunksOf_def div_eq_0_iff)
    moreover have "[k..<k + ?n] = k # [Suc k..<Suc k + chunksOf ?cs (length (drop ?cs bs))]"
      by (simp add: n upt_conv_Cons)
    ultimately show ?thesis using h r q' by simp
  qed
qed

lemma fetch_all:
  assumes "queue_ok q" and "pending us sha q = map (freshStream us sha (qChunkSize q)) ps"
    and "\<forall>p \<in> set ps. length (packData p) \<le> (2 ^ 32 - 1) * unat (qChunkSize q)"
  shows "if \<forall>p \<in> set (butlast ps). packData p \<noteq> []
    then \<exists>q'. fetchPacks us sha (length ps) (nextInfo (pending us sha q)) q =
      Some (map (\<lambda>p. (us (packUUID p), packData p)) ps, q')
    else fetchPacks us sha (length ps) (nextInfo (pending us sha q)) q = None"
  using assms
proof (induction ps arbitrary: q)
  case (Cons p ps)
  let ?cs = "qChunkSize q" and ?info = "DataInfo us sha (qChunkSize q) p"
  have cs: "?cs \<noteq> 0" using Cons.prems(1) by (simp add: queue_ok_def packs_fit_def)
  have len: "length (packData p) \<le> (2 ^ 32 - 1) * unat ?cs" using Cons.prems(3) by simp
  have n: "nextInfo (pending us sha q) = Some ?info" by (simp add: Cons.prems(2) nextInfo_def freshStream_def)
  show ?case
  proof (cases "packData p = []")
    case True
    have c: "unat (diChunkCount ?info) = 0" unfolding DataInfo_chunkCount [OF cs len] using True by simp
    then have "diChunkCount ?info = 0" by (simp add: unat_eq_0)
    then show ?thesis by (cases ps) (simp_all add: n True)
  next
    case False
    then have c: "unat (diChunkCount ?info) = chunksOf (unat ?cs) (length (packData p))"
      using DataInfo_chunkCount [OF cs len] by simp
    moreover have "chunksOf (unat ?cs) (length (packData p)) \<le> 2 ^ 32 - 1"
      using cs len by (intro chunksOf_le) (auto simp: unat_gt_0)
    ultimately obtain q' where q': "fetchChunks us sha (diUUID ?info) (map of_nat [0..<unat (diChunkCount ?info)]) q =
        Some (packData p, nextInfo (map (freshStream us sha ?cs) ps), q')" "queue_ok q'"
        "pending us sha q' = map (freshStream us sha ?cs) ps" "qChunkSize q' = ?cs"
      using fetch_stream [OF Cons.prems(1), of us sha ?info 0 "packData p" "map (freshStream us sha ?cs) ps"]
        Cons.prems(2) False by (auto simp: freshStream_def)
    have ih: "if \<forall>p \<in> set (butlast ps). packData p \<noteq> []
      then \<exists>q''. fetchPacks us sha (length ps) (nextInfo (pending us sha q')) q' =
        Some (map (\<lambda>p. (us (packUUID p), packData p)) ps, q'')
      else fetchPacks us sha (length ps) (nextInfo (pending us sha q')) q' = None"
      using Cons.IH [OF q'(2)] q'(3,4) Cons.prems(3) by simp
    have b: "(\<forall>p \<in> set (butlast (p # ps)). packData p \<noteq> []) \<longleftrightarrow> (\<forall>p \<in> set (butlast ps). packData p \<noteq> [])"
      using False by simp
    show ?thesis unfolding b using ih q'(1,3) by (simp add: n del: butlast.simps split: if_splits)
  qed
qed simp


section \<open>The main properties\<close>

text \<open>
  C8. The download queue implements the abstract byte streams: whatever a client requests, the
  queue keeps its invariant; a request that does not name the current pack and its next chunk is
  refused and changes nothing; any other request is answered by the next piece of the stream at the
  right offset, followed by the announcement of the next pack exactly when this one is finished,
  and the queue then stands for the remaining streams.
\<close>

theorem queue_refines_streams:
  assumes "queue_ok q" and "HandleChunkRequest us sha (u, k) q = (r, q')"
  shows "queue_ok q' \<and>
    (case streamStep (unat (qChunkSize q)) (u, k) (pending us sha q) of
        None \<Rightarrow> (\<exists>e. r = Inl e) \<and> q' = q
      | Some (payload, announced, rest) \<Rightarrow>
          r = Inr (ChunkDataPacket \<lparr>cdUUID = u, cdChunkIndex = k, cdDataOffset = unat k * unat (qChunkSize q), cdData = payload\<rparr>
            # map DataInfoPacket announced) \<and> pending us sha q' = rest)"
  using handle_refines [OF assms] by (rule conjI)

definition samplePack :: "uuid \<Rightarrow> bytes \<Rightarrow> Pack" where
  "samplePack u bs =
     \<lparr>packUUID = u, packVersion = ''1.0.0'', packData = bs, packType = 6, packContentKey = [], packSubPackName = [],
      packContentIdentity = [], packAddonPack = False, packHasScripts = False, packPremium = False, packDownloadURL = []\<rparr>"

definition bitString :: "uuid \<Rightarrow> string" where
  "bitString u = map (\<lambda>i. if bit u i then CHR ''1'' else CHR ''0'') [0..<128]"

definition sampleQueue :: Queue where
  "sampleQueue = \<lparr>qPacks = [samplePack 1 [7, 8, 9], samplePack 2 [5]], qSelected = [0, 1], qCurrent = 0,
     qCurrentChunk = 1, qChunkSize = 2\<rparr>"

text \<open>Witness of \<open>queue_refines_streams\<close>: the last chunk of a pack, with the next pack announced.\<close>

theorem queue_refines_streams_witness:
  "\<exists>r q'. HandleChunkRequest bitString id (bitString 1, 1) sampleQueue = (r, q') \<and> queue_ok q' \<and>
     r = Inr [ChunkDataPacket \<lparr>cdUUID = bitString 1, cdChunkIndex = 1, cdDataOffset = 2, cdData = [9]\<rparr>,
              DataInfoPacket (DataInfo bitString id 2 (samplePack 2 [5]))]"
proof -
  have ok: "queue_ok sampleQueue"
    by (auto simp: queue_ok_def packs_fit_def sampleQueue_def samplePack_def currentPack_def)
  obtain r q' where h: "HandleChunkRequest bitString id (bitString 1, 1) sampleQueue = (r, q')" by fastforce
  have "streamStep (unat (qChunkSize sampleQueue)) (bitString 1, 1) (pending bitString id sampleQueue) =
      Some ([9], [DataInfo bitString id 2 (samplePack 2 [5])], [freshStream bitString id 2 (samplePack 2 [5])])"
    by (simp add: streamStep_def pending_def sampleQueue_def currentPack_def samplePack_def freshStream_def)
  with queue_refines_streams [OF ok h] h show ?thesis by (auto simp: sampleQueue_def)
qed

text \<open>
  C33. A download completes: after \<^verbatim>\<open>Begin\<close> has selected the requested packs, each once and in the
  order of their first request, a client that asks for the announced chunks in order receives the
  exact contents of all of them, as long as no pack but the last one is empty. An empty pack is
  announced with no chunks, but the queue moves on only when a chunk of it is requested, so the
  packs after it are never announced and such a client waits forever.
\<close>

theorem download_completes:
  assumes "packs_fit q0" and "requests \<noteq> []" and "Begin us sha requests q0 = (Inr pks, q)"
  shows "qSelected q = fold appendNew (map (the \<circ> findPack us q0) requests) [] \<and>
    (\<exists>info. pks = [DataInfoPacket info] \<and>
      (if \<forall>i \<in> set (butlast (qSelected q)). packData (qPacks q0 ! i) \<noteq> []
       then \<exists>q'. fetchPacks us sha (length (qSelected q)) (Some info) q =
         Some (map (\<lambda>i. (us (packUUID (qPacks q0 ! i)), packData (qPacks q0 ! i))) (qSelected q), q')
       else fetchPacks us sha (length (qSelected q)) (Some info) q = None))"
proof -
  note b = Begin_ok [OF assms(1,3,2)]
  let ?ps = "map (\<lambda>i. qPacks q0 ! i) (qSelected q)"
  have p: "pending us sha q = map (freshStream us sha (qChunkSize q)) ?ps"
    using pending_next [OF b(4), of us sha] b(3,5) by simp
  have fit: "\<forall>p \<in> set ?ps. length (packData p) \<le> (2 ^ 32 - 1) * unat (qChunkSize q)"
    using b(2,5) by (auto simp: queue_ok_def packs_fit_def)
  obtain info where info: "nextInfo (pending us sha q) = Some info" "pks = [DataInfoPacket info]"
    using b(7,8) p by (cases "qSelected q") (auto simp: nextInfo_def)
  from fetch_all [OF b(2) p fit] have
    "if \<forall>i \<in> set (butlast (qSelected q)). packData (qPacks q0 ! i) \<noteq> []
     then \<exists>q'. fetchPacks us sha (length (qSelected q)) (Some info) q =
       Some (map (\<lambda>i. (us (packUUID (qPacks q0 ! i)), packData (qPacks q0 ! i))) (qSelected q), q')
     else fetchPacks us sha (length (qSelected q)) (Some info) q = None"
    by (simp add: map_butlast [symmetric] comp_def info(1) split: if_split_asm)
  with b(1) info(2) show ?thesis by blast
qed

text \<open>Witness of \<open>download_completes\<close>: two packs, one of them requested twice.\<close>

theorem download_completes_witness:
  "\<exists>q q' info. Begin bitString id [bitString 2, bitString 1, bitString 2] sampleQueue = (Inr [DataInfoPacket info], q) \<and>
     fetchPacks bitString id 2 (Some info) q = Some ([(bitString 2, [5]), (bitString 1, [7, 8, 9])], q')"
proof -
  let ?rs = "[bitString 2, bitString 1, bitString 2]"
  have fit: "packs_fit sampleQueue" by (simp add: packs_fit_def sampleQueue_def samplePack_def)
  have f: "findPack bitString sampleQueue (bitString 2) = Some 1" "findPack bitString sampleQueue (bitString 1) = Some 0"
    by code_simp+
  have "\<not> isl (fst (Begin bitString id ?rs sampleQueue))" by code_simp
  then obtain pks q where b: "Begin bitString id ?rs sampleQueue = (Inr pks, q)"
    by (cases "Begin bitString id ?rs sampleQueue") (metis fst_conv sum.collapse(2))
  have sel: "fold appendNew (map (the \<circ> findPack bitString sampleQueue) ?rs) [] = [1, 0]"
    by (simp add: f appendNew_def)
  from download_completes [OF fit _ b] b show ?thesis unfolding sel
    by (auto simp: sampleQueue_def samplePack_def numeral_2_eq_2)
qed

end
