(* ===== verification/Float32.thy ===== *)
theory Float32
  imports Prelude "HOL-Library.Log_Nat"
begin

unbundle bit_operations_syntax

text \<open>
  Go's \<^verbatim>\<open>float32\<close>, as far as player movement uses it (\<^verbatim>\<open>internal/server/mcpe_player_sync.go\<close>): the
  tests for finite values, comparison, addition, subtraction and the normalisation of angles.

  A value is its IEEE 754 bit pattern. Every finite value is an integer multiple of \<open>2 ^ -149\<close>, so
  finite arithmetic is exact integer arithmetic in this unit, \<open>magUnits\<close>, followed by rounding to the
  nearest representable value, ties to even, \<open>roundMag\<close>. The payload of a NaN that an operation
  creates is not specified by the language and is the canonical one here.
\<close>

type_synonym float32 = u32

definition fMag :: "float32 \<Rightarrow> nat" where
  "fMag v = unat (take_bit 31 v)"

definition fNegative :: "float32 \<Rightarrow> bool" where
  "fNegative v = bit v 31"

definition isNaN :: "float32 \<Rightarrow> bool" where
  "isNaN v \<longleftrightarrow> fMag v > 255 * 2 ^ 23"

definition isInf :: "float32 \<Rightarrow> bool" where
  "isInf v \<longleftrightarrow> fMag v = 255 * 2 ^ 23"

definition finiteFloat :: "float32 \<Rightarrow> bool" where
  "finiteFloat v \<longleftrightarrow> \<not> isNaN v \<and> \<not> isInf v"

definition magUnits :: "nat \<Rightarrow> nat" where
  "magUnits m = (if m div 2 ^ 23 = 0 then m else (2 ^ 23 + m mod 2 ^ 23) * 2 ^ (m div 2 ^ 23 - 1))"

definition units :: "float32 \<Rightarrow> int" where
  "units v = (if fNegative v then - int (magUnits (fMag v)) else int (magUnits (fMag v)))"

definition roundMag :: "nat \<Rightarrow> nat" where
  "roundMag y =
     (let k = floorlog 2 y - 24; q = y div 2 ^ k; r = y mod 2 ^ k;
          n = (if 2 * r > 2 ^ k \<or> 2 * r = 2 ^ k \<and> odd q then q + 1 else q)
      in min (255 * 2 ^ 23) (k * 2 ^ 23 + n))"

definition makeFloat :: "bool \<Rightarrow> nat \<Rightarrow> float32" where
  "makeFloat negative m = of_nat (m + (if negative then 2 ^ 31 else 0))"

definition canonicalNaN :: float32 where
  "canonicalNaN = 0x7FC00000"

definition fEqual :: "float32 \<Rightarrow> float32 \<Rightarrow> bool" where
  "fEqual a b \<longleftrightarrow> \<not> isNaN a \<and> \<not> isNaN b \<and> (a = b \<or> fMag a = 0 \<and> fMag b = 0)"

definition fBelowZero :: "float32 \<Rightarrow> bool" where
  "fBelowZero v \<longleftrightarrow> \<not> isNaN v \<and> fNegative v \<and> fMag v \<noteq> 0"

definition fAdd :: "float32 \<Rightarrow> float32 \<Rightarrow> float32" where
  "fAdd a b =
     (if isNaN a \<or> isNaN b then canonicalNaN
      else if isInf a then (if isInf b \<and> fNegative a \<noteq> fNegative b then canonicalNaN else a)
      else if isInf b then b
      else
        let s = units a + units b in
        if s = 0 then makeFloat (fNegative a \<and> fNegative b) 0
        else makeFloat (s < 0) (roundMag (nat \<bar>s\<bar>)))"

definition fSub :: "float32 \<Rightarrow> float32 \<Rightarrow> float32" where
  "fSub a b = fAdd a (b XOR 0x80000000)"

text \<open>The exact value of a rational that is representable, such as a spawn coordinate.\<close>

definition fOfRat :: "rat \<Rightarrow> float32" where
  "fOfRat x = makeFloat (x < 0) (roundMag (nat \<lfloor>\<bar>x\<bar> * 2 ^ 149\<rfloor>))"

text \<open>
  \<^verbatim>\<open>int32(v)\<close> truncates towards zero. For a value outside the range the language leaves the result to
  the implementation, which is the parameter \<open>overflow\<close>.
\<close>

definition fToInt32 :: "(float32 \<Rightarrow> int) \<Rightarrow> float32 \<Rightarrow> int" where
  "fToInt32 overflow v =
     (let t = int (magUnits (fMag v) div 2 ^ 149); n = (if fNegative v then - t else t) in
      if finiteFloat v \<and> in_i32 n then n else overflow v)"

section \<open>Angles\<close>

definition fullTurn :: float32 where
  "fullTurn = 0x43B40000"

text \<open>
  \<^verbatim>\<open>float32(math.Mod(float64(value), 360))\<close>. The remainder is taken towards zero, is exact, and keeps
  the sign of the dividend, also when it is zero.
\<close>

definition mod360 :: "float32 \<Rightarrow> float32" where
  "mod360 v =
     (if isNaN v \<or> isInf v then canonicalNaN
      else makeFloat (fNegative v) (roundMag (magUnits (fMag v) mod (360 * 2 ^ 149))))"

definition normaliseDegrees :: "float32 \<Rightarrow> float32" where
  "normaliseDegrees v0 = (let v = mod360 v0 in if fBelowZero v then fAdd v fullTurn else v)"

section \<open>Rounding\<close>

lemma bit_unat: "bit (v :: float32) 31 = bit (unat v) 31"
  by (simp add: bit_unsigned_iff)

lemma field_split: "a < 2 ^ 23 \<Longrightarrow> (a + b * 2 ^ 23) div 2 ^ 23 = b \<and> (a + b * 2 ^ 23) mod 2 ^ 23 = (a :: nat)"
  by simp

lemma fMag_less: "fMag v < 2 ^ 31"
  using take_bit_nat_less_exp [of 31 "unat v"] by (simp add: fMag_def unsigned_take_bit_eq)

lemma makeFloat_simps:
  assumes "m < 2 ^ 31"
  shows "fMag (makeFloat negative m) = m" and "fNegative (makeFloat negative m) = negative"
proof -
  have u: "unat (makeFloat negative m) = m + (if negative then 2 ^ 31 else 0)"
    using assms unfolding makeFloat_def unat_of_nat by simp
  show "fMag (makeFloat negative m) = m"
    using assms unfolding fMag_def unsigned_take_bit_eq u by (simp add: take_bit_eq_mod)
  have "(m + 2 ^ 31) div 2 ^ 31 = 1" "m div 2 ^ 31 = 0" using assms by simp_all
  then show "fNegative (makeFloat negative m) = negative"
    unfolding fNegative_def bit_unat u by (simp add: bit_iff_odd)
qed

lemma magUnits_step: "magUnits m \<le> magUnits (Suc m)"
proof (cases "Suc (m mod 2 ^ 23) = 2 ^ 23")
  case True
  then have d: "Suc m div 2 ^ 23 = Suc (m div 2 ^ 23)" "Suc m mod 2 ^ 23 = 0" by (simp_all add: div_Suc mod_Suc)
  have m: "m mod 2 ^ 23 = 2 ^ 23 - 1" using True by simp
  show ?thesis
  proof (cases "m div 2 ^ 23")
    case 0
    then have "m < 2 ^ 23" by (simp add: div_eq_0_iff)
    then show ?thesis using 0 d by (simp add: magUnits_def)
  next
    case (Suc e)
    have "(2 ^ 23 + (2 ^ 23 - 1)) * 2 ^ e \<le> 2 ^ 23 * (2 ^ Suc e :: nat)" by simp
    then show ?thesis unfolding magUnits_def d m Suc by simp
  qed
next
  case False
  then have d: "Suc m div 2 ^ 23 = m div 2 ^ 23" "Suc m mod 2 ^ 23 = Suc (m mod 2 ^ 23)"
    by (simp_all add: div_Suc mod_Suc)
  show ?thesis unfolding magUnits_def d by simp
qed

lemma magUnits_mono: "m \<le> m' \<Longrightarrow> magUnits m \<le> magUnits m'"
  by (rule lift_Suc_mono_le [of magUnits, OF magUnits_step])

lemma floorlog_excess:
  assumes "0 < floorlog 2 y - 24"
  shows "2 ^ (floorlog 2 y - 24 + 23) \<le> y"
proof -
  have "y > 0" using assms by (cases y) (auto simp: floorlog_def)
  then have "2 ^ (floorlog 2 y - 1) \<le> y" using floorlog_bounds [of y 2] by simp
  moreover have "floorlog 2 y - 24 + 23 = floorlog 2 y - 1" using assms by simp
  ultimately show ?thesis by simp
qed

lemma floorlog_quotient: "y div 2 ^ (floorlog 2 y - 24) < 2 ^ 24"
proof -
  have "y < 2 ^ (floorlog 2 y - 24 + 24)"
  proof (cases "y = 0")
    case False
    then have "y < 2 ^ floorlog 2 y" using floorlog_bounds [of y 2] by simp
    also have "\<dots> \<le> 2 ^ (floorlog 2 y - 24 + 24)" by (rule power_increasing) simp_all
    finally show ?thesis .
  qed simp
  then show ?thesis by (simp add: div_less_iff_less_mult power_add mult.commute)
qed

text \<open>Rounding stays below the encoding of any 24-bit multiple of a power of two that bounds its argument.\<close>

lemma roundMag_le:
  assumes "y < c * 2 ^ e" and "2 ^ 23 \<le> c" and "c \<le> 2 ^ 24"
  shows "roundMag y \<le> e * 2 ^ 23 + c"
proof -
  let ?k = "floorlog 2 y - 24"
  let ?q = "y div 2 ^ ?k"
  have "y < 2 ^ 24 * 2 ^ e" using assms(1,3) mult_le_mono1 [of c "2 ^ 24" "2 ^ e"] by linarith
  then have "floorlog 2 y \<le> 24 + e" by (intro floorlog_leI) (simp_all add: power_add)
  then have k: "?k \<le> e" by simp
  have n: "roundMag y \<le> ?k * 2 ^ 23 + (?q + 1)" by (auto simp: roundMag_def Let_def)
  show ?thesis
  proof (cases "?k = e")
    case True
    have "y div 2 ^ e < c" using assms(1) by (simp add: div_less_iff_less_mult)
    moreover have "roundMag y \<le> e * 2 ^ 23 + (y div 2 ^ e + 1)" using n unfolding True .
    ultimately show ?thesis by linarith
  next
    case False
    then have "?k + 1 \<le> e" using k by simp
    then have "(?k + 1) * 2 ^ 23 \<le> e * 2 ^ 23" by (rule mult_le_mono1)
    moreover have "?q + 1 \<le> 2 ^ 24" using floorlog_quotient [of y] by linarith
    ultimately show ?thesis using n assms(2) by (simp add: add_mult_distrib)
  qed
qed

lemma roundMag_exact:
  assumes y: "y = c * 2 ^ e" and c: "c < 2 ^ 24" and small: "roundMag y < 255 * 2 ^ 23"
  shows "magUnits (roundMag y) = y"
proof -
  let ?k = "floorlog 2 y - 24"
  let ?q = "y div 2 ^ ?k"
  have "y < 2 ^ 24 * 2 ^ e" using y c by simp
  then have "floorlog 2 y \<le> 24 + e" by (intro floorlog_leI) (simp_all add: power_add)
  then have k: "?k \<le> e" by simp
  then have "y = c * 2 ^ (e - ?k) * 2 ^ ?k" by (subst y) (simp add: power_add [symmetric])
  then have dvd: "2 ^ ?k dvd y" by (metis dvd_triv_right)
  then have "y mod 2 ^ ?k = 0" by simp
  then have r: "roundMag y = ?k * 2 ^ 23 + ?q" using small by (auto simp: roundMag_def Let_def min_def split: if_splits)
  have yq: "y = ?q * 2 ^ ?k" using dvd by simp
  have q: "?q < 2 ^ 24" by (rule floorlog_quotient)
  show ?thesis
  proof (cases "?k = 0")
    case True
    with q have "magUnits ?q = ?q"
      by (cases "?q < 2 ^ 23") (auto simp: magUnits_def div_eq_0_iff div_nat_eqI mod_if le_div_geq)
    then show ?thesis using r yq True by simp
  next
    case False
    then have "0 < ?k" by simp
    from floorlog_excess [OF this] have "2 ^ 23 * 2 ^ ?k \<le> y" by (simp only: power_add mult.commute)
    then have "2 ^ 23 \<le> ?q" by (simp add: less_eq_div_iff_mult_less_eq)
    then have f: "roundMag y = (?q - 2 ^ 23) + (?k + 1) * 2 ^ 23" using r by simp
    have "?q - 2 ^ 23 < 2 ^ 23" using q by simp
    from field_split [OF this, of "?k + 1"]
    have "roundMag y div 2 ^ 23 = ?k + 1" "roundMag y mod 2 ^ 23 = ?q - 2 ^ 23"
      unfolding f by blast+
    then show ?thesis using yq \<open>2 ^ 23 \<le> ?q\<close> by (simp add: magUnits_def)
  qed
qed


section \<open>The range of normalised angles\<close>

lemma turn_units: "(360 :: nat) * 2 ^ 149 = 0xB40000 * 2 ^ 134"
  by simp

lemma fullTurn_simps: "fMag fullTurn = 134 * 2 ^ 23 + 0xB40000" "\<not> fNegative fullTurn"
  by (simp_all add: fMag_def fullTurn_def fNegative_def)

lemma magUnits_fullTurn: "magUnits (134 * 2 ^ 23 + 0xB40000) = 360 * 2 ^ 149"
  by (simp add: magUnits_def)

lemma units_fullTurn: "units fullTurn = 360 * 2 ^ 149"
proof -
  have "int (360 * 2 ^ 149) = 360 * 2 ^ 149" by (simp only: of_nat_mult of_nat_power of_nat_numeral)
  then show ?thesis unfolding units_def fullTurn_simps(1) magUnits_fullTurn using fullTurn_simps(2) by simp
qed

lemma magUnits_representable: "\<exists>c e. magUnits m = c * 2 ^ e \<and> c < 2 ^ 24"
proof (cases "m div 2 ^ 23 = 0")
  case True
  then have "m < 2 ^ 23" by (simp add: div_eq_0_iff)
  then have "magUnits m = m * 2 ^ 0" "m < 2 ^ 24" using True by (simp_all add: magUnits_def)
  then show ?thesis by blast
next
  case False
  have "2 ^ 23 + m mod 2 ^ 23 < (2 ^ 24 :: nat)" by simp
  moreover have "magUnits m = (2 ^ 23 + m mod 2 ^ 23) * 2 ^ (m div 2 ^ 23 - 1)" using False by (simp add: magUnits_def)
  ultimately show ?thesis by blast
qed

text \<open>The remainder of a representable number by a full turn is representable, so \<^verbatim>\<open>mod360\<close> does not round.\<close>

lemma mod_representable:
  assumes "c < 2 ^ 24"
  shows "\<exists>c' e'. c * 2 ^ e mod (360 * 2 ^ 149) = c' * 2 ^ e' \<and> c' < (2 ^ 24 :: nat)"
proof (cases "e \<le> 134")
  case True
  then have "(360 :: nat) * 2 ^ 149 = (0xB40000 * 2 ^ (134 - e)) * 2 ^ e"
    unfolding turn_units by (simp add: mult.assoc power_add [symmetric])
  then have "c * 2 ^ e mod (360 * 2 ^ 149) = (c mod (0xB40000 * 2 ^ (134 - e))) * 2 ^ e"
    by (simp only: mod_mult_mult2)
  moreover have "c mod (0xB40000 * 2 ^ (134 - e)) < 2 ^ 24" using assms by (meson le_less_trans mod_less_eq_dividend)
  ultimately show ?thesis by blast
next
  case False
  then have "(2 :: nat) ^ e = 2 ^ (e - 134) * 2 ^ 134" unfolding power_add [symmetric] by simp
  then have "c * 2 ^ e = (c * 2 ^ (e - 134)) * 2 ^ 134" by (simp only: mult.assoc)
  then have "c * 2 ^ e mod (360 * 2 ^ 149) = (c * 2 ^ (e - 134) mod 0xB40000) * 2 ^ 134"
    unfolding turn_units by (simp only: mod_mult_mult2)
  moreover have "c * 2 ^ (e - 134) mod 0xB40000 < (0xB40000 :: nat)" by simp
  then have "c * 2 ^ (e - 134) mod 0xB40000 < (2 ^ 24 :: nat)" by (rule less_trans) simp
  ultimately show ?thesis by blast
qed

lemma roundMag_below_turn: "y < 360 * 2 ^ 149 \<Longrightarrow> roundMag y \<le> 134 * 2 ^ 23 + 0xB40000"
  unfolding turn_units by (rule roundMag_le) simp_all

lemma mod360_units:
  assumes "finiteFloat v"
  shows "finiteFloat (mod360 v)" and "magUnits (fMag (mod360 v)) = magUnits (fMag v) mod (360 * 2 ^ 149)"
    and "fNegative (mod360 v) = fNegative v"
proof -
  let ?y = "magUnits (fMag v) mod (360 * 2 ^ 149)"
  have "?y < 360 * 2 ^ 149" by simp
  then have r: "roundMag ?y \<le> 134 * 2 ^ 23 + 0xB40000" by (rule roundMag_below_turn)
  then have b: "roundMag ?y < 2 ^ 31" "roundMag ?y < 255 * 2 ^ 23" by simp_all
  have e: "mod360 v = makeFloat (fNegative v) (roundMag ?y)" using assms by (simp add: mod360_def finiteFloat_def)
  have f: "fMag (mod360 v) = roundMag ?y" unfolding e by (rule makeFloat_simps(1) [OF b(1)])
  show "fNegative (mod360 v) = fNegative v" unfolding e by (rule makeFloat_simps(2) [OF b(1)])
  show "finiteFloat (mod360 v)" using b(2) by (simp add: finiteFloat_def isNaN_def isInf_def f)
  obtain c e where "magUnits (fMag v) = c * 2 ^ e" "c < 2 ^ 24" using magUnits_representable by blast
  then obtain c' e' where "?y = c' * 2 ^ e'" "c' < 2 ^ 24" using mod_representable [of c e] by auto
  then show "magUnits (fMag (mod360 v)) = ?y" unfolding f using b(2) by (rule roundMag_exact)
qed

lemma roundMag_turn: "roundMag (360 * 2 ^ 149 - 1) = 134 * 2 ^ 23 + 0xB40000"
proof -
  have "floorlog 2 (360 * 2 ^ 149 - 1) = 158"
    by (intro antisym floorlog_leI floorlog_geI) simp_all
  then show ?thesis by (simp add: roundMag_def)
qed

lemma roundMag_one: "roundMag 1 = 1"
proof -
  have "floorlog 2 1 \<le> 24" by (intro floorlog_leI) simp_all
  then show ?thesis by (simp add: roundMag_def)
qed

lemma normalise_tiny: "normaliseDegrees (makeFloat True 1) = fullTurn"
proof -
  let ?t = "makeFloat True 1"
  have f: "fMag ?t = 1" "fNegative ?t" using makeFloat_simps [of 1 True] by simp_all
  then have t: "\<not> isNaN ?t" "\<not> isInf ?t" "units ?t = - 1" "fBelowZero ?t"
    by (simp_all add: isNaN_def isInf_def units_def magUnits_def fBelowZero_def)
  have "magUnits (fMag ?t) mod (360 * 2 ^ 149) = 1" unfolding f(1) by (simp add: magUnits_def)
  then have m: "mod360 ?t = ?t" using t(1,2) f by (simp only: mod360_def) (simp add: roundMag_one del: One_nat_def)
  have fin: "\<not> isNaN fullTurn" "\<not> isInf fullTurn" by (simp_all add: isNaN_def isInf_def fullTurn_simps)
  have "nat \<bar>- 1 + 360 * 2 ^ 149 :: int\<bar> = 360 * 2 ^ 149 - 1" by simp
  then have "fAdd ?t fullTurn = makeFloat False (134 * 2 ^ 23 + 0xB40000)"
    using t fin roundMag_turn unfolding fAdd_def Let_def units_fullTurn t(3) by (simp only: if_False) simp
  also have "\<dots> = fullTurn" by (simp add: makeFloat_def fullTurn_def)
  finally show ?thesis using t(4) by (simp only: normaliseDegrees_def m Let_def if_True)
qed

text \<open>
  C34. Normalised angles: for every finite angle the result is finite and lies between 0 and 360
  degrees; a non-negative angle gives its exact remainder, below 360; an angle whose remainder is a
  tiny negative number is rounded up to exactly 360.
\<close>

theorem normalise_degrees_range:
  assumes "finiteFloat v"
  shows "finiteFloat (normaliseDegrees v) \<and>
    0 \<le> units (normaliseDegrees v) \<and> units (normaliseDegrees v) \<le> 360 * 2 ^ 149 \<and>
    (0 \<le> units v \<longrightarrow> units (normaliseDegrees v) = units v mod (360 * 2 ^ 149)) \<and>
    normaliseDegrees (makeFloat True 1) = fullTurn"
proof -
  note m = mod360_units [OF assms]
  let ?w = "mod360 v" and ?T = "360 * 2 ^ 149 :: nat"
  have y: "magUnits (fMag ?w) < ?T" unfolding m(2) by simp
  have tiny: "normaliseDegrees (makeFloat True 1) = fullTurn" by (rule normalise_tiny)
  have z: "magUnits 0 = 0" by (simp add: magUnits_def)
  have zero_iff: "fMag a = 0 \<longleftrightarrow> magUnits (fMag a) = 0" for a
    by (auto simp: magUnits_def div_eq_0_iff)
  show ?thesis
  proof (cases "fBelowZero ?w")
    case True
    then have neg: "fNegative v" "fMag ?w \<noteq> 0" using m(3) by (simp_all add: fBelowZero_def)
    define s where "s = ?T - magUnits (fMag ?w)"
    have pos: "0 < magUnits (fMag ?w)" using neg(2) zero_iff [of ?w] by simp
    have s: "units ?w + units fullTurn = int s" "0 < s" "s < ?T"
      using y pos neg(1) m(3) unfolding units_fullTurn by (simp_all add: units_def s_def of_nat_diff)
    have fin: "\<not> isNaN ?w" "\<not> isInf ?w" "\<not> isNaN fullTurn" "\<not> isInf fullTurn"
      using m(1) by (simp_all add: finiteFloat_def isNaN_def isInf_def fullTurn_simps)
    have n: "normaliseDegrees v = makeFloat False (roundMag s)"
      using True fin s(2) unfolding normaliseDegrees_def fAdd_def Let_def s(1) by simp
    have r: "roundMag s \<le> 134 * 2 ^ 23 + 0xB40000" by (rule roundMag_below_turn [OF s(3)])
    then have "roundMag s < 2 ^ 31" by simp
    note f = makeFloat_simps [OF this, of False]
    have "magUnits (roundMag s) \<le> ?T" using magUnits_mono [OF r] unfolding magUnits_fullTurn .
    then have "units (normaliseDegrees v) = int (magUnits (roundMag s))" "magUnits (roundMag s) \<le> ?T"
      by (simp_all add: n units_def f)
    moreover have "finiteFloat (normaliseDegrees v)" using r by (simp add: n finiteFloat_def isNaN_def isInf_def f)
    moreover have "\<not> 0 \<le> units v"
      using neg(1) pos m(2) by (auto simp: units_def)
    ultimately show ?thesis using tiny by simp
  next
    case False
    then have n: "normaliseDegrees v = ?w" by (simp add: normaliseDegrees_def)
    have "fNegative ?w \<longrightarrow> magUnits (fMag ?w) = 0"
      using False m(1) zero_iff [of ?w] by (auto simp: fBelowZero_def finiteFloat_def)
    then have u: "units ?w = int (magUnits (fMag v) mod ?T)" unfolding m(2) [symmetric] by (auto simp: units_def)
    have "units ?w = units v mod (360 * 2 ^ 149)" if "0 \<le> units v"
    proof -
      have "units v = int (magUnits (fMag v))" using that by (auto simp: units_def split: if_splits)
      then show ?thesis unfolding u by (simp add: zmod_int)
    qed
    moreover have "int (magUnits (fMag v) mod ?T) \<le> 360 * 2 ^ 149" using y unfolding m(2) by simp
    ultimately show ?thesis using tiny m(1) u by (simp add: n)
  qed
qed

text \<open>Witness of \<open>normalise_degrees_range\<close>: 725 degrees, which normalise to 5.\<close>

theorem normalise_degrees_range_witness:
  "finiteFloat 0x44354000 \<and> units (normaliseDegrees 0x44354000) = 5 * 2 ^ 149"
proof -
  have f: "finiteFloat 0x44354000" by (simp add: finiteFloat_def isNaN_def isInf_def fMag_def)
  have u: "units 0x44354000 = 725 * 2 ^ 149" by (simp add: units_def fNegative_def fMag_def magUnits_def)
  have "0 \<le> units 0x44354000" unfolding u by simp
  then have "units (normaliseDegrees 0x44354000) = units 0x44354000 mod (360 * 2 ^ 149)"
    using normalise_degrees_range [OF f] by blast
  then show ?thesis using f unfolding u by simp
qed

end
