(* ===== verification/Handshake.thy ===== *)
theory Handshake
  imports Prelude
begin

text \<open>
  The encryption handshake (\<^verbatim>\<open>internal/server/mcpe_handshake.go\<close>): deriving the session key from the
  peers' keys and a salt, the token that carries the salt, and the client's side of the exchange.

  An elliptic curve is known by its name, nil pointers are \<open>None\<close>, big integers are \<open>nat\<close>. Scalar
  multiplication on the curve (\<open>mult\<close>), SHA-256 (\<open>sha\<close>) and the JOSE library with the key
  serialisation of the protocol library (record \<open>jose\<close>) are parameters. The unpadded base64 of the
  standard library is defined here.
\<close>

section \<open>Unpadded base64\<close>

definition b64Alphabet :: string where
  "b64Alphabet = ''ABCDEFGHIJKLMNOPQRSTUVWXYZabcdefghijklmnopqrstuvwxyz0123456789+/''"

definition b64Char :: "nat \<Rightarrow> char" where
  "b64Char n = b64Alphabet ! n"

definition b64Value :: "char \<Rightarrow> nat option" where
  "b64Value c = map_option fst (find (\<lambda>(i, x). x = c) (enumerate 0 b64Alphabet))"

fun encodeGroups :: "nat list \<Rightarrow> nat list" where
  "encodeGroups [] = []"
| "encodeGroups [a] = [a div 4, a mod 4 * 16]"
| "encodeGroups [a, b] = [a div 4, a mod 4 * 16 + b div 16, b mod 16 * 4]"
| "encodeGroups (a # b # c # rest) =
     [a div 4, a mod 4 * 16 + b div 16, b mod 16 * 4 + c div 64, c mod 64] @ encodeGroups rest"

definition RawEncodeToString :: "bytes \<Rightarrow> string" where
  "RawEncodeToString bs = map b64Char (encodeGroups (map unat bs))"

text \<open>The decoder skips line breaks and ignores the unused low bits of the last character.\<close>

fun decodeGroups :: "nat list \<Rightarrow> nat list option" where
  "decodeGroups [] = Some []"
| "decodeGroups [w] = None"
| "decodeGroups [w, x] = Some [w * 4 + x div 16]"
| "decodeGroups [w, x, y] = Some [w * 4 + x div 16, x mod 16 * 16 + y div 4]"
| "decodeGroups (w # x # y # z # rest) =
     map_option (\<lambda>bs. [w * 4 + x div 16, x mod 16 * 16 + y div 4, y mod 4 * 64 + z] @ bs) (decodeGroups rest)"

definition RawDecodeString :: "string \<Rightarrow> bytes option" where
  "RawDecodeString s =
     (let values = map b64Value (filter (\<lambda>c. c \<noteq> CHR 0x0A \<and> c \<noteq> CHR 0x0D) s) in
      if None \<in> set values then None else map_option (map of_nat) (decodeGroups (map the values)))"

definition TrimRight :: "char \<Rightarrow> string \<Rightarrow> string" where
  "TrimRight c s = rev (dropWhile (\<lambda>x. x = c) (rev s))"

section \<open>Keys\<close>

record PublicKey =
  pubCurve :: "string option"
  pubX :: "nat option"
  pubY :: "nat option"

record PrivateKey =
  privPublic :: PublicKey
  privD :: "nat option"

datatype handshake_error =
    NilPrivateKey
  | IncompletePrivateKey
  | NilPublicKey
  | SaltLength nat
  | IncompletePublicKey
  | CurveMismatch string string
  | ScalarMultFailed
  | SecretTooLong nat
  | SignerFailed
  | SerializeFailed
  | NilClientPrivateKey
  | ParseTokenFailed
  | ParsePublicKeyFailed
  | VerifyClaimsFailed
  | DecodeSaltFailed

text \<open>\<^verbatim>\<open>big.Int.Bytes\<close>: big-endian, without leading zeros.\<close>

fun bigBytes :: "nat \<Rightarrow> bytes" where
  "bigBytes n = (if n = 0 then [] else bigBytes (n div 256) @ [of_nat (n mod 256)])"

declare bigBytes.simps [simp del]

definition handshakeSaltBytes :: nat where
  "handshakeSaltBytes = 16"

type_synonym scalar_mult = "string \<Rightarrow> nat \<Rightarrow> nat \<Rightarrow> bytes \<Rightarrow> nat option"

definition sharedEncryptionKey ::
  "scalar_mult \<Rightarrow> (bytes \<Rightarrow> bytes) \<Rightarrow> PrivateKey option \<Rightarrow> PublicKey option \<Rightarrow> bytes \<Rightarrow> handshake_error + bytes"
where
  "sharedEncryptionKey mult sha privateKey publicKey salt =
     (case privateKey of
        None \<Rightarrow> Inl NilPrivateKey
      | Some priv \<Rightarrow>
      (case (pubCurve (privPublic priv), privD priv) of
        (Some privName, Some d) \<Rightarrow>
          (case publicKey of
             None \<Rightarrow> Inl NilPublicKey
           | Some pub \<Rightarrow>
               if length salt \<noteq> handshakeSaltBytes then Inl (SaltLength (length salt))
               else (case (pubCurve pub, pubX pub, pubY pub) of
                 (Some pubName, Some px, Some py) \<Rightarrow>
                   if privName \<noteq> pubName then Inl (CurveMismatch privName pubName)
                   else (case mult pubName px py (bigBytes d) of
                     None \<Rightarrow> Inl ScalarMultFailed
                   | Some x \<Rightarrow>
                       let secret = bigBytes x in
                       if length secret > 48 then Inl (SecretTooLong (length secret))
                       else Inr (sha (salt @ replicate (48 - length secret) 0 @ secret)))
               | _ \<Rightarrow> Inl IncompletePublicKey))
      | _ \<Rightarrow> Inl IncompletePrivateKey))"

section \<open>The two sides of the exchange\<close>

text \<open>
  \<open>newSigner key x5u\<close> tells whether a signer can be created; \<open>serialize key x5u salt\<close> is the
  signed token with header \<^verbatim>\<open>x5u\<close> and claim \<^verbatim>\<open>salt\<close>; \<open>verifiedSalt token key\<close> is the claim if
  the signature verifies under the key.
\<close>

record 't jose =
  marshalPublicKey :: "PublicKey \<Rightarrow> string"
  parsePublicKey :: "string \<Rightarrow> PublicKey option"
  newSigner :: "PrivateKey \<Rightarrow> string \<Rightarrow> bool"
  serialize :: "PrivateKey \<Rightarrow> string \<Rightarrow> string \<Rightarrow> bytes option"
  parseSigned :: "bytes \<Rightarrow> 't option"
  tokenX5U :: "'t \<Rightarrow> string"
  verifiedSalt :: "'t \<Rightarrow> PublicKey \<Rightarrow> string option"

definition newServerHandshake ::
  "'t jose \<Rightarrow> scalar_mult \<Rightarrow> (bytes \<Rightarrow> bytes) \<Rightarrow> PublicKey option \<Rightarrow> PrivateKey \<Rightarrow> bytes \<Rightarrow> handshake_error + bytes \<times> bytes"
where
  "newServerHandshake J mult sha clientPublicKey serverPrivateKey salt =
     (case sharedEncryptionKey mult sha (Some serverPrivateKey) clientPublicKey salt of
        Inl e \<Rightarrow> Inl e
      | Inr keyBytes \<Rightarrow>
          let x5u = marshalPublicKey J (privPublic serverPrivateKey) in
          if \<not> newSigner J serverPrivateKey x5u then Inl SignerFailed
          else case serialize J serverPrivateKey x5u (RawEncodeToString salt) of
            None \<Rightarrow> Inl SerializeFailed
          | Some serverJWT \<Rightarrow> Inr (serverJWT, keyBytes))"

definition clientEncryptionKey ::
  "'t jose \<Rightarrow> scalar_mult \<Rightarrow> (bytes \<Rightarrow> bytes) \<Rightarrow> bytes \<Rightarrow> PrivateKey option \<Rightarrow> handshake_error + bytes"
where
  "clientEncryptionKey J mult sha serverJWT clientPrivateKey =
     (case clientPrivateKey of
        None \<Rightarrow> Inl NilClientPrivateKey
      | Some priv \<Rightarrow>
      (case parseSigned J serverJWT of
        None \<Rightarrow> Inl ParseTokenFailed
      | Some token \<Rightarrow>
      (case parsePublicKey J (tokenX5U J token) of
        None \<Rightarrow> Inl ParsePublicKeyFailed
      | Some serverPublicKey \<Rightarrow>
      (case verifiedSalt J token serverPublicKey of
        None \<Rightarrow> Inl VerifyClaimsFailed
      | Some claim \<Rightarrow>
      (case RawDecodeString (TrimRight CHR ''='' claim) of
        None \<Rightarrow> Inl DecodeSaltFailed
      | Some salt \<Rightarrow> sharedEncryptionKey mult sha (Some priv) (Some serverPublicKey) salt)))))"

section \<open>Base64 round trip\<close>

lemma decode_encode_groups: "\<forall>b \<in> set bs. b < 256 \<Longrightarrow> decodeGroups (encodeGroups bs) = Some bs"
proof (induction bs rule: encodeGroups.induct)
  case (4 a b c rest)
  have "(a mod 4 * 16 + b div 16) div 16 = a mod 4" "(a mod 4 * 16 + b div 16) mod 16 = b div 16"
    "(b mod 16 * 4 + c div 64) div 4 = b mod 16" "(b mod 16 * 4 + c div 64) mod 4 = c div 64"
    using 4 by (simp_all add: div_less_iff_less_mult)
  with 4 show ?case by (simp add: div_mult_mod_eq mult.commute)
next
  case (3 a b)
  then have "(a mod 4 * 16 + b div 16) div 16 = a mod 4" "(a mod 4 * 16 + b div 16) mod 16 = b div 16"
    by (simp_all add: div_less_iff_less_mult)
  then show ?case by simp
qed simp_all

lemma encodeGroups_less: "\<forall>b \<in> set bs. b < 256 \<Longrightarrow> v \<in> set (encodeGroups bs) \<Longrightarrow> v < 64"
proof (induction bs rule: encodeGroups.induct)
  case (4 a b c rest)
  have "a div 4 < 64" "b div 16 < 16" "c div 64 < 4" using 4 by (simp_all add: div_less_iff_less_mult)
  moreover have "a mod 4 < 4" "b mod 16 < 16" "c mod 64 < 64" by simp_all
  ultimately show ?case using 4 by auto
next
  case (3 a b)
  then have "a div 4 < 64" "b div 16 < 16" by (simp_all add: div_less_iff_less_mult)
  moreover have "a mod 4 < 4" "b mod 16 < 16" by simp_all
  ultimately show ?case using 3 by auto
next
  case (2 a)
  then have "a div 4 < 64" by (simp add: div_less_iff_less_mult)
  moreover have "a mod 4 < 4" by simp
  ultimately show ?case using 2 by auto
qed simp

lemma b64_table:
  assumes "n < 64"
  shows "b64Value (b64Char n) = Some n" and "b64Char n \<notin> {CHR 0x0A, CHR 0x0D, CHR ''=''}"
proof -
  have "list_all (\<lambda>n. b64Value (b64Char n) = Some n \<and> b64Char n \<notin> {CHR 0x0A, CHR 0x0D, CHR ''=''}) [0..<64]"
    by code_simp
  with assms show "b64Value (b64Char n) = Some n" and "b64Char n \<notin> {CHR 0x0A, CHR 0x0D, CHR ''=''}"
    by (simp_all add: list_all_iff)
qed

lemma TrimRight_id: "c \<notin> set s \<Longrightarrow> TrimRight c s = s"
proof -
  assume "c \<notin> set s"
  then have "\<forall>x \<in> set (rev s). x \<noteq> c" by auto
  then have "dropWhile (\<lambda>x. x = c) (rev s) = rev s" by (metis dropWhile_eq_self_iff hd_in_set)
  then show ?thesis by (simp add: TrimRight_def)
qed

lemma base64_roundtrip: "RawDecodeString (TrimRight CHR ''='' (RawEncodeToString bs)) = Some bs"
proof -
  let ?vs = "encodeGroups (map unat bs)"
  have less: "v < 64" if "v \<in> set ?vs" for v
    using encodeGroups_less [of "map unat bs"] that by (auto simp: unsigned_less [where 'a = nat and 'b = 8, simplified])
  then have t: "TrimRight CHR ''='' (map b64Char ?vs) = map b64Char ?vs"
    using b64_table(2) by (intro TrimRight_id) fastforce
  have f: "filter (\<lambda>c. c \<noteq> CHR 0x0A \<and> c \<noteq> CHR 0x0D) (map b64Char ?vs) = map b64Char ?vs"
    using less b64_table(2) by (fastforce intro!: filter_True)
  have v: "map b64Value (map b64Char ?vs) = map Some ?vs" using less b64_table(1) by simp
  have d: "decodeGroups ?vs = Some (map unat bs)"
    by (rule decode_encode_groups) (auto simp: unsigned_less [where 'a = nat and 'b = 8, simplified])
  show ?thesis
    unfolding RawDecodeString_def RawEncodeToString_def t f Let_def v by (auto simp: d comp_def)
qed


section \<open>Both sides derive the same key\<close>

text \<open>
  What the two libraries promise: a token that was serialised parses, gives its header back, and
  verifies under the signer's public key with its claim; a marshalled public key parses back; and
  Diffie-Hellman on the curve is symmetric for the two key pairs.
\<close>

definition jose_honest :: "'t jose \<Rightarrow> PrivateKey \<Rightarrow> bool" where
  "jose_honest J key \<longleftrightarrow>
     parsePublicKey J (marshalPublicKey J (privPublic key)) = Some (privPublic key) \<and>
     (\<forall>x5u salt jwt. serialize J key x5u salt = Some jwt \<longrightarrow>
       (\<exists>token. parseSigned J jwt = Some token \<and> tokenX5U J token = x5u \<and>
          verifiedSalt J token (privPublic key) = Some salt))"

definition complete :: "PublicKey \<Rightarrow> bool" where
  "complete pub \<longleftrightarrow> pubCurve pub \<noteq> None \<and> pubX pub \<noteq> None \<and> pubY pub \<noteq> None"

definition dh_symmetric :: "scalar_mult \<Rightarrow> PrivateKey \<Rightarrow> PrivateKey \<Rightarrow> bool" where
  "dh_symmetric mult a b \<longleftrightarrow>
     mult (the (pubCurve (privPublic a))) (the (pubX (privPublic b))) (the (pubY (privPublic b))) (bigBytes (the (privD a))) =
     mult (the (pubCurve (privPublic b))) (the (pubX (privPublic a))) (the (pubY (privPublic a))) (bigBytes (the (privD b)))"

lemma sharedEncryptionKey_symmetric:
  assumes "dh_symmetric mult a b" and "complete (privPublic a)" and "privD b \<noteq> None"
    and "sharedEncryptionKey mult sha (Some a) (Some (privPublic b)) salt = Inr key"
  shows "sharedEncryptionKey mult sha (Some b) (Some (privPublic a)) salt = Inr key"
  using assms
  by (auto simp: sharedEncryptionKey_def dh_symmetric_def complete_def Let_def
      split: option.splits prod.splits if_splits)

text \<open>
  C9. Key agreement: when the server accepts a client's public key and creates a handshake token,
  the client that owns the key derives from this token exactly the session key the server uses, so
  the encrypted streams of both sides match. The salt survives its base64 encoding, and the check
  that both keys lie on the same curve does not get in the way.
\<close>

theorem handshake_agreement:
  assumes "jose_honest J server" and "dh_symmetric mult server client"
    and "complete (privPublic server)" and "privD client \<noteq> None"
    and "newServerHandshake J mult sha (Some (privPublic client)) server salt = Inr (jwt, key)"
  shows "clientEncryptionKey J mult sha jwt (Some client) = Inr key"
proof -
  from assms(5) have shared: "sharedEncryptionKey mult sha (Some server) (Some (privPublic client)) salt = Inr key"
    and ser: "serialize J server (marshalPublicKey J (privPublic server)) (RawEncodeToString salt) = Some jwt"
    by (auto simp: newServerHandshake_def Let_def split: sum.splits if_splits option.splits)
  from assms(1) ser obtain token where "parseSigned J jwt = Some token"
    "tokenX5U J token = marshalPublicKey J (privPublic server)"
    "verifiedSalt J token (privPublic server) = Some (RawEncodeToString salt)"
    "parsePublicKey J (marshalPublicKey J (privPublic server)) = Some (privPublic server)"
    unfolding jose_honest_def by blast
  then show ?thesis
    using sharedEncryptionKey_symmetric [OF assms(2-4) shared] by (simp add: clientEncryptionKey_def base64_roundtrip)
qed

text \<open>
  Witness of \<open>handshake_agreement\<close>: a toy group (the product of the secrets) and tokens that are
  the salt text itself.
\<close>

definition toyKey :: "nat \<Rightarrow> PrivateKey" where
  "toyKey d = \<lparr>privPublic = \<lparr>pubCurve = Some ''P-384'', pubX = Some d, pubY = Some 0\<rparr>, privD = Some d\<rparr>"

definition toyMult :: scalar_mult where
  "toyMult curve x y d = Some (x * foldl (\<lambda>n b. n * 256 + unat b) 0 d)"

definition toyJose :: "bytes jose" where
  "toyJose = \<lparr>marshalPublicKey = (\<lambda>p. ''server''), parsePublicKey = (\<lambda>s. Some (privPublic (toyKey 1000))),
     newSigner = (\<lambda>k x. True), serialize = (\<lambda>k x s. if x = ''server'' then Some (map (of_nat \<circ> of_char) s) else None), parseSigned = Some,
     tokenX5U = (\<lambda>t. ''server''), verifiedSalt = (\<lambda>t p. Some (map (char_of \<circ> unat) t))\<rparr>"

lemma toyJose_honest: "jose_honest toyJose (toyKey 1000)"
  by (auto simp: jose_honest_def toyJose_def toyKey_def comp_def unat_of_nat nat_of_char_less_256)

theorem handshake_agreement_witness:
  "\<exists>jwt key. newServerHandshake toyJose toyMult id (Some (privPublic (toyKey 300))) (toyKey 1000) (replicate 16 7) = Inr (jwt, key) \<and>
     clientEncryptionKey toyJose toyMult id jwt (Some (toyKey 300)) = Inr key"
proof -
  have b: "bigBytes 1000 = [3, 232]" "bigBytes 300 = [1, 44]" "bigBytes 300000 = [4, 147, 224]"
    by (simp_all add: bigBytes.simps)
  have dh: "dh_symmetric toyMult (toyKey 1000) (toyKey 300)" by (simp add: dh_symmetric_def toyMult_def toyKey_def b)
  have "\<exists>jwt key. newServerHandshake toyJose toyMult id (Some (privPublic (toyKey 300))) (toyKey 1000) (replicate 16 7) = Inr (jwt, key)"
    by (simp add: newServerHandshake_def sharedEncryptionKey_def toyKey_def toyMult_def toyJose_def handshakeSaltBytes_def b)
  then obtain jwt key where h: "newServerHandshake toyJose toyMult id (Some (privPublic (toyKey 300))) (toyKey 1000) (replicate 16 7) = Inr (jwt, key)"
    by blast
  have "complete (privPublic (toyKey 1000))" "privD (toyKey 300) \<noteq> None" by (simp_all add: complete_def toyKey_def)
  from handshake_agreement [OF toyJose_honest dh this h] h show ?thesis by blast
qed

end
