(* ===== verification/Decimal.thy ===== *)
theory Decimal
  imports Prelude
begin

text \<open>
  Decimal numbers as the standard library prints and parses them: \<^verbatim>\<open>strconv.Itoa\<close> (also the verb
  \<^verbatim>\<open>%d\<close>) and \<^verbatim>\<open>strconv.Atoi\<close> for the 64-bit \<^verbatim>\<open>int\<close>.
\<close>

definition digitChar :: "nat \<Rightarrow> char" where
  "digitChar d = char_of (48 + d)"

fun natDigits :: "nat \<Rightarrow> string" where
  "natDigits n = (if n < 10 then [digitChar n] else natDigits (n div 10) @ [digitChar (n mod 10)])"

declare natDigits.simps [simp del]

definition Itoa :: "int \<Rightarrow> string" where
  "Itoa n = (if n < 0 then CHR ''-'' # natDigits (nat (- n)) else natDigits (nat n))"

definition digitValue :: "char \<Rightarrow> nat option" where
  "digitValue c = (let n = of_char c in if 48 \<le> n \<and> n \<le> (57 :: nat) then Some (n - 48) else None)"

definition digitsValue :: "string \<Rightarrow> nat option" where
  "digitsValue s =
     (if s = [] then None
      else fold (\<lambda>c acc. case (acc, digitValue c) of (Some n, Some d) \<Rightarrow> Some (n * 10 + d) | _ \<Rightarrow> None) s (Some 0))"

text \<open>An optional sign and decimal digits; \<open>None\<close> is a syntax or range error.\<close>

definition Atoi :: "string \<Rightarrow> int option" where
  "Atoi s =
     (let (negative, digits) =
        (case s of [] \<Rightarrow> (False, []) | c # cs \<Rightarrow>
           if c = CHR ''-'' then (True, cs) else if c = CHR ''+'' then (False, cs) else (False, s))
      in case digitsValue digits of
           None \<Rightarrow> None
         | Some n \<Rightarrow>
             let v = (if negative then - int n else int n) in
             if - (2 ^ 63) \<le> v \<and> v < 2 ^ 63 then Some v else None)"

abbreviation in_i64 :: "int \<Rightarrow> bool" where
  "in_i64 x \<equiv> - (2 ^ 63) \<le> x \<and> x < 2 ^ 63"

lemma digitValue_digitChar: "d < 10 \<Longrightarrow> digitValue (digitChar d) = Some d"
  by (simp add: digitValue_def digitChar_def Let_def)

lemma natDigits_nonempty [simp]: "natDigits n \<noteq> []"
  by (subst natDigits.simps) simp

lemma digitsValue_snoc:
  "s \<noteq> [] \<Longrightarrow> digitsValue (s @ [c]) =
     (case (digitsValue s, digitValue c) of (Some n, Some d) \<Rightarrow> Some (n * 10 + d) | _ \<Rightarrow> None)"
  by (simp add: digitsValue_def)

lemma digitsValue_natDigits: "digitsValue (natDigits n) = Some n"
proof (induction n rule: natDigits.induct)
  case (1 n)
  show ?case
  proof (cases "n < 10")
    case True
    then have "natDigits n = [digitChar n]" by (subst natDigits.simps) simp
    then show ?thesis using True by (simp add: digitsValue_def digitValue_digitChar)
  next
    case False
    then have "natDigits n = natDigits (n div 10) @ [digitChar (n mod 10)]" by (subst natDigits.simps) simp
    with 1 False show ?thesis by (simp add: digitsValue_snoc digitValue_digitChar)
  qed
qed

lemma natDigits_digits: "c \<in> set (natDigits n) \<Longrightarrow> \<exists>d<10. c = digitChar d"
proof (induction n rule: natDigits.induct)
  case (1 n)
  have "n mod 10 < 10" by simp
  with 1 show ?case by (subst (asm) (2) natDigits.simps) (auto split: if_splits intro: exI [of _ "n mod 10"])
qed

lemma hd_natDigits: "hd (natDigits n) \<noteq> CHR ''-'' \<and> hd (natDigits n) \<noteq> CHR ''+''"
proof -
  obtain d where "d < 10" "hd (natDigits n) = digitChar d"
    using natDigits_digits [of "hd (natDigits n)" n] by auto
  moreover from this have "digitValue (hd (natDigits n)) = Some d" by (simp add: digitValue_digitChar)
  moreover have "digitValue CHR ''-'' = None" "digitValue CHR ''+'' = None" by (simp_all add: digitValue_def Let_def)
  ultimately show ?thesis by force
qed

lemma Atoi_Itoa: "in_i64 n \<Longrightarrow> Atoi (Itoa n) = Some n"
proof (cases "n < 0")
  case True
  assume "in_i64 n"
  with True show ?thesis by (simp add: Itoa_def Atoi_def digitsValue_natDigits Let_def)
next
  case False
  assume "in_i64 n"
  obtain c cs where "natDigits (nat n) = c # cs" by (cases "natDigits (nat n)") auto
  with False \<open>in_i64 n\<close> show ?thesis
    using hd_natDigits [of "nat n"] digitsValue_natDigits [of "nat n"] by (simp add: Itoa_def Atoi_def Let_def)
qed

lemma natDigits_printable: "c \<in> set (natDigits n) \<Longrightarrow> printable c \<and> c \<noteq> CHR ''=''"
proof -
  assume "c \<in> set (natDigits n)"
  then obtain d where d: "d < 10" "c = digitChar d" using natDigits_digits by blast
  then have "(of_char c :: nat) = 48 + d" by (simp add: digitChar_def)
  then show ?thesis using d(1) by (auto simp: printable_def)
qed

lemma Itoa_printable: "c \<in> set (Itoa n) \<Longrightarrow> printable c"
proof -
  have "printable CHR ''-''" by (simp add: printable_def)
  then show "c \<in> set (Itoa n) \<Longrightarrow> printable c"
    by (auto simp: Itoa_def dest: natDigits_printable split: if_splits)
qed

lemma Itoa_nonempty [simp]: "Itoa n \<noteq> []"
  by (simp add: Itoa_def)

end
