(* ===== verification/Protocol.thy ===== *)
theory Protocol
  imports Command Inventory Chunk_Publisher Resource_Pack Handshake Float32
begin

text \<open>
  The packets the session layer receives and sends, and what it uses of the protocol libraries.

  The packets are structures of the protocol library; only the fields the server reads or sets
  are modelled. Library constants that are only compared or copied are constructors; constants with
  a numeric role (protocol version, bit positions, argument types) and library functions are the
  fields of the record \<open>proto\<close>, an argument of the definitions that use them. Fields the server sets
  to the same constant in every packet of a kind are left out.
\<close>

section \<open>Login data\<close>

record IdentityData =
  DisplayName :: string
  Identity :: string
  XUID :: string

record LoginAnimation =
  anImage :: string
  anImageWidth :: int
  anImageHeight :: int
  anType :: int
  anFrames :: rat
  anExpression :: int

record PersonaPieceData =
  ppPieceID :: string
  ppPieceType :: string
  ppPackID :: string
  ppDefault :: bool
  ppProductID :: string

record PieceTint =
  ptPieceType :: string
  ptColours :: "string list"

text \<open>The skin fields of the login data, grouped: encoded images and texts, sizes, and attributes.\<close>

record EncodedSkin =
  cdSkinData :: string
  cdCapeData :: string
  cdSkinResourcePatch :: string
  cdSkinGeometry :: string
  cdSkinGeometryVersion :: string
  cdSkinAnimationData :: string

record SkinSizes =
  cdSkinImageWidth :: int
  cdSkinImageHeight :: int
  cdCapeImageWidth :: int
  cdCapeImageHeight :: int

record SkinAttributes =
  PremiumSkin :: bool
  PersonaSkin :: bool
  CapeOnClassicSkin :: bool
  CapeID :: string
  ArmSize :: string
  SkinColour :: string
  TrustedSkin :: bool
  OverrideSkin :: bool

record ClientData =
  DeviceOS :: int
  DeviceID :: string
  cdSkinID :: string
  cdPlayFabID :: string
  cdEncoded :: EncodedSkin
  cdSizes :: SkinSizes
  cdAnimatedImageData :: "LoginAnimation list"
  cdPersonaPieces :: "PersonaPieceData list"
  cdPieceTintColours :: "PieceTint list"
  cdAttributes :: SkinAttributes

record AuthResult =
  XBOXLiveAuthenticated :: bool
  AuthPublicKey :: "PublicKey option"

record loginData =
  loginIdentity :: IdentityData
  loginClient :: ClientData
  loginAuth :: AuthResult

definition zeroClientData :: ClientData where
  "zeroClientData = \<lparr>DeviceOS = 0, DeviceID = [], cdSkinID = [], cdPlayFabID = [],
     cdEncoded = \<lparr>cdSkinData = [], cdCapeData = [], cdSkinResourcePatch = [], cdSkinGeometry = [],
       cdSkinGeometryVersion = [], cdSkinAnimationData = []\<rparr>,
     cdSizes = \<lparr>cdSkinImageWidth = 0, cdSkinImageHeight = 0, cdCapeImageWidth = 0, cdCapeImageHeight = 0\<rparr>,
     cdAnimatedImageData = [], cdPersonaPieces = [], cdPieceTintColours = [],
     cdAttributes = \<lparr>PremiumSkin = False, PersonaSkin = False, CapeOnClassicSkin = False, CapeID = [],
       ArmSize = [], SkinColour = [], TrustedSkin = False, OverrideSkin = False\<rparr>\<rparr>"

definition zeroLogin :: loginData where
  "zeroLogin = \<lparr>loginIdentity = \<lparr>DisplayName = [], Identity = [], XUID = []\<rparr>, loginClient = zeroClientData,
     loginAuth = \<lparr>XBOXLiveAuthenticated = False, AuthPublicKey = None\<rparr>\<rparr>"

section \<open>Entity metadata and input flags\<close>

datatype meta_key =
    EntityDataKeyFlags
  | EntityDataKeyFlagsTwo
  | EntityDataKeyName
  | EntityDataKeyScale
  | EntityDataKeyWidth
  | EntityDataKeyHeight
  | EntityDataKeyAirSupply
  | EntityDataKeyAirSupplyMax
  | OtherMetaKey u32

datatype meta_value = MetaInt64 u64 | MetaString string | MetaFloat float32 | MetaInt16 int | MetaOther nat

type_synonym metadata = "(meta_key, meta_value) gomap"

datatype entity_flag =
    FlagSneaking | FlagSprinting | FlagSwimming | FlagGliding | FlagFly | FlagCrawling
  | FlagShowName | FlagAlwaysShowName | FlagHasCollision | FlagHasGravity

datatype input_flag =
    InputSneaking | InputStartSprinting | InputStopSprinting | InputStartSwimming | InputStopSwimming
  | InputStartGliding | InputStopGliding | InputStartFlying | InputStopFlying
  | InputStartCrawling | InputStopCrawling | InputJumping | InputPerformItemStackRequest

text \<open>The bit set of the protocol library: its length and its bits.\<close>

record Bitset =
  bitLen :: int
  bitLoad :: "int \<Rightarrow> bool"

section \<open>Packet fields\<close>

type_synonym fvec = "float32 \<times> float32 \<times> float32"

datatype play_status = LoginSuccess | LoginFailedClient | LoginFailedServer | PlayerSpawn

datatype game_type = GameTypeSurvival | GameTypeCreative | GameTypeAdventure | GameTypeSpectator

datatype text_type = TextTypeRaw | TextTypeChat | TextTypeTranslation | TextTypeSystem | TextTypeAnnouncement | OtherTextType u8

record TextPacket =
  txtType :: text_type
  txtSourceName :: string
  txtMessage :: string
  txtParameters :: "string list"
  txtXUID :: string
  txtPlatformChatID :: string
  txtFilteredMessage :: "string option"

definition plainText :: "text_type \<Rightarrow> string \<Rightarrow> TextPacket" where
  "plainText ty message = \<lparr>txtType = ty, txtSourceName = [], txtMessage = message, txtParameters = [],
     txtXUID = [], txtPlatformChatID = [], txtFilteredMessage = None\<rparr>"

datatype pack_response = PackResponseRefused | PackResponseSendPacks | PackResponseAllPacksDownloaded
  | PackResponseCompleted | OtherPackResponse u8

datatype loading_type = LoadingScreenTypeUnknown | LoadingScreenTypeStart | LoadingScreenTypeEnd | OtherLoadingType int

datatype interact_action = InteractMouseOverEntity | InteractOpenInventory | InteractLeaveVehicle | OtherInteract u8

record InteractPacket =
  iaAction :: interact_action
  iaTarget :: u64
  iaPosition :: "fvec option"

datatype window = WindowInventory | WindowOffHand | WindowUI | OtherWindow u8

record MobEquipmentPacket =
  meRuntimeID :: u64
  meNewItem :: ItemInstance
  meInventorySlot :: u8
  meHotBarSlot :: u8
  meWindow :: window

datatype move_mode = MoveModeNormal | MoveModeReset | OtherMoveMode u8

record MovePlayerPacket =
  mvRuntimeID :: u64
  mvPosition :: fvec
  mvPitch :: float32
  mvYaw :: float32
  mvHeadYaw :: float32
  mvMode :: move_mode
  mvOnGround :: bool
  mvTick :: u64

record AuthInputPacket =
  aiPosition :: fvec
  aiPitch :: float32
  aiYaw :: float32
  aiHeadYaw :: float32
  aiDelta :: fvec
  aiInputData :: Bitset
  aiItemStackRequest :: ItemStackRequest
  aiTick :: u64

datatype command_origin = CommandOriginPlayer nat | OtherCommandOrigin nat

text \<open>
  A packet from the client, decoded. A command origin carries the rest of its fields as one opaque
  number, which is copied into the answer.
\<close>

datatype client_packet =
    RequestNetworkSettings int
  | Login int bytes
  | ClientToServerHandshake
  | ResourcePackClientResponse pack_response "string list"
  | ResourcePackChunkRequest string u32
  | ResourcePacksReadyForValidation
  | ClientCacheStatus bool
  | RequestChunkRadius int
  | SubChunkRequestPacket SubChunkRequest
  | SetLocalPlayerAsInitialised u64
  | ServerBoundLoadingScreen loading_type "u32 option"
  | Interact InteractPacket
  | ContainerClose u8 u8
  | MobEquipment MobEquipmentPacket
  | ItemStackRequestPacket "ItemStackRequest list"
  | PlayerAuthInput AuthInputPacket
  | MovePlayer MovePlayerPacket
  | ClientText TextPacket
  | CommandRequest command_origin string
  | OtherPacket u32

record SkinAnimation =
  saWidth :: u32
  saHeight :: u32
  saData :: bytes
  saType :: u32
  saFrameCount :: float32
  saExpression :: u32

record SkinImages =
  skResourcePatch :: bytes
  skData :: bytes
  skCapeData :: bytes
  skGeometry :: bytes
  skAnimationData :: bytes
  skGeometryVersion :: bytes

record SkinDimensions =
  skImageWidth :: u32
  skImageHeight :: u32
  skCapeWidth :: u32
  skCapeHeight :: u32

record Skin =
  skSkinID :: string
  skPlayFabID :: string
  skImages :: SkinImages
  skDimensions :: SkinDimensions
  skAnimations :: "SkinAnimation list"
  skAttributes :: SkinAttributes
  skPrimaryUser :: bool
  skPersonaPieces :: "PersonaPieceData list"
  skTints :: "PieceTint list"

record PlayerListEntry =
  plUUID :: uuid
  plEntityUniqueID :: u64
  plUsername :: string
  plXUID :: string
  plBuildPlatform :: int
  plSkin :: "Skin option"

datatype player_list_action = PlayerListActionAdd | PlayerListActionRemove

record AbilityData =
  abEntityUniqueID :: u64
  abAbilities :: u32

record Motion =
  moPosition :: fvec
  moVelocity :: fvec
  moPitch :: float32
  moYaw :: float32
  moHeadYaw :: float32

record AddPlayerPacket =
  apUUID :: uuid
  apUsername :: string
  apRuntimeID :: u64
  apMotion :: Motion
  apHeldItem :: ItemInstance
  apGameType :: game_type
  apMetadata :: metadata
  apAbilityData :: AbilityData
  apDeviceID :: string
  apBuildPlatform :: int

record StartGamePacket =
  sgEntityUniqueID :: u64
  sgEntityRuntimeID :: u64
  sgGameMode :: game_type
  sgPosition :: fvec
  sgDimension :: int
  sgSpawnBlock :: BlockPos
  sgServerChunkTickRadius :: int
  sgBaseGameVersion :: string
  sgLevelName :: string
  sgCorrelationID :: string

datatype server_packet =
    PlayStatus play_status
  | NetworkSettings u16 u16
  | Disconnect string
  | ServerToClientHandshake bytes
  | ResourcePacksInfoPacket ResourcePacksInfo
  | ResourcePackStackPacket ResourcePackStack
  | PackDownload pack_packet
  | JigsawStructureData
  | VoxelShapes
  | StartGame StartGamePacket
  | ItemRegistry
  | AvailableCommands "proto_command list"
  | PlayerList player_list_action "PlayerListEntry list"
  | SetActorData u64 metadata u64
  | SetActorMotion u64 fvec u64
  | AddPlayer AddPlayerPacket
  | RemoveActor u64
  | MovePlayerOut MovePlayerPacket
  | ServerText TextPacket
  | CommandOutput command_origin u32 "(bool \<times> string) list"
  | ChunkRadiusUpdated int
  | BiomeDefinitionList
  | CreativeContent
  | InventoryContent window "ItemInstance list" container
  | InventorySlot window u8 container ItemInstance
  | MobEquipmentOut MobEquipmentPacket
  | ItemStackResponsePacket "ItemStackResponse list"
  | NetworkChunkPublisherUpdate BlockPos u32
  | SetTime int
  | SetSpawnPosition BlockPos int
  | LevelChunkPacket LevelChunk
  | SubChunkOut SubChunkPacket
  | UpdateBlock BlockPos u32 u32
  | ContainerOpen "int \<times> int \<times> int"
  | ContainerCloseOut u8

section \<open>The protocol libraries\<close>

record command_args =
  commandArgValid :: u32
  commandArgMessage :: u32
  commandArgTarget :: u32

record entity_consts =
  flagNumber :: "entity_flag \<Rightarrow> int"
  inputNumber :: "input_flag \<Rightarrow> int"
  newEntityMetadata :: metadata
  playerAbilities :: "u32 list"

record codec_consts =
  compressionThreshold :: int
  compressionAlgorithm :: u16
  containerByte :: "container \<Rightarrow> u8"
  writeVarint :: "u32 \<Rightarrow> bytes"
  int32Overflow :: "float32 \<Rightarrow> int"
  writeErrorText :: string

record login_lib =
  loginParse :: "bytes \<Rightarrow> loginData option"
  uuidParse :: "string \<Rightarrow> uuid option"
  uuidString :: "uuid \<Rightarrow> string"
  base64Decode :: "string \<Rightarrow> bytes"
  frameCount :: "rat \<Rightarrow> float32"
  sha256 :: "bytes \<Rightarrow> bytes"
  newHandshake :: "PublicKey option \<Rightarrow> PrivateKey \<Rightarrow> bytes \<Rightarrow> handshake_error + bytes \<times> bytes"

record proto =
  CurrentProtocol :: int
  CurrentVersion :: string
  unicodeLower :: "string \<Rightarrow> string"
  protoPackTypes :: packTypes
  commandArgs :: command_args
  entityConsts :: entity_consts
  codecConsts :: codec_consts
  loginLib :: login_lib

text \<open>
  A concrete instance of the library, for evaluating the model: the login request is the identity
  text itself, and the empty string is not a UUID.
\<close>

definition sampleLoginLib :: login_lib where
  "sampleLoginLib =
     \<lparr>loginParse = (\<lambda>bs. Some (zeroLogin\<lparr>loginIdentity := \<lparr>DisplayName = map (char_of \<circ> unat) bs,
        Identity = map (char_of \<circ> unat) bs, XUID = []\<rparr>,
        loginAuth := \<lparr>XBOXLiveAuthenticated = True, AuthPublicKey = Some (privPublic (toyKey 300))\<rparr>\<rparr>)),
      uuidParse = (\<lambda>s. if s = [] then None else Some (of_nat (length s))), uuidString = bitString,
      base64Decode = (\<lambda>s. []), frameCount = (\<lambda>r. 0), sha256 = id,
      newHandshake = newServerHandshake toyJose toyMult id\<rparr>"

definition sampleProto :: proto where
  "sampleProto =
     \<lparr>CurrentProtocol = 800, CurrentVersion = ''1.21'', unicodeLower = id,
      protoPackTypes = \<lparr>ResourcePackTypeAddon = 1, ResourcePackTypeBehaviour = 4, ResourcePackTypeResources = 6\<rparr>,
      commandArgs = \<lparr>commandArgValid = 0x100000, commandArgMessage = 68, commandArgTarget = 8\<rparr>,
      entityConsts = \<lparr>flagNumber = (\<lambda>f. 1), inputNumber = (\<lambda>f. 1), newEntityMetadata = [], playerAbilities = [1, 2]\<rparr>,
      codecConsts = \<lparr>compressionThreshold = 256, compressionAlgorithm = 0, containerByte = (\<lambda>c. 0),
        writeVarint = leBytes, int32Overflow = (\<lambda>v. 0), writeErrorText = ''closed''\<rparr>,
      loginLib = sampleLoginLib\<rparr>"

end
