(* ===== verification/Server_State.thy ===== *)
theory Server_State
  imports Protocol
begin

text \<open>
  The state of the session layer: one handler (\<^verbatim>\<open>MCPEHandler\<close>) shared by the clients (\<^verbatim>\<open>MCPEClient\<close>)
  of all connections, the interface of a connection (\<^verbatim>\<open>MCPEConn\<close>), the table of players and the
  broadcast helpers (\<^verbatim>\<open>internal/server/mcpe_session.go\<close>, \<^verbatim>\<open>mcpe_player_sync.go\<close>, \<^verbatim>\<open>mcpe_commands.go\<close>).

  Clients are heap objects that the handler and the peers point to, so the state is a store of
  clients indexed by addresses. A connection is the log of what was written to it; \<open>connFails n\<close>
  tells whether its \<open>n\<close>-th write returns an error. An operation that may fail returns an error option
  together with the state it leaves. Operations are atomic here: the code protects the player table with a
  mutex but not the fields of a client, which other sessions read; interleavings inside one
  operation are not modelled.

  The callbacks \<^verbatim>\<open>playerJoined\<close>, \<^verbatim>\<open>playerLeft\<close> and \<^verbatim>\<open>shutdown\<close> of the handler are recorded as events in the
  order of the calls; the first two with the number of entries of the player table at the moment of the call, which is
  what the callback reads.
\<close>

section \<open>Clients and the handler\<close>

datatype mcpeSessionState =
    stateAwaitNetworkSettings
  | stateAwaitLogin
  | stateAwaitClientHandshake
  | stateAwaitResourcePackResponse
  | stateAwaitChunkRadius
  | stateAwaitInitialised
  | stateSpawned
  | stateDisconnected

text \<open>The order of the constants, for the comparison in \<^verbatim>\<open>handleOpenInventory\<close>.\<close>

definition stateNumber :: "mcpeSessionState \<Rightarrow> nat" where
  "stateNumber s = (case s of stateAwaitNetworkSettings \<Rightarrow> 0 | stateAwaitLogin \<Rightarrow> 1 | stateAwaitClientHandshake \<Rightarrow> 2
     | stateAwaitResourcePackResponse \<Rightarrow> 3 | stateAwaitChunkRadius \<Rightarrow> 4 | stateAwaitInitialised \<Rightarrow> 5
     | stateSpawned \<Rightarrow> 6 | stateDisconnected \<Rightarrow> 7)"

record mcpePlayerState =
  playerUUID :: uuid
  playerMotion :: Motion
  playerOnGround :: bool
  playerTarget :: u64
  playerMeta :: metadata

datatype conn_event =
    Sent server_packet
  | SentUncompressed server_packet
  | CompressionOn
  | EncryptionOn bytes

record mcpe_conn =
  connLog :: "conn_event list"
  connFails :: "nat \<Rightarrow> bool"
  connWrites :: nat

type_synonym addr = nat

record loading_screen =
  loadingScreenOpen :: bool
  loadingScreenID :: u32
  loadingScreenIDOK :: bool

record MCPEClient =
  conn :: mcpe_conn
  state :: mcpeSessionState
  runtimeID :: u64
  login :: loginData
  player :: mcpePlayerState
  inventory :: mcpeInventory
  resourceDownloads :: Queue
  resourcePackStackSent :: bool
  chunksSent :: bool
  clientCacheEnabled :: bool
  loading :: loading_screen
  inventoryOpen :: bool

record handler_config =
  serverName :: string
  serverBrand :: string
  gameMode :: string
  maxPlayers :: int
  viewDistance :: int
  onlineMode :: bool
  world :: ChunkProvider
  chunks :: chunkPublisher
  resourcePacks :: "Pack list"
  texturePacksRequired :: bool
  hasShutdown :: bool

datatype handler_event = PlayerJoined addr nat | PlayerLeft addr nat | ShutdownCalled

record MCPEHandler =
  config :: handler_config
  privateKey :: "PrivateKey option"
  players :: "(u64, addr) gomap"
  nextID :: u64
  operators :: "(uuid, bool) gomap"
  callbacks :: "handler_event list"

record mcpe =
  handler :: MCPEHandler
  clients :: "addr \<Rightarrow> MCPEClient"

definition zeroPlayer :: mcpePlayerState where
  "zeroPlayer = \<lparr>playerUUID = 0,
     playerMotion = \<lparr>moPosition = (0, 0, 0), moVelocity = (0, 0, 0), moPitch = 0, moYaw = 0, moHeadYaw = 0\<rparr>,
     playerOnGround = False, playerTarget = 0, playerMeta = []\<rparr>"

definition NewMCPEClient :: "MCPEHandler \<Rightarrow> mcpe_conn \<Rightarrow> MCPEClient" where
  "NewMCPEClient h c =
     \<lparr>conn = c, state = stateAwaitNetworkSettings, runtimeID = 0, login = zeroLogin, player = zeroPlayer,
      inventory = newMCPEInventory, resourceDownloads = NewQueue (resourcePacks (config h)),
      resourcePackStackSent = False, chunksSent = False, clientCacheEnabled = False,
      loading = \<lparr>loadingScreenOpen = False, loadingScreenID = 0, loadingScreenIDOK = False\<rparr>, inventoryOpen = False\<rparr>"

datatype server_error =
    WriteFailed
  | ProtocolVersion int
  | LoginProtocolVersion int
  | LoginParse
  | NotAuthenticated
  | NoClientKey
  | KeyGeneration
  | SaltGeneration
  | HandshakeFailed handshake_error
  | IdentityUUID string
  | PackSelection pack_error
  | PackChunkRequest pack_error
  | PacksRefused
  | UnknownPackResponse
  | ChunkRadius int
  | SubChunks sub_error
  | InitialChunks flat_error
  | InitialContext ctx_error
  | PositionsPanic
  | LoadingScreenMismatch u32 u32
  | UnknownLoadingScreen
  | RuntimeIDMismatch u64 u64
  | InvalidMovement
  | UnexpectedInteract
  | InvalidInteractPosition
  | UnexpectedWindow
  | SlotError stack_error
  | UnhandledPacket
  | NilExecutor

type_synonym action = "mcpe \<Rightarrow> server_error option \<times> mcpe"

section \<open>Sequencing\<close>

definition ok :: action where
  "ok st = (None, st)"

definition fail :: "server_error \<Rightarrow> action" where
  "fail e st = (Some e, st)"

definition update :: "(mcpe \<Rightarrow> mcpe) \<Rightarrow> action" where
  "update f st = (None, f st)"

definition andThen :: "action \<Rightarrow> action \<Rightarrow> action" where
  "andThen f g st = (case f st of (Some e, st') \<Rightarrow> (Some e, st') | (None, st') \<Rightarrow> g st')"

text \<open>\<^verbatim>\<open>if err := a1(); err != nil { return err }; if err := a2(); \<dots>\<close>\<close>

definition sequence :: "action list \<Rightarrow> action" where
  "sequence acts = foldr andThen acts ok"

definition ignoreError :: "action \<Rightarrow> action" where
  "ignoreError f st = (None, snd (f st))"

text \<open>An action that reads the state first.\<close>

definition reading :: "(mcpe \<Rightarrow> action) \<Rightarrow> action" where
  "reading f st = f st st"

definition setClient :: "addr \<Rightarrow> (MCPEClient \<Rightarrow> MCPEClient) \<Rightarrow> mcpe \<Rightarrow> mcpe" where
  "setClient a f st = st\<lparr>clients := (clients st)(a := f (clients st a))\<rparr>"

definition setHandler :: "(MCPEHandler \<Rightarrow> MCPEHandler) \<Rightarrow> mcpe \<Rightarrow> mcpe" where
  "setHandler f st = st\<lparr>handler := f (handler st)\<rparr>"

abbreviation cfg :: "mcpe \<Rightarrow> handler_config" where
  "cfg st \<equiv> config (handler st)"

section \<open>Connections\<close>

definition writeConn :: "conn_event \<Rightarrow> mcpe_conn \<Rightarrow> server_error option \<times> mcpe_conn" where
  "writeConn ev c =
     (let c' = c\<lparr>connWrites := Suc (connWrites c)\<rparr> in
      if connFails c (connWrites c) then (Some WriteFailed, c') else (None, c'\<lparr>connLog := connLog c @ [ev]\<rparr>))"

definition writeEvent :: "addr \<Rightarrow> conn_event \<Rightarrow> action" where
  "writeEvent a ev st =
     (let (r, c) = writeConn ev (conn (clients st a)) in (r, setClient a (\<lambda>cl. cl\<lparr>conn := c\<rparr>) st))"

definition WritePacket :: "addr \<Rightarrow> server_packet \<Rightarrow> action" where
  "WritePacket a pk = writeEvent a (Sent pk)"

definition WritePacketUncompressed :: "addr \<Rightarrow> server_packet \<Rightarrow> action" where
  "WritePacketUncompressed a pk = writeEvent a (SentUncompressed pk)"

text \<open>Switching a connection to compression or encryption cannot fail.\<close>

definition logConn :: "addr \<Rightarrow> conn_event \<Rightarrow> mcpe \<Rightarrow> mcpe" where
  "logConn a ev = setClient a (\<lambda>cl. cl\<lparr>conn := (conn cl)\<lparr>connLog := connLog (conn cl) @ [ev]\<rparr>\<rparr>)"

definition writePacketToClients :: "addr list \<Rightarrow> server_packet \<Rightarrow> action" where
  "writePacketToClients as pk = sequence (map (\<lambda>a. WritePacket a pk) as)"

definition writeClientPackets :: "addr \<Rightarrow> server_packet list \<Rightarrow> action" where
  "writeClientPackets a pks = sequence (map (WritePacket a) pks)"

section \<open>The player table\<close>

text \<open>
  \<^verbatim>\<open>sort.Slice\<close> by runtime ID. The map is ranged over in any order; clients with equal runtime IDs
  are the same client.
\<close>

definition sortClientsByRuntimeID :: "mcpe \<Rightarrow> addr list \<Rightarrow> addr list" where
  "sortClientsByRuntimeID st = sort_key (\<lambda>a. runtimeID (clients st a))"

definition allPlayers :: "mcpe \<Rightarrow> addr list" where
  "allPlayers st = sortClientsByRuntimeID st (map snd (players (handler st)))"

definition spawnedPlayers :: "mcpe \<Rightarrow> addr list" where
  "spawnedPlayers st =
     sortClientsByRuntimeID st (filter (\<lambda>a. state (clients st a) = stateSpawned) (map snd (players (handler st))))"

definition spawnedPlayersExcept :: "addr \<Rightarrow> mcpe \<Rightarrow> addr list" where
  "spawnedPlayersExcept client st =
     sortClientsByRuntimeID st
       (filter (\<lambda>a. a \<noteq> client \<and> state (clients st a) = stateSpawned) (map snd (players (handler st))))"

definition playerExists :: "u64 \<Rightarrow> mcpe \<Rightarrow> bool" where
  "playerExists n st = (map_of (players (handler st)) n \<noteq> None)"

definition notify :: "(nat \<Rightarrow> handler_event) \<Rightarrow> mcpe \<Rightarrow> mcpe" where
  "notify ev = setHandler (\<lambda>h. h\<lparr>callbacks := callbacks h @ [ev (length (players h))]\<rparr>)"

definition addPlayer :: "addr \<Rightarrow> mcpe \<Rightarrow> addr list \<times> mcpe" where
  "addPlayer client st =
     (let others = filter (\<lambda>a. a \<noteq> client) (map snd (players (handler st)));
          st' = setHandler (\<lambda>h. h\<lparr>players := AList.update (runtimeID (clients st client)) client (players h)\<rparr>) st
      in (sortClientsByRuntimeID st others, notify (PlayerJoined client) st'))"

definition broadcastToSpawnedPeers :: "addr \<Rightarrow> server_packet \<Rightarrow> action" where
  "broadcastToSpawnedPeers client pk = reading (\<lambda>st. writePacketToClients (spawnedPlayersExcept client st) pk)"

definition broadcastText :: "TextPacket \<Rightarrow> action" where
  "broadcastText pk = reading (\<lambda>st. writePacketToClients (spawnedPlayers st) (ServerText pk))"

definition broadcastSystemText :: "string \<Rightarrow> action" where
  "broadcastSystemText message = broadcastText (plainText TextTypeSystem message)"

definition nextRuntimeID :: "mcpe \<Rightarrow> u64 \<times> mcpe" where
  "nextRuntimeID st =
     (let n = nextID (handler st) + 1 in (n, setHandler (\<lambda>h. h\<lparr>nextID := n\<rparr>) st))"

definition removeEntry :: "uuid \<Rightarrow> PlayerListEntry" where
  "removeEntry u = \<lparr>plUUID = u, plEntityUniqueID = 0, plUsername = [], plXUID = [], plBuildPlatform = 0, plSkin = None\<rparr>"

text \<open>Write errors are ignored here: each broadcast stops at its first failing connection.\<close>

definition removePlayer :: "addr \<Rightarrow> mcpe \<Rightarrow> mcpe" where
  "removePlayer client st =
     (let cl = clients st client; n = runtimeID cl in
      if n = 0 then st
      else if map_of (players (handler st)) n \<noteq> Some client then st
      else
        let st1 = setHandler (\<lambda>h. h\<lparr>players := AList.delete n (players h)\<rparr>) st;
            peers = spawnedPlayers st1;
            left = \<lparr>txtType = TextTypeTranslation, txtSourceName = [], txtMessage = ''multiplayer.player.left'',
              txtParameters = [DisplayName (loginIdentity (login cl))], txtXUID = [], txtPlatformChatID = [],
              txtFilteredMessage = None\<rparr>;
            st2 = snd (writePacketToClients peers (PlayerList PlayerListActionRemove [removeEntry (playerUUID (player cl))]) st1);
            st3 = snd (writePacketToClients peers (RemoveActor n) st2);
            st4 = (if state cl = stateSpawned then snd (writePacketToClients peers (ServerText left) st3) else st3);
            st5 = setClient client (\<lambda>c. c\<lparr>state := stateDisconnected\<rparr>) st4
        in notify (PlayerLeft client) st5)"

definition OnDisconnect :: "addr \<Rightarrow> mcpe \<Rightarrow> mcpe" where
  "OnDisconnect client st = removePlayer client st"

section \<open>A sample server\<close>

text \<open>A server without players that serves the default flat world, and connections that never fail.\<close>

definition goodConn :: mcpe_conn where
  "goodConn = \<lparr>connLog = [], connFails = (\<lambda>n. False), connWrites = 0\<rparr>"

definition sampleConfig :: handler_config where
  "sampleConfig = \<lparr>serverName = ''bds'', serverBrand = ''BetterAltay-Go'', gameMode = ''survival'', maxPlayers = 20,
     viewDistance = 8, onlineMode = True, world = flatProvider sampleEncoder defaultGenerator,
     chunks = newChunkPublisher (flatProvider sampleEncoder defaultGenerator) 8, resourcePacks = [],
     texturePacksRequired = False, hasShutdown = True\<rparr>"

definition sampleHandler :: MCPEHandler where
  "sampleHandler = \<lparr>config = sampleConfig, privateKey = None, players = [], nextID = 0, operators = [], callbacks = []\<rparr>"

definition sampleServer :: mcpe where
  "sampleServer = \<lparr>handler = sampleHandler, clients = (\<lambda>a. NewMCPEClient sampleHandler goodConn)\<rparr>"

end
