(* ===== verification/Inventory_Sync.thy ===== *)
theory Inventory_Sync
  imports Server_State
begin

text \<open>
  The packet handlers around the inventory (\<^verbatim>\<open>internal/server/mcpe_inventory.go\<close>): initial
  contents, held item changes, item stack requests with their responses, and the resynchronisation
  after a rejected request. The inventory itself is in \<open>Inventory\<close>.
\<close>

definition gameModeID :: "proto \<Rightarrow> string \<Rightarrow> game_type" where
  "gameModeID P value =
     (let v = ToLower (unicodeLower P) (TrimSpace value) in
      if v = ''creative'' \<or> v = ''1'' then GameTypeCreative
      else if v = ''adventure'' \<or> v = ''2'' then GameTypeAdventure
      else if v = ''spectator'' \<or> v = ''3'' \<or> v = ''6'' then GameTypeSpectator
      else GameTypeSurvival)"

definition creativeInventoryAllowed :: "proto \<Rightarrow> mcpe \<Rightarrow> bool" where
  "creativeInventoryAllowed P st = (gameModeID P (gameMode (cfg st)) = GameTypeCreative)"

definition inventoryContentPacket :: "window \<Rightarrow> mcpeInventory \<Rightarrow> server_packet" where
  "inventoryContentPacket w iv =
     (if w = WindowOffHand then InventoryContent WindowOffHand [offhand iv] ContainerOffhand
      else InventoryContent WindowInventory (mainContent iv) ContainerInventory)"

definition windowIDForInventorySlot :: "mcpeInventorySlot \<Rightarrow> window" where
  "windowIDForInventorySlot ref =
     (case container ref of ContainerOffhand \<Rightarrow> WindowOffHand | ContainerCursor \<Rightarrow> WindowUI | _ \<Rightarrow> WindowInventory)"

definition heldEquipmentPacket :: "MCPEClient \<Rightarrow> u64 \<Rightarrow> server_packet" where
  "heldEquipmentPacket cl n =
     MobEquipmentOut \<lparr>meRuntimeID = n, meNewItem = heldItem (inventory cl), meInventorySlot = selectedHotbar (inventory cl),
       meHotBarSlot = selectedHotbar (inventory cl), meWindow = WindowInventory\<rparr>"

definition sendInventorySlot :: "addr \<Rightarrow> mcpeInventorySlot \<Rightarrow> action" where
  "sendInventorySlot a ref = reading (\<lambda>st.
     case item (inventory (clients st a)) ref of
       Inl e \<Rightarrow> fail (SlotError e)
     | Inr it \<Rightarrow> WritePacket a (InventorySlot (windowIDForInventorySlot ref) (slot ref) (container ref) it))"

definition resendHeldSlot :: "addr \<Rightarrow> action" where
  "resendHeldSlot a = reading (\<lambda>st.
     WritePacket a (heldEquipmentPacket (clients st a) (runtimeID (clients st a))))"

definition broadcastHeldEquipment :: "addr \<Rightarrow> action" where
  "broadcastHeldEquipment a = reading (\<lambda>st.
     broadcastToSpawnedPeers a (heldEquipmentPacket (clients st a) (runtimeID (clients st a))))"

definition sendWindow :: "addr \<Rightarrow> window \<Rightarrow> action" where
  "sendWindow a w = reading (\<lambda>st. WritePacket a (inventoryContentPacket w (inventory (clients st a))))"

definition sendInitialInventory :: "addr \<Rightarrow> action" where
  "sendInitialInventory a = sequence [sendWindow a WindowInventory, sendWindow a WindowOffHand, resendHeldSlot a]"

definition resyncInventory :: "addr \<Rightarrow> action" where
  "resyncInventory a = sequence [sendWindow a WindowInventory, sendWindow a WindowOffHand, resendHeldSlot a]"

definition processItemStackRequests :: "proto \<Rightarrow> addr \<Rightarrow> ItemStackRequest list \<Rightarrow> action" where
  "processItemStackRequests P a requests = reading (\<lambda>st.
     if requests = [] then ok
     else
       let beforeHeld = heldItem (inventory (clients st a));
           ((responses, rejected), iv) = applyRequests (containerByte (codecConsts P)) (creativeInventoryAllowed P st)
             requests (inventory (clients st a))
       in sequence
         [update (setClient a (\<lambda>cl. cl\<lparr>inventory := iv\<rparr>)),
          WritePacket a (ItemStackResponsePacket responses),
          (if \<not> sameItemInstance beforeHeld (heldItem iv) then broadcastHeldEquipment a else ok),
          (if rejected then resyncInventory a else ok)])"

definition handleItemStackRequest :: "proto \<Rightarrow> addr \<Rightarrow> ItemStackRequest list \<Rightarrow> action" where
  "handleItemStackRequest P a requests = reading (\<lambda>st.
     if runtimeID (clients st a) = 0 then ok else processItemStackRequests P a requests)"

definition handleMobEquipment :: "addr \<Rightarrow> MobEquipmentPacket \<Rightarrow> action" where
  "handleMobEquipment a pk = reading (\<lambda>st.
     let cl = clients st a in
     if runtimeID cl = 0 then ok
     else if meRuntimeID pk \<noteq> 0 \<and> meRuntimeID pk \<noteq> runtimeID cl then ok
     else if meWindow pk = WindowOffHand then ok
     else if meWindow pk \<noteq> WindowInventory then fail UnexpectedWindow
     else if meHotBarSlot pk \<noteq> meInventorySlot pk then resendHeldSlot a
     else if meInventorySlot pk \<ge> 9 then resendHeldSlot a
     else
       let ref = \<lparr>container = ContainerInventory, slot = meInventorySlot pk\<rparr>;
           actual = (case item (inventory cl) ref of Inl e \<Rightarrow> zeroItem | Inr it \<Rightarrow> it)
       in sequence
         [(if \<not> sameItemInstance actual (meNewItem pk) then sendInventorySlot a ref else ok),
          update (setClient a (\<lambda>cl. cl\<lparr>inventory := (inventory cl)\<lparr>selectedHotbar := meInventorySlot pk\<rparr>\<rparr>)),
          broadcastHeldEquipment a])"

end
