(* ===== verification/Player_Sync.thy ===== *)
theory Player_Sync
  imports Inventory_Sync
begin

unbundle bit_operations_syntax

text \<open>
  Player state, its entity metadata and the movement and interaction handlers
  (\<^verbatim>\<open>internal/server/mcpe_player_sync.go\<close>): what a player looks like to its peers, how input packets
  change it, and which packets are broadcast.

  Vectors are triples of \<^verbatim>\<open>float32\<close> bit patterns compared and subtracted as \<^verbatim>\<open>float32\<close> (theory
  \<open>Float32\<close>). Entity flags and input flags are numbered by the protocol library.
\<close>

section \<open>Metadata flags\<close>

definition inputFlag :: "proto \<Rightarrow> Bitset \<Rightarrow> input_flag \<Rightarrow> bool" where
  "inputFlag P input flag =
     (let n = inputNumber (entityConsts P) flag in if bitLen input \<le> n then False else bitLoad input n)"

text \<open>A Go shift by 64 or more positions gives 0, and so does \<open>push_bit\<close> on a 64-bit word.\<close>

definition setGenericMetadataFlag :: "int \<Rightarrow> bool \<Rightarrow> metadata \<Rightarrow> bool \<times> metadata" where
  "setGenericMetadataFlag flag value meta =
     (let (key, index) =
        (if flag \<ge> 64 then (EntityDataKeyFlagsTwo, flag - 64) else (EntityDataKeyFlags, flag));
          current = (case map_of meta key of Some (MetaInt64 w) \<Rightarrow> w | _ \<Rightarrow> 0);
          mask = push_bit (nat (index mod 2 ^ 64)) 1;
          next_flags = (if value then current OR mask else current AND NOT mask)
      in if next_flags = current then (False, meta)
         else (True, AList.update key (MetaInt64 next_flags) meta))"

definition applyInputToggle :: "proto \<Rightarrow> entity_flag \<Rightarrow> Bitset \<Rightarrow> input_flag \<Rightarrow> input_flag \<Rightarrow> metadata \<Rightarrow> bool \<times> metadata" where
  "applyInputToggle P metadataFlag input startFlag stopFlag meta =
     (let started = inputFlag P input startFlag; stopped = inputFlag P input stopFlag in
      if started = stopped then (False, meta)
      else setGenericMetadataFlag (flagNumber (entityConsts P) metadataFlag) started meta)"

text \<open>The toggles are applied in order; the result tells whether one of them changed the metadata.\<close>

definition updatePlayerMetadataFromInput :: "proto \<Rightarrow> Bitset \<Rightarrow> metadata \<Rightarrow> bool \<times> metadata" where
  "updatePlayerMetadataFromInput P input meta0 =
     (let toggle = (\<lambda>(flag, startFlag, stopFlag) (changed, meta).
          let (c, meta') = applyInputToggle P flag input startFlag stopFlag meta in (c \<or> changed, meta'))
      in fold toggle
        [(FlagSprinting, InputStartSprinting, InputStopSprinting),
         (FlagSwimming, InputStartSwimming, InputStopSwimming),
         (FlagGliding, InputStartGliding, InputStopGliding),
         (FlagFly, InputStartFlying, InputStopFlying),
         (FlagCrawling, InputStartCrawling, InputStopCrawling)]
        (setGenericMetadataFlag (flagNumber (entityConsts P) FlagSneaking) (inputFlag P input InputSneaking) meta0))"

definition playerCollisionWidth :: float32 where
  "playerCollisionWidth = fOfRat (10066330 / 2 ^ 24)"

definition playerCollisionHeight :: float32 where
  "playerCollisionHeight = fOfRat (15099494 / 2 ^ 23)"

definition playerMetadata :: "proto \<Rightarrow> string \<Rightarrow> metadata" where
  "playerMetadata P name =
     (let meta = newEntityMetadata (entityConsts P);
          meta = AList.update EntityDataKeyName (MetaString name) meta;
          meta = AList.update EntityDataKeyScale (MetaFloat (fOfRat 1)) meta;
          meta = AList.update EntityDataKeyWidth (MetaFloat playerCollisionWidth) meta;
          meta = AList.update EntityDataKeyHeight (MetaFloat playerCollisionHeight) meta;
          meta = AList.update EntityDataKeyAirSupply (MetaInt16 300) meta;
          meta = AList.update EntityDataKeyAirSupplyMax (MetaInt16 400) meta
      in fold (\<lambda>flag meta. snd (setGenericMetadataFlag (flagNumber (entityConsts P) flag) True meta))
           [FlagShowName, FlagAlwaysShowName, FlagHasCollision, FlagHasGravity] meta)"

definition cloneMetadata :: "metadata \<Rightarrow> metadata" where
  "cloneMetadata meta = fold (\<lambda>(key, value). AList.update key value) meta []"

section \<open>What peers see\<close>

definition wordOfInt :: "int \<Rightarrow> u32" where
  "wordOfInt n = word_of_int n"

definition skinAnimation :: "proto \<Rightarrow> LoginAnimation \<Rightarrow> SkinAnimation" where
  "skinAnimation P a =
     \<lparr>saWidth = wordOfInt (anImageWidth a), saHeight = wordOfInt (anImageHeight a),
      saData = base64Decode (loginLib P) (anImage a), saType = wordOfInt (anType a),
      saFrameCount = frameCount (loginLib P) (anFrames a), saExpression = wordOfInt (anExpression a)\<rparr>"

definition skinFromLoginData :: "proto \<Rightarrow> ClientData \<Rightarrow> Skin" where
  "skinFromLoginData P data =
     (let decode = base64Decode (loginLib P); enc = cdEncoded data; sizes = cdSizes data in
      \<lparr>skSkinID = cdSkinID data, skPlayFabID = cdPlayFabID data,
       skImages = \<lparr>skResourcePatch = decode (cdSkinResourcePatch enc), skData = decode (cdSkinData enc),
         skCapeData = decode (cdCapeData enc), skGeometry = decode (cdSkinGeometry enc),
         skAnimationData = decode (cdSkinAnimationData enc), skGeometryVersion = decode (cdSkinGeometryVersion enc)\<rparr>,
       skDimensions = \<lparr>skImageWidth = wordOfInt (cdSkinImageWidth sizes), skImageHeight = wordOfInt (cdSkinImageHeight sizes),
         skCapeWidth = wordOfInt (cdCapeImageWidth sizes), skCapeHeight = wordOfInt (cdCapeImageHeight sizes)\<rparr>,
       skAnimations = map (skinAnimation P) (cdAnimatedImageData data),
       skAttributes = cdAttributes data, skPrimaryUser = True,
       skPersonaPieces = cdPersonaPieces data, skTints = cdPieceTintColours data\<rparr>)"

definition playerListEntry :: "proto \<Rightarrow> MCPEClient \<Rightarrow> PlayerListEntry" where
  "playerListEntry P cl =
     \<lparr>plUUID = playerUUID (player cl), plEntityUniqueID = runtimeID cl,
      plUsername = DisplayName (loginIdentity (login cl)), plXUID = XUID (loginIdentity (login cl)),
      plBuildPlatform = i32 (DeviceOS (loginClient (login cl))), plSkin = Some (skinFromLoginData P (loginClient (login cl)))\<rparr>"

definition playerAbilityData :: "proto \<Rightarrow> u64 \<Rightarrow> AbilityData" where
  "playerAbilityData P n =
     \<lparr>abEntityUniqueID = n, abAbilities = fold (OR) (playerAbilities (entityConsts P)) 0\<rparr>"

definition addPlayerPacket :: "proto \<Rightarrow> handler_config \<Rightarrow> MCPEClient \<Rightarrow> server_packet" where
  "addPlayerPacket P hc cl =
     AddPlayer \<lparr>apUUID = playerUUID (player cl), apUsername = DisplayName (loginIdentity (login cl)),
       apRuntimeID = runtimeID cl, apMotion = playerMotion (player cl), apHeldItem = heldItem (inventory cl),
       apGameType = gameModeID P (gameMode hc), apMetadata = cloneMetadata (playerMeta (player cl)),
       apAbilityData = playerAbilityData P (runtimeID cl), apDeviceID = DeviceID (loginClient (login cl)),
       apBuildPlatform = i32 (DeviceOS (loginClient (login cl)))\<rparr>"

definition movePlayerPacket :: "MCPEClient \<Rightarrow> move_mode \<Rightarrow> u64 \<Rightarrow> server_packet" where
  "movePlayerPacket cl mode tick =
     MovePlayerOut \<lparr>mvRuntimeID = runtimeID cl, mvPosition = moPosition (playerMotion (player cl)),
       mvPitch = moPitch (playerMotion (player cl)), mvYaw = moYaw (playerMotion (player cl)),
       mvHeadYaw = moHeadYaw (playerMotion (player cl)), mvMode = mode, mvOnGround = playerOnGround (player cl),
       mvTick = tick\<rparr>"

definition setActorDataPacket :: "MCPEClient \<Rightarrow> u64 \<Rightarrow> server_packet" where
  "setActorDataPacket cl tick = SetActorData (runtimeID cl) (cloneMetadata (playerMeta (player cl))) tick"

definition setActorMotionPacket :: "MCPEClient \<Rightarrow> u64 \<Rightarrow> server_packet" where
  "setActorMotionPacket cl tick = SetActorMotion (runtimeID cl) (moVelocity (playerMotion (player cl))) tick"

section \<open>Joining\<close>

definition fvecOf :: "Vec3 \<Rightarrow> fvec" where
  "fvecOf v = (fOfRat (vecX v), fOfRat (vecY v), fOfRat (vecZ v))"

definition initPlayerState :: "proto \<Rightarrow> addr \<Rightarrow> action" where
  "initPlayerState P a = reading (\<lambda>st.
     let cl = clients st a; ident = loginIdentity (login cl) in
     case uuidParse (loginLib P) (Identity ident) of
       None \<Rightarrow> fail (IdentityUUID (Identity ident))
     | Some u \<Rightarrow>
         update (setClient a (\<lambda>cl. cl\<lparr>player :=
           \<lparr>playerUUID = u,
            playerMotion = \<lparr>moPosition = fvecOf (provSpawn (world (cfg st))), moVelocity = (0, 0, 0), moPitch = 0, moYaw = 0, moHeadYaw = 0\<rparr>,
            playerOnGround = False, playerTarget = 0, playerMeta = playerMetadata P (DisplayName ident)\<rparr>\<rparr>)))"

definition sendInitialPlayerSync :: "proto \<Rightarrow> addr \<Rightarrow> addr list \<Rightarrow> action" where
  "sendInitialPlayerSync P a existing = sequence
     [reading (\<lambda>st. if existing = [] then ok
        else writePacketToClients existing (PlayerList PlayerListActionAdd [playerListEntry P (clients st a)])),
      reading (\<lambda>st. WritePacket a (PlayerList PlayerListActionAdd (map (\<lambda>b. playerListEntry P (clients st b)) (allPlayers st)))),
      reading (\<lambda>st. WritePacket a (setActorDataPacket (clients st a) 0)),
      reading (\<lambda>st. WritePacket a (setActorMotionPacket (clients st a) 0))]"

definition writePlayerSpawn :: "proto \<Rightarrow> addr \<Rightarrow> addr \<Rightarrow> action" where
  "writePlayerSpawn P to who = sequence
     [reading (\<lambda>st. WritePacket to (addPlayerPacket P (cfg st) (clients st who))),
      reading (\<lambda>st. WritePacket to (setActorDataPacket (clients st who) 0)),
      reading (\<lambda>st. WritePacket to (setActorMotionPacket (clients st who) 0))]"

definition spawnToInitialisedPlayers :: "proto \<Rightarrow> addr \<Rightarrow> action" where
  "spawnToInitialisedPlayers P a = reading (\<lambda>st.
     let others = spawnedPlayersExcept a st in
     sequence (map (\<lambda>b. writePlayerSpawn P a b) others @ map (\<lambda>b. writePlayerSpawn P b a) others))"

section \<open>Movement\<close>

definition finiteVec3 :: "fvec \<Rightarrow> bool" where
  "finiteVec3 = (\<lambda>(x, y, z). finiteFloat x \<and> finiteFloat y \<and> finiteFloat z)"

definition vecEqual :: "fvec \<Rightarrow> fvec \<Rightarrow> bool" where
  "vecEqual = (\<lambda>(x, y, z) (x', y', z'). fEqual x x' \<and> fEqual y y' \<and> fEqual z z')"

definition vecSub :: "fvec \<Rightarrow> fvec \<Rightarrow> fvec" where
  "vecSub = (\<lambda>(x, y, z) (x', y', z'). (fSub x x', fSub y y', fSub z z'))"

definition setPlayer :: "addr \<Rightarrow> (mcpePlayerState \<Rightarrow> mcpePlayerState) \<Rightarrow> mcpe \<Rightarrow> mcpe" where
  "setPlayer a f = setClient a (\<lambda>cl. cl\<lparr>player := f (player cl)\<rparr>)"

text \<open>The part of \<^verbatim>\<open>handlePlayerAuthInput\<close> after the embedded stack request.\<close>

definition applyAuthInput :: "proto \<Rightarrow> addr \<Rightarrow> AuthInputPacket \<Rightarrow> action" where
  "applyAuthInput P a pk = reading (\<lambda>st.
     let old = playerMotion (player (clients st a));
         new = \<lparr>moPosition = aiPosition pk, moVelocity = aiDelta pk, moPitch = normaliseDegrees (aiPitch pk),
                moYaw = normaliseDegrees (aiYaw pk), moHeadYaw = normaliseDegrees (aiHeadYaw pk)\<rparr>;
         (changed, meta) = updatePlayerMetadataFromInput P (aiInputData pk) (playerMeta (player (clients st a)))
     in sequence
       [update (setPlayer a (\<lambda>p. p\<lparr>playerMotion := new, playerOnGround := \<not> inputFlag P (aiInputData pk) InputJumping,
                                  playerMeta := meta\<rparr>)),
        (if changed then reading (\<lambda>st. broadcastToSpawnedPeers a (setActorDataPacket (clients st a) (aiTick pk))) else ok),
        (if \<not> vecEqual (moPosition old) (moPosition new) \<or> \<not> fEqual (moPitch old) (moPitch new) \<or>
            \<not> fEqual (moYaw old) (moYaw new) \<or> \<not> fEqual (moHeadYaw old) (moHeadYaw new)
         then reading (\<lambda>st. broadcastToSpawnedPeers a (movePlayerPacket (clients st a) MoveModeNormal (aiTick pk))) else ok),
        (if \<not> vecEqual (moVelocity old) (moVelocity new)
         then reading (\<lambda>st. broadcastToSpawnedPeers a (setActorMotionPacket (clients st a) (aiTick pk))) else ok)])"

definition handlePlayerAuthInput :: "proto \<Rightarrow> addr \<Rightarrow> AuthInputPacket \<Rightarrow> action" where
  "handlePlayerAuthInput P a pk = reading (\<lambda>st.
     let cl = clients st a in
     if runtimeID cl = 0 then ok
     else if \<not> finiteVec3 (aiPosition pk) \<or> \<not> finiteFloat (aiPitch pk) \<or> \<not> finiteFloat (aiYaw pk) \<or> \<not> finiteFloat (aiHeadYaw pk)
     then fail InvalidMovement
     else if state cl \<noteq> stateSpawned then WritePacket a (movePlayerPacket cl MoveModeReset (aiTick pk))
     else andThen
       (if inputFlag P (aiInputData pk) InputPerformItemStackRequest
        then processItemStackRequests P a [aiItemStackRequest pk] else ok)
       (applyAuthInput P a pk))"

definition handleMovePlayer :: "addr \<Rightarrow> MovePlayerPacket \<Rightarrow> action" where
  "handleMovePlayer a pk = reading (\<lambda>st.
     let cl = clients st a in
     if runtimeID cl = 0 then ok
     else if mvRuntimeID pk \<noteq> 0 \<and> mvRuntimeID pk \<noteq> runtimeID cl then fail (RuntimeIDMismatch (runtimeID cl) (mvRuntimeID pk))
     else if \<not> finiteVec3 (mvPosition pk) \<or> \<not> finiteFloat (mvPitch pk) \<or> \<not> finiteFloat (mvYaw pk) \<or> \<not> finiteFloat (mvHeadYaw pk)
     then fail InvalidMovement
     else if state cl \<noteq> stateSpawned then WritePacket a (movePlayerPacket cl MoveModeReset (mvTick pk))
     else
       let new = \<lparr>moPosition = mvPosition pk, moVelocity = vecSub (mvPosition pk) (moPosition (playerMotion (player cl))),
                  moPitch = normaliseDegrees (mvPitch pk), moYaw = normaliseDegrees (mvYaw pk),
                  moHeadYaw = normaliseDegrees (mvHeadYaw pk)\<rparr>
       in sequence
         [update (setPlayer a (\<lambda>p. p\<lparr>playerMotion := new, playerOnGround := mvOnGround pk\<rparr>)),
          reading (\<lambda>st. broadcastToSpawnedPeers a (movePlayerPacket (clients st a) (mvMode pk) (mvTick pk)))])"

section \<open>Interaction\<close>

definition handleMouseOverEntity :: "addr \<Rightarrow> InteractPacket \<Rightarrow> action" where
  "handleMouseOverEntity a pk = reading (\<lambda>st.
     if iaTarget pk \<noteq> 0 \<and> \<not> playerExists (iaTarget pk) st then ok
     else if (case iaPosition pk of Some p \<Rightarrow> \<not> finiteVec3 p | None \<Rightarrow> False) then fail InvalidInteractPosition
     else update (setPlayer a (\<lambda>p. p\<lparr>playerTarget := iaTarget pk\<rparr>)))"

definition blockCoordinates :: "proto \<Rightarrow> fvec \<Rightarrow> int \<times> int \<times> int" where
  "blockCoordinates P = (\<lambda>(x, y, z).
     let conv = fToInt32 (int32Overflow (codecConsts P)) in (conv x, conv y, conv z))"

definition handleOpenInventory :: "proto \<Rightarrow> addr \<Rightarrow> action" where
  "handleOpenInventory P a = reading (\<lambda>st.
     let cl = clients st a in
     if stateNumber (state cl) < stateNumber stateAwaitInitialised \<or> inventoryOpen cl then ok
     else sequence
       [update (setClient a (\<lambda>cl. cl\<lparr>inventoryOpen := True\<rparr>)),
        WritePacket a (ContainerOpen (blockCoordinates P (moPosition (playerMotion (player cl)))))])"

definition handleContainerClose :: "addr \<Rightarrow> u8 \<Rightarrow> action" where
  "handleContainerClose a w =
     (if w = 0 then sequence [update (setClient a (\<lambda>cl. cl\<lparr>inventoryOpen := False\<rparr>)), WritePacket a (ContainerCloseOut w)]
      else if w = 0xFF then update (setClient a (\<lambda>cl. cl\<lparr>inventoryOpen := False\<rparr>))
      else fail UnexpectedWindow)"

definition handleLeaveVehicle :: "addr \<Rightarrow> InteractPacket \<Rightarrow> action" where
  "handleLeaveVehicle a pk =
     (let announce = reading (\<lambda>st. broadcastToSpawnedPeers a (movePlayerPacket (clients st a) MoveModeNormal 0)) in
      case iaPosition pk of
        None \<Rightarrow> announce
      | Some p \<Rightarrow>
          if \<not> finiteVec3 p then fail InvalidInteractPosition
          else sequence
            [update (setPlayer a (\<lambda>q. q\<lparr>playerMotion := (playerMotion q)\<lparr>moPosition := p\<rparr>\<rparr>)), announce])"

definition handleInteract :: "proto \<Rightarrow> addr \<Rightarrow> InteractPacket \<Rightarrow> action" where
  "handleInteract P a pk = reading (\<lambda>st.
     if runtimeID (clients st a) = 0 then ok
     else case iaAction pk of
       InteractMouseOverEntity \<Rightarrow> handleMouseOverEntity a pk
     | InteractOpenInventory \<Rightarrow> handleOpenInventory P a
     | InteractLeaveVehicle \<Rightarrow> handleLeaveVehicle a pk
     | OtherInteract n \<Rightarrow> fail UnexpectedInteract)"

end
