(* ===== verification/Default_Commands.thy ===== *)
theory Default_Commands
  imports Player_Sync Decimal "HOL-Library.Multiset"
begin

text \<open>
  Permissions and the built-in commands (\<^verbatim>\<open>internal/server/mcpe_permissions.go\<close>,
  \<^verbatim>\<open>mcpe_commands.go\<close>), with the handlers for chat and command packets.

  The executors of the commands run against the state of the server. Two of them read the registry
  they are registered in (\<^verbatim>\<open>/help\<close>, and \<^verbatim>\<open>/op\<close>, \<^verbatim>\<open>/deop\<close> through the command list sent to a client); what
  they read does not depend on executors, so they use the registry of the same commands without
  executors, \<open>commandShapes\<close>, which the last section proves to be indistinguishable.
\<close>

section \<open>Permissions\<close>

definition permissionCommandHelp :: string where "permissionCommandHelp = ''bds.command.help''"
definition permissionCommandList :: string where "permissionCommandList = ''bds.command.list''"
definition permissionCommandSay :: string where "permissionCommandSay = ''bds.command.say''"
definition permissionCommandStop :: string where "permissionCommandStop = ''bds.command.stop''"
definition permissionCommandOp :: string where "permissionCommandOp = ''bds.command.op''"
definition permissionCommandDeop :: string where "permissionCommandDeop = ''bds.command.deop''"

lemmas permission_defs = permissionCommandHelp_def permissionCommandList_def permissionCommandSay_def
  permissionCommandStop_def permissionCommandOp_def permissionCommandDeop_def

definition defaultPlayerPermissions :: "(string, bool) gomap" where
  "defaultPlayerPermissions = [(permissionCommandHelp, True), (permissionCommandList, True)]"

definition isOperator :: "uuid \<Rightarrow> mcpe \<Rightarrow> bool" where
  "isOperator u st = (map_of (operators (handler st)) u = Some True)"

definition setOperator :: "uuid \<Rightarrow> bool \<Rightarrow> mcpe \<Rightarrow> mcpe" where
  "setOperator u value = setHandler (\<lambda>h. h\<lparr>operators :=
     (if value then AList.update u True (operators h) else AList.delete u (operators h))\<rparr>)"

definition hasPlayerPermission :: "addr option \<Rightarrow> mcpe \<Rightarrow> string \<Rightarrow> bool" where
  "hasPlayerPermission client st permission =
     (if permission = [] then True
      else if map_of defaultPlayerPermissions permission = Some True then True
      else case client of None \<Rightarrow> False | Some a \<Rightarrow> isOperator (playerUUID (player (clients st a))) st)"

definition clientName :: "mcpe \<Rightarrow> addr \<Rightarrow> string" where
  "clientName st a = DisplayName (loginIdentity (login (clients st a)))"

definition playerCommandSender :: "addr \<Rightarrow> mcpe \<Rightarrow> mcpe sender" where
  "playerCommandSender a st = \<lparr>senderName = clientName st a, senderHasPermission = hasPlayerPermission (Some a)\<rparr>"

definition consoleCommandSender :: "mcpe sender" where
  "consoleCommandSender = \<lparr>senderName = ''Server'', senderHasPermission = (\<lambda>st permission. True)\<rparr>"

section \<open>Looking up players\<close>

definition onlinePlayerNames :: "mcpe \<Rightarrow> string list" where
  "onlinePlayerNames st = sort (map (clientName st) (allPlayers st))"

definition playerByName :: "proto \<Rightarrow> string \<Rightarrow> mcpe \<Rightarrow> addr option" where
  "playerByName P name0 st =
     (let name = ToLower (unicodeLower P) (TrimSpace name0) in
      find (\<lambda>a. ToLower (unicodeLower P) (clientName st a) = name) (map snd (players (handler st))))"

definition firstArg :: "string list \<Rightarrow> string" where
  "firstArg args = (if args = [] then [] else hd args)"

section \<open>The built-in commands\<close>

definition defaultCommand :: "string \<Rightarrow> string \<Rightarrow> string \<Rightarrow> string \<Rightarrow> parameter list \<Rightarrow> mcpe executor \<Rightarrow> mcpe command" where
  "defaultCommand name description usage permission params run =
     \<lparr>cmdName = name, cmdDescription = description, cmdUsage = usage, cmdPermission = permission,
      cmdAliases = [], cmdParameters = params, cmdRun = Some run\<rparr>"

definition argParam :: "proto \<Rightarrow> string \<Rightarrow> u32 \<Rightarrow> parameter" where
  "argParam P name argType = BasicParameter (commandArgValid (commandArgs P)) name argType False"

text \<open>The six commands of \<^verbatim>\<open>newDefaultCommands\<close> in order, with the executor of each given by its name.\<close>

definition commandList :: "proto \<Rightarrow> (string \<Rightarrow> mcpe executor) \<Rightarrow> mcpe command list" where
  "commandList P run =
     [defaultCommand ''help'' ''Shows available commands'' ''/help'' permissionCommandHelp [] (run ''help''),
      defaultCommand ''list'' ''Lists online players'' ''/list'' permissionCommandList [] (run ''list''),
      defaultCommand ''say'' ''Broadcasts a server message'' ''/say <message>'' permissionCommandSay
        [argParam P ''message'' (commandArgMessage (commandArgs P))] (run ''say''),
      defaultCommand ''stop'' ''Stops the server'' ''/stop'' permissionCommandStop [] (run ''stop''),
      defaultCommand ''op'' ''Grants operator permissions to an online player'' ''/op <player>'' permissionCommandOp
        [argParam P ''player'' (commandArgTarget (commandArgs P))] (run ''op''),
      defaultCommand ''deop'' ''Revokes operator permissions from an online player'' ''/deop <player>'' permissionCommandDeop
        [argParam P ''player'' (commandArgTarget (commandArgs P))] (run ''deop'')]"

text \<open>\<^verbatim>\<open>mustRegister\<close> panics when a registration fails; \<open>None\<close> is the panic.\<close>

definition registerAll :: "proto \<Rightarrow> (string \<Rightarrow> mcpe executor) \<Rightarrow> mcpe registry option" where
  "registerAll P run =
     (case forE (Register (unicodeLower P)) (commandList P run) NewRegistry of Inl e \<Rightarrow> None | Inr reg \<Rightarrow> Some reg)"

definition commandShapes :: "proto \<Rightarrow> mcpe registry" where
  "commandShapes P = (case registerAll P (\<lambda>name sender inv st. (Success [], st)) of None \<Rightarrow> NewRegistry | Some reg \<Rightarrow> reg)"

definition sendAvailableCommands :: "proto \<Rightarrow> addr \<Rightarrow> action" where
  "sendAvailableCommands P a = reading (\<lambda>st.
     WritePacket a (AvailableCommands (ProtocolCommands (commandShapes P) (playerCommandSender a st) st)))"

definition sendRawText :: "addr \<Rightarrow> string \<Rightarrow> action" where
  "sendRawText a message = WritePacket a (ServerText (plainText TextTypeRaw message))"

definition runHelp :: "mcpe registry \<Rightarrow> mcpe executor" where
  "runHelp reg sender invoc st =
     (Success (''Available commands:'' # map (\<lambda>cmd. cmdUsage cmd @ '' - '' @ cmdDescription cmd) (Visible reg sender st)), st)"

definition runList :: "mcpe executor" where
  "runList sender invoc st =
     (let names = onlinePlayerNames st in
      (Success [''There are '' @ Itoa (int (length names)) @ ''/'' @ Itoa (maxPlayers (cfg st)) @
         '' players online: '' @ Join names '', ''], st))"

definition runSay :: "proto \<Rightarrow> mcpe executor" where
  "runSay P sender invoc st =
     (let message = TrimSpace (invRawArgs invoc) in
      if message = [] then (Failure [''Usage: /say <message>''], st)
      else case broadcastText ((plainText TextTypeAnnouncement message)\<lparr>txtSourceName := senderName sender\<rparr>) st of
        (Some e, st') \<Rightarrow> (Failure [''Failed to broadcast message: '' @ writeErrorText (codecConsts P)], st')
      | (None, st') \<Rightarrow> (Success [''Message sent.''], st'))"

definition runStop :: "mcpe executor" where
  "runStop sender invoc st =
     (let st1 = snd (broadcastSystemText ''Server is stopping.'' st) in
      if \<not> hasShutdown (cfg st1) then (Failure [''Shutdown is not wired for this runtime.''], st1)
      else (Success [''Stopping the server.''], setHandler (\<lambda>h. h\<lparr>callbacks := callbacks h @ [ShutdownCalled]\<rparr>) st1))"

text \<open>The bodies of \<^verbatim>\<open>/op\<close> and \<^verbatim>\<open>/deop\<close>, which differ in the value they set and in their texts.\<close>

definition runSetOperator :: "proto \<Rightarrow> bool \<Rightarrow> mcpe executor" where
  "runSetOperator P value sender invoc st =
     (let targetName = firstArg (invArgs invoc) in
      if targetName = [] then (Failure [if value then ''Usage: /op <player>'' else ''Usage: /deop <player>''], st)
      else case playerByName P targetName st of
        None \<Rightarrow> (Failure [''Player not found: '' @ targetName], st)
      | Some target \<Rightarrow>
          let st1 = setOperator (playerUUID (player (clients st target))) value st;
              st2 = snd (sendAvailableCommands P target st1);
              st3 = snd (sendRawText target (if value then ''You are now an operator.'' else ''You are no longer an operator.'') st2)
          in (Success [if value then ''Made '' @ clientName st3 target @ '' a server operator.''
                       else ''Removed operator permissions from '' @ clientName st3 target @ ''.''], st3))"

definition executors :: "proto \<Rightarrow> string \<Rightarrow> mcpe executor" where
  "executors P name =
     (if name = ''help'' then runHelp (commandShapes P)
      else if name = ''list'' then runList
      else if name = ''say'' then runSay P
      else if name = ''stop'' then runStop
      else if name = ''op'' then runSetOperator P True
      else runSetOperator P False)"

definition newDefaultCommands :: "proto \<Rightarrow> mcpe registry option" where
  "newDefaultCommands P = registerAll P (executors P)"

section \<open>Chat and commands\<close>

definition maxChatMessageBytes :: nat where
  "maxChatMessageBytes = 512"

definition cleanChatMessage :: "string \<Rightarrow> string" where
  "cleanChatMessage message0 =
     (let message = TrimSpace (filter (\<lambda>c. c \<noteq> CHR 0x00) message0) in
      if length message > maxChatMessageBytes then take maxChatMessageBytes message else message)"

definition commandSuccessCount :: "result \<Rightarrow> u32" where
  "commandSuccessCount result = (if resSuccess result then 1 else 0)"

definition writeCommandOutput :: "addr \<Rightarrow> command_origin \<Rightarrow> result \<Rightarrow> action" where
  "writeCommandOutput a origin result =
     WritePacket a (CommandOutput origin (commandSuccessCount result)
       (map (\<lambda>message. (resSuccess result, message)) (resMessages result)))"

text \<open>Dispatching a line, with the panics of a missing registry or executor as an error.\<close>

definition dispatchLine :: "proto \<Rightarrow> mcpe sender \<Rightarrow> string \<Rightarrow> (result \<Rightarrow> action) \<Rightarrow> action" where
  "dispatchLine P sender line k st =
     (case newDefaultCommands P of
        None \<Rightarrow> (Some NilExecutor, st)
      | Some reg \<Rightarrow>
      (case Dispatch (unicodeLower P) reg sender line st of
        None \<Rightarrow> (Some NilExecutor, st)
      | Some (result, st') \<Rightarrow> k result st'))"

definition ExecuteConsoleCommand :: "proto \<Rightarrow> string \<Rightarrow> mcpe \<Rightarrow> (result \<times> mcpe) option" where
  "ExecuteConsoleCommand P line st =
     (case newDefaultCommands P of
        None \<Rightarrow> None
      | Some reg \<Rightarrow> Dispatch (unicodeLower P) reg consoleCommandSender line st)"

definition handleText :: "proto \<Rightarrow> addr \<Rightarrow> TextPacket \<Rightarrow> action" where
  "handleText P a pk = reading (\<lambda>st.
     let cl = clients st a; message = cleanChatMessage (txtMessage pk) in
     if state cl \<noteq> stateSpawned \<or> txtType pk \<noteq> TextTypeChat then ok
     else if message = [] then ok
     else if HasPrefix message ''/'' then
       dispatchLine P (playerCommandSender a st) message (\<lambda>result. sequence (map (sendRawText a) (resMessages result)))
     else broadcastText
       \<lparr>txtType = TextTypeChat, txtSourceName = clientName st a, txtMessage = message, txtParameters = [],
        txtXUID = XUID (loginIdentity (login cl)), txtPlatformChatID = txtPlatformChatID pk,
        txtFilteredMessage = txtFilteredMessage pk\<rparr>)"

definition handleCommandRequest :: "proto \<Rightarrow> addr \<Rightarrow> command_origin \<Rightarrow> string \<Rightarrow> action" where
  "handleCommandRequest P a origin line = reading (\<lambda>st.
     if state (clients st a) \<noteq> stateSpawned then ok
     else case origin of
       OtherCommandOrigin n \<Rightarrow> writeCommandOutput a origin (Failure [''Only player command requests are supported.''])
     | CommandOriginPlayer n \<Rightarrow>
         if \<not> HasPrefix (TrimSpace line) ''/''
         then writeCommandOutput a origin (Failure [''Command requests must start with /.''])
         else dispatchLine P (playerCommandSender a st) line (writeCommandOutput a origin))"


section \<open>The registry of the built-in commands\<close>

definition lowerName :: "string \<Rightarrow> bool" where
  "lowerName s \<longleftrightarrow> list_all (\<lambda>c. 97 \<le> (of_char c :: nat) \<and> (of_char c :: nat) \<le> 122) s"

lemma lowerName_normal:
  assumes "lowerName s" and "s \<noteq> []"
  shows "normaliseName ul s = s"
proof -
  have c: "97 \<le> (of_char c :: nat) \<and> (of_char c :: nat) \<le> 122" if "c \<in> set s" for c
    using assms(1) that by (auto simp: lowerName_def list_all_iff)
  have "hd s \<noteq> CHR ''/''"
  proof
    assume "hd s = CHR ''/''"
    moreover have "hd s \<in> set s" using assms(2) by simp
    ultimately show False using c [of "hd s"] by simp
  qed
  then have p: "TrimPrefix s ''/'' = s" using assms(2) by (cases s) (auto simp: TrimPrefix_def)
  have pr: "printable c" if "c \<in> set s" for c using c [OF that] by (simp add: printable_def)
  have "trimmed s" using pr assms(2) by (intro trimmedI) simp
  then have t: "TrimSpace s = s" by (rule TrimSpace_trimmed)
  have "isASCII s" using c by (force simp: isASCII_def list_all_iff)
  moreover have "map asciiLower s = s" using c by (force simp: asciiLower_def intro!: map_idI)
  ultimately show ?thesis by (simp add: normaliseName_def p t ToLower_def)
qed

definition builtinNames :: "string list" where
  "builtinNames = [''help'', ''list'', ''say'', ''stop'', ''op'', ''deop'']"

lemma commandList_names: "map cmdName (commandList P run) = builtinNames"
  by (simp add: commandList_def defaultCommand_def builtinNames_def)

lemma register_builtin:
  assumes "lowerName (cmdName cmd)" and "cmdName cmd \<noteq> []" and "cmdRun cmd \<noteq> None" and "cmdUsage cmd \<noteq> []"
    and "cmdAliases cmd = []" and "cmdName cmd \<notin> fst ` set (commands reg)"
  shows "Register ul cmd reg = Inr \<lparr>commands = commands reg @ [(cmdName cmd, cmd)], aliases = aliases reg,
    order = sort (order reg @ [cmdName cmd])\<rparr>"
proof -
  have n: "normaliseName ul (cmdName cmd) = cmdName cmd" by (rule lowerName_normal [OF assms(1,2)])
  have "map_of (commands reg) (cmdName cmd) = None" using assms(6) by (simp add: map_of_eq_None_iff)
  moreover have "AList.update (cmdName cmd) v m = m @ [(cmdName cmd, v)]" if "cmdName cmd \<notin> fst ` set m" for v m
    using that by (induction m) auto
  ultimately show ?thesis using assms by (simp add: Register_def n Let_def)
qed

lemma register_all_builtin:
  assumes "distinct (map cmdName cmds)" and "\<forall>c \<in> set cmds. cmdName c \<notin> fst ` set (commands reg)"
    and "\<forall>c \<in> set cmds. lowerName (cmdName c) \<and> cmdName c \<noteq> [] \<and> cmdRun c \<noteq> None \<and> cmdUsage c \<noteq> [] \<and> cmdAliases c = []"
    and "sorted (order reg)"
  shows "forE (Register ul) cmds reg = Inr \<lparr>commands = commands reg @ map (\<lambda>c. (cmdName c, c)) cmds, aliases = aliases reg,
    order = sort (order reg @ map cmdName cmds)\<rparr>"
  using assms
proof (induction cmds arbitrary: reg)
  case Nil
  then show ?case by (simp add: sorted_sort_id)
next
  case (Cons c cmds)
  have r: "Register ul c reg = Inr \<lparr>commands = commands reg @ [(cmdName c, c)], aliases = aliases reg,
      order = sort (order reg @ [cmdName c])\<rparr>" (is "_ = Inr ?reg")
    using Cons.prems by (intro register_builtin) auto
  have s: "sort (sort (order reg @ [cmdName c]) @ map cmdName cmds) = sort (order reg @ cmdName c # map cmdName cmds)"
    by (rule properties_for_sort) simp_all
  have "forE (Register ul) cmds ?reg = Inr \<lparr>commands = commands ?reg @ map (\<lambda>c. (cmdName c, c)) cmds, aliases = aliases ?reg,
      order = sort (order ?reg @ map cmdName cmds)\<rparr>"
    using Cons.prems by (intro Cons.IH) (auto simp: image_iff dest: sym)
  then show ?case by (simp add: r s)
qed

text \<open>Registering the built-in commands never panics, and gives this registry.\<close>

definition builtinRegistry :: "proto \<Rightarrow> (string \<Rightarrow> mcpe executor) \<Rightarrow> mcpe registry" where
  "builtinRegistry P run =
     \<lparr>commands = map (\<lambda>c. (cmdName c, c)) (commandList P run), aliases = [], order = sort builtinNames\<rparr>"

lemma registerAll_builtin: "registerAll P run = Some (builtinRegistry P run)"
proof -
  have l: "\<forall>c \<in> set (commandList P run). lowerName (cmdName c) \<and> cmdName c \<noteq> [] \<and> cmdRun c \<noteq> None \<and> cmdUsage c \<noteq> [] \<and> cmdAliases c = []"
    by (simp add: commandList_def defaultCommand_def lowerName_def)
  have "distinct (map cmdName (commandList P run))" unfolding commandList_names by (simp add: builtinNames_def)
  then show ?thesis
    using register_all_builtin [OF _ _ l, of NewRegistry "unicodeLower P"]
    by (simp add: registerAll_def builtinRegistry_def NewRegistry_def commandList_names)
qed

lemma newDefaultCommands_builtin: "newDefaultCommands P = Some (builtinRegistry P (executors P))"
  by (simp add: newDefaultCommands_def registerAll_builtin)

lemma builtin_lookup:
  assumes "Lookup ul (builtinRegistry P run) label = Some cmd"
  shows "cmd \<in> set (commandList P run)"
  using assms by (auto simp: Lookup_def builtinRegistry_def Let_def dest!: map_of_SomeD)

lemma builtin_run:
  "cmd \<in> set (commandList P run) \<Longrightarrow> cmdRun cmd = Some (run (cmdName cmd)) \<and> cmdName cmd \<in> set builtinNames"
  by (auto simp: commandList_def defaultCommand_def builtinNames_def)

text \<open>What commands announce does not depend on their executors.\<close>

lemma map_of_commands:
  "map_of (commands (builtinRegistry P run)) name =
     map_option (\<lambda>c. c\<lparr>cmdRun := Some (run (cmdName c))\<rparr>) (map_of (commands (builtinRegistry P run')) name)"
  by (auto simp: builtinRegistry_def commandList_def defaultCommand_def)

lemma Visible_builtin:
  "map f (Visible (builtinRegistry P run) sender st) = map f (Visible (builtinRegistry P run') sender st)"
  if "\<And>c r. f (c\<lparr>cmdRun := r\<rparr>) = f c"
proof -
  let ?get = "\<lambda>run name. case map_of (commands (builtinRegistry P run)) name of Some c \<Rightarrow> c | None \<Rightarrow> zeroCommand"
  have e: "?get run name = (?get run' name)\<lparr>cmdRun := cmdRun (?get run name)\<rparr>" for name
    by (cases "map_of (commands (builtinRegistry P run')) name") (simp_all add: map_of_commands [of P run _ run'])
  have perm: "cmdPermission (?get run name) = cmdPermission (?get run' name)" for name
    by (subst e) simp
  have fe: "f (?get run name) = f (?get run' name)" for name
    by (subst e) (rule that)
  have o: "order (builtinRegistry P run) = order (builtinRegistry P run')" by (simp add: builtinRegistry_def)
  show ?thesis unfolding Visible_def o filter_map map_map comp_def perm fe ..
qed

lemma executors_read_registry:
  "runHelp (commandShapes P) = runHelp (builtinRegistry P (executors P))"
  "ProtocolCommands (commandShapes P) = ProtocolCommands (builtinRegistry P (executors P))"
  unfolding commandShapes_def registerAll_builtin option.case
  by (auto simp: fun_eq_iff runHelp_def ProtocolCommands_def intro!: arg_cong [of _ _ Success] Visible_builtin)


section \<open>What a player who is not an operator can do\<close>

lemma non_operator_permission:
  assumes "\<not> isOperator (playerUUID (player (clients st a))) st" and "cmd \<in> set (commandList P run)"
    and "hasPlayerPermission (Some a) st (cmdPermission cmd)"
  shows "cmdName cmd = ''help'' \<or> cmdName cmd = ''list''"
  using assms
  by (auto simp: commandList_def defaultCommand_def hasPlayerPermission_def defaultPlayerPermissions_def permission_defs)

lemma dispatch_non_operator:
  assumes "\<not> isOperator (playerUUID (player (clients st a))) st"
  shows "\<exists>r. Dispatch (unicodeLower P) (builtinRegistry P (executors P)) (playerCommandSender a st) line st = Some (r, st)"
proof -
  have run: "\<exists>run. cmdRun cmd = Some run \<and> (\<forall>i. snd (run (playerCommandSender a st) i st) = st)"
    if "Lookup (unicodeLower P) (builtinRegistry P (executors P)) label = Some cmd"
      and "senderHasPermission (playerCommandSender a st) st (cmdPermission cmd)" for label cmd
  proof -
    have c: "cmd \<in> set (commandList P (executors P))" by (rule builtin_lookup [OF that(1)])
    have "cmdName cmd = ''help'' \<or> cmdName cmd = ''list''"
      using non_operator_permission [OF assms c] that(2) by (simp add: playerCommandSender_def)
    then show ?thesis
      using builtin_run [OF c] by (auto simp: executors_def runHelp_def runList_def Let_def)
  qed
  show ?thesis
  proof (cases "ParseLine (unicodeLower P) line")
    case (Inl e)
    then show ?thesis by (simp add: Dispatch_def)
  next
    case (Inr p)
    obtain label args raw where p: "p = (label, args, raw)" by (cases p)
    show ?thesis
    proof (cases "label = [] \<or> Lookup (unicodeLower P) (builtinRegistry P (executors P)) label = None")
      case True
      then show ?thesis using Inr p by (auto simp: Dispatch_def)
    next
      case False
      then obtain cmd where cmd: "Lookup (unicodeLower P) (builtinRegistry P (executors P)) label = Some cmd" by auto
      show ?thesis
      proof (cases "senderHasPermission (playerCommandSender a st) st (cmdPermission cmd)")
        case True
        obtain run' where r: "cmdRun cmd = Some run'" "\<And>i. snd (run' (playerCommandSender a st) i st) = st"
          using run [OF cmd True] by blast
        then have "run' (playerCommandSender a st) i st = (fst (run' (playerCommandSender a st) i st), st)" for i
          by (metis prod.collapse)
        then obtain res where "run' (playerCommandSender a st) \<lparr>invLabel = label, invArgs = args, invRawArgs = raw\<rparr> st = (res, st)"
          by blast
        then show ?thesis using Inr p False cmd True r(1) by (simp add: Dispatch_def)
      next
        case False
        then show ?thesis using Inr p \<open>\<not> (label = [] \<or> _)\<close> cmd by (simp add: Dispatch_def)
      qed
    qed
  qed
qed

text \<open>
  C11. Commands of ordinary players are harmless: whatever line a player who is not an operator
  dispatches, however it is quoted or spelled, the command either is refused or only reads: the whole
  server state, with its players, operators, connections and the shutdown hook, is unchanged. Through
  the command packet such a player can only cause packets to its own connection.
\<close>

theorem non_operator_commands_read_only:
  assumes "\<not> isOperator (playerUUID (player (clients st a))) st"
  shows "(\<exists>reg r. newDefaultCommands P = Some reg \<and>
      Dispatch (unicodeLower P) reg (playerCommandSender a st) line st = Some (r, st)) \<and>
    handler (snd (handleCommandRequest P a origin line st)) = handler st \<and>
    (\<forall>b. b \<noteq> a \<longrightarrow> clients (snd (handleCommandRequest P a origin line st)) b = clients st b)"
proof -
  obtain r where d: "Dispatch (unicodeLower P) (builtinRegistry P (executors P)) (playerCommandSender a st) line st = Some (r, st)"
    using dispatch_non_operator [OF assms] by blast
  have w: "handler (snd (writeCommandOutput a or res st)) = handler st"
    "b \<noteq> a \<Longrightarrow> clients (snd (writeCommandOutput a or res st)) b = clients st b" for or res b
    by (simp_all add: writeCommandOutput_def WritePacket_def writeEvent_def setClient_def Let_def split: prod.split)
  show ?thesis
    using d w by (auto simp: newDefaultCommands_builtin handleCommandRequest_def reading_def dispatchLine_def ok_def split: command_origin.split)
qed


text \<open>Witness of \<open>non_operator_commands_read_only\<close>: a player tries to stop the sample server.\<close>

theorem non_operator_commands_read_only_witness:
  "(\<exists>reg r. newDefaultCommands sampleProto = Some reg \<and>
      Dispatch (unicodeLower sampleProto) reg (playerCommandSender 0 sampleServer) ''/stop now'' sampleServer = Some (r, sampleServer)) \<and>
    handler (snd (handleCommandRequest sampleProto 0 (CommandOriginPlayer 7) ''/stop'' sampleServer)) = handler sampleServer"
proof -
  have "\<not> isOperator (playerUUID (player (clients sampleServer 0))) sampleServer"
    by (simp add: isOperator_def sampleServer_def sampleHandler_def)
  from non_operator_commands_read_only [OF this, of sampleProto "''/stop now''"]
    non_operator_commands_read_only [OF this, of sampleProto "''/stop''" "CommandOriginPlayer 7"]
  show ?thesis by blast
qed

end
