(* ===== verification/Session.thy ===== *)
theory Session
  imports Default_Commands
begin

text \<open>
  The life of a session (\<^verbatim>\<open>internal/server/mcpe_session.go\<close>, \<^verbatim>\<open>mcpe_router.go\<close>, \<^verbatim>\<open>mcpe_login_flow.go\<close>,
  \<^verbatim>\<open>mcpe_login.go\<close>, \<^verbatim>\<open>mcpe_resourcepacks.go\<close>, \<^verbatim>\<open>mcpe_world_sync.go\<close>, and the sending half of
  \<^verbatim>\<open>chunk_publisher.go\<close>): login, handshake, resource packs, start of the game, world data, and the
  router that picks the handler of a packet.

  What a handler obtains from outside (context polls, random salt, a generated key, a fresh UUID) is
  the record \<open>env\<close>, one per packet.
\<close>

record env =
  envCtx :: "nat \<Rightarrow> ctx_polls"
  envKey :: "PrivateKey option"
  envSalt :: "bytes option"
  envUUID :: string

section \<open>World data\<close>

definition initialWorldTime :: int where
  "initialWorldTime = 0"

definition setSpawnPositionPacket :: "ChunkProvider \<Rightarrow> server_packet" where
  "setSpawnPositionPacket source = SetSpawnPosition (provSpawnBlock source) (ID (provDimension source))"

definition updateBlockPacket :: "BlockPos \<Rightarrow> u32 \<Rightarrow> u32 \<Rightarrow> server_packet" where
  "updateBlockPacket pos blockID layer = UpdateBlock pos blockID layer"

definition SendBlockRuntimeID :: "addr \<Rightarrow> BlockPos \<Rightarrow> u32 \<Rightarrow> u32 \<Rightarrow> action" where
  "SendBlockRuntimeID a pos blockID layer = WritePacket a (updateBlockPacket pos blockID layer)"

text \<open>One iteration of the loop over the chunk positions.\<close>

definition sendChunk :: "proto \<Rightarrow> ctx_polls \<Rightarrow> ChunkProvider \<Rightarrow> addr \<Rightarrow> ChunkPos \<Rightarrow> action" where
  "sendChunk P ctx source a pos =
     (case ctx 0 of
        Some e \<Rightarrow> fail (InitialContext e)
      | None \<Rightarrow>
      (case provChunk source (\<lambda>k. ctx (Suc k)) pos of
        Inl e \<Rightarrow> fail (InitialChunks e)
      | Inr chunk \<Rightarrow> WritePacket a (LevelChunkPacket (levelChunkPacket (writeVarint (codecConsts P)) chunk))))"

text \<open>Flushing a session writes nothing and cannot fail (\<^verbatim>\<open>session.Flush\<close> in \<^verbatim>\<open>internal/network/mcpe/session.go\<close>).\<close>

definition Flush :: "addr \<Rightarrow> action" where
  "Flush a = ok"

definition SendInitial :: "proto \<Rightarrow> (nat \<Rightarrow> ctx_polls) \<Rightarrow> chunkPublisher \<Rightarrow> addr \<Rightarrow> action" where
  "SendInitial P ctx publisher a =
     (let source = pubSource publisher; spawn = provSpawnBlock source;
          center = \<lparr>chunkX = blockX spawn div 16, chunkZ = blockZ spawn div 16\<rparr>
      in sequence
        [WritePacket a (NetworkChunkPublisherUpdate spawn (word_of_int (pubRadius publisher * 16))),
         WritePacket a (SetTime initialWorldTime),
         WritePacket a (setSpawnPositionPacket source),
         (case chunkPositions center (pubRadius publisher) of
            None \<Rightarrow> fail PositionsPanic
          | Some positions \<Rightarrow>
              sequence (map (\<lambda>(n, pos). sendChunk P (ctx n) source a pos) (enumerate 0 positions))),
         Flush a])"

definition SendSubChunks :: "proto \<Rightarrow> (nat \<Rightarrow> ctx_polls) \<Rightarrow> chunkPublisher \<Rightarrow> addr \<Rightarrow> SubChunkRequest \<Rightarrow> action" where
  "SendSubChunks P ctx publisher a request =
     (case subChunkPacket (writeVarint (codecConsts P)) ctx (pubSource publisher) request of
        Inl e \<Rightarrow> fail (SubChunks e)
      | Inr pk \<Rightarrow> WritePacket a (SubChunkOut pk))"

definition setState :: "addr \<Rightarrow> mcpeSessionState \<Rightarrow> action" where
  "setState a s = update (setClient a (\<lambda>cl. cl\<lparr>state := s\<rparr>))"

definition handleRequestChunkRadius :: "proto \<Rightarrow> env \<Rightarrow> addr \<Rightarrow> int \<Rightarrow> action" where
  "handleRequestChunkRadius P env a requested = reading (\<lambda>st.
     let view = viewDistance (cfg st);
         radius = (if view > 0 \<and> i32 view < requested then i32 view else requested)
     in if requested < 1 then fail (ChunkRadius requested)
        else sequence
          [WritePacket a (ChunkRadiusUpdated radius),
           WritePacket a BiomeDefinitionList,
           WritePacket a CreativeContent,
           sendInitialInventory a,
           (if \<not> chunksSent (clients st a)
            then sequence [SendInitial P (envCtx env) (chunks (cfg st)) a,
                           update (setClient a (\<lambda>cl. cl\<lparr>chunksSent := True\<rparr>))]
            else ok),
           WritePacket a (PlayStatus PlayerSpawn),
           setState a stateAwaitInitialised])"

definition handleSubChunkRequest :: "proto \<Rightarrow> env \<Rightarrow> addr \<Rightarrow> SubChunkRequest \<Rightarrow> action" where
  "handleSubChunkRequest P env a pk = reading (\<lambda>st. SendSubChunks P (envCtx env) (chunks (cfg st)) a pk)"

definition setLoading :: "addr \<Rightarrow> (loading_screen \<Rightarrow> loading_screen) \<Rightarrow> action" where
  "setLoading a f = update (setClient a (\<lambda>cl. cl\<lparr>loading := f (loading cl)\<rparr>))"

definition handleServerBoundLoadingScreen :: "addr \<Rightarrow> loading_type \<Rightarrow> u32 option \<Rightarrow> action" where
  "handleServerBoundLoadingScreen a ty screenID = reading (\<lambda>st.
     let ls = loading (clients st a) in
     if (case screenID of Some n \<Rightarrow> loadingScreenIDOK ls \<and> n \<noteq> loadingScreenID ls | None \<Rightarrow> False)
     then fail (LoadingScreenMismatch (loadingScreenID ls) (the screenID))
     else case ty of
       LoadingScreenTypeStart \<Rightarrow>
         setLoading a (\<lambda>ls. case screenID of
           Some n \<Rightarrow> ls\<lparr>loadingScreenOpen := True, loadingScreenID := n, loadingScreenIDOK := True\<rparr>
         | None \<Rightarrow> ls\<lparr>loadingScreenOpen := True\<rparr>)
     | LoadingScreenTypeEnd \<Rightarrow> setLoading a (\<lambda>ls. ls\<lparr>loadingScreenOpen := False, loadingScreenIDOK := False\<rparr>)
     | LoadingScreenTypeUnknown \<Rightarrow> ok
     | OtherLoadingType n \<Rightarrow> fail UnknownLoadingScreen)"

definition joinedText :: "string \<Rightarrow> TextPacket" where
  "joinedText name = (plainText TextTypeTranslation ''multiplayer.player.joined'')\<lparr>txtParameters := [name]\<rparr>"

definition handleSetLocalPlayerAsInitialised :: "proto \<Rightarrow> addr \<Rightarrow> u64 \<Rightarrow> action" where
  "handleSetLocalPlayerAsInitialised P a n = reading (\<lambda>st.
     if n \<noteq> runtimeID (clients st a) then fail (RuntimeIDMismatch (runtimeID (clients st a)) n)
     else sequence
       [setState a stateSpawned,
        spawnToInitialisedPlayers P a,
        reading (\<lambda>st. ignoreError (writePacketToClients (spawnedPlayersExcept a st) (ServerText (joinedText (clientName st a)))))])"

section \<open>Login\<close>

definition handleRequestNetworkSettings :: "proto \<Rightarrow> addr \<Rightarrow> int \<Rightarrow> action" where
  "handleRequestNetworkSettings P a protocol =
     (if protocol \<noteq> i32 (CurrentProtocol P) then
        sequence
          [ignoreError (WritePacketUncompressed a (PlayStatus
             (if protocol > i32 (CurrentProtocol P) then LoginFailedServer else LoginFailedClient))),
           fail (ProtocolVersion protocol)]
      else sequence
        [WritePacketUncompressed a (NetworkSettings (word_of_int (compressionThreshold (codecConsts P)))
           (compressionAlgorithm (codecConsts P))),
         update (logConn a CompressionOn),
         setState a stateAwaitLogin])"

definition parseConnectionRequest :: "proto \<Rightarrow> bytes \<Rightarrow> loginData option" where
  "parseConnectionRequest P request = loginParse (loginLib P) request"

text \<open>\<^verbatim>\<open>parseLoginPacket\<close>; \<open>None\<close> is a nil packet.\<close>

definition parseLoginPacket :: "proto \<Rightarrow> bytes option \<Rightarrow> loginData option" where
  "parseLoginPacket P pk = (case pk of None \<Rightarrow> None | Some request \<Rightarrow> parseConnectionRequest P request)"

definition encryptionPrivateKey :: "env \<Rightarrow> mcpe \<Rightarrow> PrivateKey option \<times> mcpe" where
  "encryptionPrivateKey env st =
     (case privateKey (handler st) of
        Some key \<Rightarrow> (Some key, st)
      | None \<Rightarrow>
      (case envKey env of
        None \<Rightarrow> (None, st)
      | Some key \<Rightarrow> (Some key, setHandler (\<lambda>h. h\<lparr>privateKey := Some key\<rparr>) st)))"

definition serverHandshake :: "proto \<Rightarrow> env \<Rightarrow> loginData \<Rightarrow> mcpe \<Rightarrow> (server_error + bytes \<times> bytes) \<times> mcpe" where
  "serverHandshake P env data st =
     (if AuthPublicKey (loginAuth data) = None then (Inl NoClientKey, st)
      else case encryptionPrivateKey env st of
        (None, st') \<Rightarrow> (Inl KeyGeneration, st')
      | (Some key, st') \<Rightarrow>
      (case envSalt env of
        None \<Rightarrow> (Inl SaltGeneration, st')
      | Some salt \<Rightarrow> (map_sum HandshakeFailed id (newHandshake (loginLib P) (AuthPublicKey (loginAuth data)) key salt), st')))"

text \<open>The rest of \<^verbatim>\<open>handleLogin\<close> once the login data is accepted.\<close>

definition acceptLogin :: "proto \<Rightarrow> env \<Rightarrow> addr \<Rightarrow> loginData \<Rightarrow> action" where
  "acceptLogin P env a data st0 =
     (let st1 = setClient a (\<lambda>cl. cl\<lparr>login := data\<rparr>) st0 in
      case serverHandshake P env data st1 of
        (Inl e, st) \<Rightarrow> (Some e, st)
      | (Inr (jwt, key), st) \<Rightarrow>
          sequence
            [WritePacket a (ServerToClientHandshake jwt),
             update (logConn a (EncryptionOn key)),
             setState a stateAwaitClientHandshake] st)"

definition handleLogin :: "proto \<Rightarrow> env \<Rightarrow> addr \<Rightarrow> int \<Rightarrow> bytes \<Rightarrow> action" where
  "handleLogin P env a protocol request = reading (\<lambda>st.
     if protocol \<noteq> i32 (CurrentProtocol P) then
       sequence [ignoreError (WritePacket a (PlayStatus LoginFailedClient)), fail (LoginProtocolVersion protocol)]
     else case parseLoginPacket P (Some request) of
       None \<Rightarrow> fail LoginParse
     | Some data \<Rightarrow>
         if onlineMode (cfg st) \<and> \<not> XBOXLiveAuthenticated (loginAuth data)
         then sequence [ignoreError (WritePacket a (Disconnect ''Xbox Live authentication is required.'')), fail NotAuthenticated]
         else acceptLogin P env a data)"

definition sendResourcePackInfo :: "proto \<Rightarrow> addr \<Rightarrow> action" where
  "sendResourcePackInfo P a = reading (\<lambda>st.
     WritePacket a (ResourcePacksInfoPacket (QueueInfo (uuidString (loginLib P)) (protoPackTypes P)
       (texturePacksRequired (cfg st)) (resourceDownloads (clients st a)))))"

definition handleClientToServerHandshake :: "proto \<Rightarrow> addr \<Rightarrow> action" where
  "handleClientToServerHandshake P a = sequence
     [setState a stateAwaitResourcePackResponse,
      WritePacket a (PlayStatus LoginSuccess),
      sendResourcePackInfo P a]"

definition handleClientCacheStatus :: "addr \<Rightarrow> bool \<Rightarrow> action" where
  "handleClientCacheStatus a enabled = update (setClient a (\<lambda>cl. cl\<lparr>clientCacheEnabled := enabled\<rparr>))"

section \<open>Starting the game\<close>

definition startGamePacket :: "proto \<Rightarrow> env \<Rightarrow> handler_config \<Rightarrow> MCPEClient \<Rightarrow> server_packet" where
  "startGamePacket P env hc cl =
     StartGame \<lparr>sgEntityUniqueID = runtimeID cl, sgEntityRuntimeID = runtimeID cl, sgGameMode = gameModeID P (gameMode hc),
       sgPosition = fvecOf (provSpawn (world hc)), sgDimension = ID (provDimension (world hc)),
       sgSpawnBlock = provSpawnBlock (world hc), sgServerChunkTickRadius = i32 (viewDistance hc),
       sgBaseGameVersion = CurrentVersion P, sgLevelName = serverName hc, sgCorrelationID = envUUID env\<rparr>"

definition startGame :: "proto \<Rightarrow> env \<Rightarrow> addr \<Rightarrow> action" where
  "startGame P env a st0 =
     (let (n, st1) = nextRuntimeID st0;
          st2 = setClient a (\<lambda>cl. cl\<lparr>runtimeID := n\<rparr>) st1
      in andThen (initPlayerState P a)
        (\<lambda>st3. let (existing, st4) = addPlayer a st3 in
           sequence
             [WritePacket a JigsawStructureData,
              WritePacket a VoxelShapes,
              reading (\<lambda>st. WritePacket a (startGamePacket P env (cfg st) (clients st a))),
              WritePacket a ItemRegistry,
              sendAvailableCommands P a,
              sendInitialPlayerSync P a existing,
              setState a stateAwaitChunkRadius] st4) st2)"

section \<open>Resource packs\<close>

definition sendResourcePackStack :: "proto \<Rightarrow> addr \<Rightarrow> action" where
  "sendResourcePackStack P a = reading (\<lambda>st.
     if resourcePackStackSent (clients st a) then ok
     else sequence
       [update (setClient a (\<lambda>cl. cl\<lparr>resourcePackStackSent := True\<rparr>)),
        WritePacket a (ResourcePackStackPacket (QueueStack (uuidString (loginLib P)) (texturePacksRequired (cfg st))
          (CurrentVersion P) (resourceDownloads (clients st a))))])"

definition finishResourcePackFlow :: "proto \<Rightarrow> env \<Rightarrow> addr \<Rightarrow> action" where
  "finishResourcePackFlow P env a = reading (\<lambda>st.
     if state (clients st a) \<noteq> stateAwaitResourcePackResponse then ok
     else sequence
       [(if resourcePacks (cfg st) \<noteq> [] \<and> \<not> resourcePackStackSent (clients st a) then sendResourcePackStack P a else ok),
        startGame P env a])"

text \<open>Storing the queue a download operation leaves, and sending its packets.\<close>

definition packAnswer :: "addr \<Rightarrow> (pack_error \<Rightarrow> server_error) \<Rightarrow> (pack_error + pack_packet list) \<times> Queue \<Rightarrow> action" where
  "packAnswer a wrap = (\<lambda>(r, queue). andThen
     (update (setClient a (\<lambda>cl. cl\<lparr>resourceDownloads := queue\<rparr>)))
     (case r of Inl e \<Rightarrow> fail (wrap e) | Inr pks \<Rightarrow> writeClientPackets a (map PackDownload pks)))"

definition handleResourcePackClientResponse :: "proto \<Rightarrow> env \<Rightarrow> addr \<Rightarrow> pack_response \<Rightarrow> string list \<Rightarrow> action" where
  "handleResourcePackClientResponse P env a response packs =
     (case response of
        PackResponseSendPacks \<Rightarrow>
          if packs = [] then sendResourcePackStack P a
          else reading (\<lambda>st. packAnswer a PackSelection
            (Begin (uuidString (loginLib P)) (sha256 (loginLib P)) packs (resourceDownloads (clients st a))))
      | PackResponseAllPacksDownloaded \<Rightarrow> sendResourcePackStack P a
      | PackResponseCompleted \<Rightarrow> finishResourcePackFlow P env a
      | PackResponseRefused \<Rightarrow> fail PacksRefused
      | OtherPackResponse n \<Rightarrow> fail UnknownPackResponse)"

definition handleResourcePacksReadyForValidation :: "proto \<Rightarrow> env \<Rightarrow> addr \<Rightarrow> action" where
  "handleResourcePacksReadyForValidation P env a = reading (\<lambda>st.
     if \<not> resourcePackStackSent (clients st a) then ok else finishResourcePackFlow P env a)"

definition handleResourcePackChunkRequest :: "proto \<Rightarrow> addr \<Rightarrow> string \<Rightarrow> u32 \<Rightarrow> action" where
  "handleResourcePackChunkRequest P a u k = reading (\<lambda>st. packAnswer a PackChunkRequest
     (HandleChunkRequest (uuidString (loginLib P)) (sha256 (loginLib P)) (u, k) (resourceDownloads (clients st a))))"

section \<open>The router\<close>

definition dispatch :: "proto \<Rightarrow> env \<Rightarrow> addr \<Rightarrow> client_packet \<Rightarrow> action" where
  "dispatch P env a pk =
     (case pk of
        RequestNetworkSettings protocol \<Rightarrow> handleRequestNetworkSettings P a protocol
      | Login protocol request \<Rightarrow> handleLogin P env a protocol request
      | ClientToServerHandshake \<Rightarrow> handleClientToServerHandshake P a
      | ResourcePackClientResponse response packs \<Rightarrow> handleResourcePackClientResponse P env a response packs
      | ResourcePackChunkRequest u k \<Rightarrow> handleResourcePackChunkRequest P a u k
      | ResourcePacksReadyForValidation \<Rightarrow> handleResourcePacksReadyForValidation P env a
      | ClientCacheStatus enabled \<Rightarrow> handleClientCacheStatus a enabled
      | RequestChunkRadius radius \<Rightarrow> handleRequestChunkRadius P env a radius
      | SubChunkRequestPacket request \<Rightarrow> handleSubChunkRequest P env a request
      | SetLocalPlayerAsInitialised n \<Rightarrow> handleSetLocalPlayerAsInitialised P a n
      | ServerBoundLoadingScreen ty n \<Rightarrow> handleServerBoundLoadingScreen a ty n
      | Interact p \<Rightarrow> handleInteract P a p
      | ContainerClose w ty \<Rightarrow> handleContainerClose a w
      | MobEquipment p \<Rightarrow> handleMobEquipment a p
      | ItemStackRequestPacket requests \<Rightarrow> handleItemStackRequest P a requests
      | PlayerAuthInput p \<Rightarrow> handlePlayerAuthInput P a p
      | MovePlayer p \<Rightarrow> handleMovePlayer a p
      | ClientText p \<Rightarrow> handleText P a p
      | CommandRequest origin line \<Rightarrow> handleCommandRequest P a origin line
      | OtherPacket n \<Rightarrow> fail UnhandledPacket)"

definition HandlePacket :: "proto \<Rightarrow> env \<Rightarrow> addr \<Rightarrow> client_packet \<Rightarrow> action" where
  "HandlePacket P env a pk st =
     (if state (clients st a) = stateDisconnected then (None, st)
      else case dispatch P env a pk st of
        (Some UnhandledPacket, st') \<Rightarrow> (None, st')
      | r \<Rightarrow> r)"

end
