(* ===== verification/Frames.thy ===== *)
theory Frames
  imports Session
begin

text \<open>
  What the session code leaves alone, and when it succeeds. A class of actions that contains the
  writes to connections and is closed under sequencing contains every action that only sends: the
  contract \<open>sending\<close>, extended by \<open>sending_or_failing\<close> for actions that may also fail by themselves. A
  relation between states that is reflexive, transitive and respected by a write (\<open>framed\<close>) gives such
  a class. The contracts are interpreted for \<open>only_logs\<close> (nothing but connection logs changes), for
  \<open>quiet\<close> (identities, logins and the player table stay, logs only grow) and for success on
  connections that do not fail; the handlers that neither log in nor start a game are shown quiet.
\<close>

locale sending =
  fixes C :: "action \<Rightarrow> bool"
  assumes ok: "C ok"
    and andThen: "C f \<Longrightarrow> C g \<Longrightarrow> C (andThen f g)"
    and reading: "(\<And>st. C (h st)) \<Longrightarrow> C (reading h)"
    and ignoreError: "C f \<Longrightarrow> C (ignoreError f)"
    and writing: "ev \<noteq> CompressionOn \<Longrightarrow> C (writeEvent a ev)"
begin

lemmas combinators [intro!] = ok andThen reading ignoreError

lemma sequence [intro!]: "(\<And>f. f \<in> set fs \<Longrightarrow> C f) \<Longrightarrow> C (sequence fs)"
  unfolding sequence_def by (induction fs) auto

lemma writes [intro!]: "C (WritePacket a pk)" "C (WritePacketUncompressed a pk)"
  by (simp_all add: WritePacket_def WritePacketUncompressed_def writing)

lemma sends [intro!]:
  "C (writePacketToClients as pk)" "C (writeClientPackets a pks)"
  "C (broadcastToSpawnedPeers a pk)" "C (broadcastText t)" "C (broadcastSystemText m)"
  unfolding writePacketToClients_def writeClientPackets_def broadcastToSpawnedPeers_def broadcastText_def broadcastSystemText_def
  by auto

lemma inventory_sends [intro!]:
  "C (resendHeldSlot a)" "C (broadcastHeldEquipment a)"
  "C (sendWindow a w)" "C (sendInitialInventory a)" "C (resyncInventory a)"
  unfolding resendHeldSlot_def broadcastHeldEquipment_def sendWindow_def sendInitialInventory_def resyncInventory_def
  by auto

lemma player_sends [intro!]:
  "C (writePlayerSpawn P to who)" "C (spawnToInitialisedPlayers P a)"
  "C (sendInitialPlayerSync P a existing)" "C (sendAvailableCommands P a)" "C (sendRawText a m)"
  unfolding writePlayerSpawn_def spawnToInitialisedPlayers_def sendInitialPlayerSync_def sendAvailableCommands_def sendRawText_def
  by (auto simp: Let_def)

lemma answers [intro!]:
  "C (writeCommandOutput a origin res)" "C (sendResourcePackInfo P a)" "C (SendBlockRuntimeID a bpos b l)"
  unfolding writeCommandOutput_def sendResourcePackInfo_def SendBlockRuntimeID_def by auto

end

locale sending_or_failing = sending +
  assumes failing: "C (fail e)"
begin

lemma slot_sends [intro!]: "C (sendInventorySlot a ref)"
  unfolding sendInventorySlot_def by (auto simp: failing split: sum.split)

lemma world_sends [intro!]:
  "C (sendChunk P ctx source a pos)" "C (SendInitial P pctx publisher a)" "C (SendSubChunks P pctx publisher a request)"
  unfolding sendChunk_def SendInitial_def SendSubChunks_def Flush_def
  by (auto simp: Let_def failing split: option.split sum.split)

end

definition frames :: "(mcpe \<Rightarrow> mcpe \<Rightarrow> bool) \<Rightarrow> action \<Rightarrow> bool" where
  "frames R act \<longleftrightarrow> (\<forall>st. R st (snd (act st)))"

locale framed =
  fixes R :: "mcpe \<Rightarrow> mcpe \<Rightarrow> bool"
  assumes refl: "R st st"
    and trans: "R st1 st2 \<Longrightarrow> R st2 st3 \<Longrightarrow> R st1 st3"
    and write_event: "ev \<noteq> CompressionOn \<Longrightarrow> R st (snd (writeEvent a ev st))"
begin

lemma frames_andThen: "frames R f \<Longrightarrow> frames R g \<Longrightarrow> frames R (andThen f g)"
  unfolding frames_def andThen_def
  by (auto split: prod.splits option.splits) (metis snd_conv trans)+

lemma frames_update [intro!]: "(\<And>st. R st (f st)) \<Longrightarrow> frames R (update f)"
  by (simp add: frames_def update_def)

lemma frames_fail [intro!]: "frames R (fail e)"
  by (simp add: frames_def fail_def refl)

end

sublocale framed \<subseteq> sending_or_failing "frames R"
proof
  show "frames R (andThen f g)" if "frames R f" "frames R g" for f g
    using that by (rule frames_andThen)
qed (auto simp: frames_def ok_def fail_def reading_def ignoreError_def refl write_event)

section \<open>Only logs\<close>

text \<open>Two connections agree up to what has been written to them.\<close>

definition grown :: "MCPEClient \<Rightarrow> MCPEClient \<Rightarrow> bool" where
  "grown c c' \<longleftrightarrow> c' = c\<lparr>conn := conn c'\<rparr> \<and> prefix (connLog (conn c)) (connLog (conn c')) \<and>
     connFails (conn c') = connFails (conn c)"

definition only_logs :: "mcpe \<Rightarrow> mcpe \<Rightarrow> bool" where
  "only_logs st st' \<longleftrightarrow> handler st' = handler st \<and> (\<forall>b. grown (clients st b) (clients st' b))"

lemma grown_refl: "grown c c"
  by (simp add: grown_def)

lemma grown_trans:
  assumes "grown c1 c2" and "grown c2 c3"
  shows "grown c1 c3"
proof -
  have "c3 = c1\<lparr>conn := conn c3\<rparr>"
    using assms unfolding grown_def by (metis MCPEClient.update_convs(1) MCPEClient.surjective)
  moreover have "prefix (connLog (conn c1)) (connLog (conn c3))"
    using assms unfolding grown_def by (meson prefix_order.trans)
  moreover have "connFails (conn c3) = connFails (conn c1)" using assms unfolding grown_def by metis
  ultimately show ?thesis unfolding grown_def by (intro conjI)
qed

lemma writeEvent_grown: "only_logs st (snd (writeEvent a ev st))"
  by (auto simp: only_logs_def grown_def writeEvent_def writeConn_def setClient_def Let_def)

interpretation logs: framed only_logs
proof
  show "only_logs st st" for st by (simp add: only_logs_def grown_refl)
  show "only_logs st1 st3" if "only_logs st1 st2" "only_logs st2 st3" for st1 st2 st3
    using that unfolding only_logs_def by (metis grown_trans)
qed (rule writeEvent_grown)

section \<open>Quiet actions\<close>

text \<open>Compression is only switched on after a packet was sent uncompressed.\<close>

fun announced :: "conn_event list \<Rightarrow> bool" where
  "announced [] = True"
| "announced (SentUncompressed pk # evs) = True"
| "announced (CompressionOn # evs) = False"
| "announced (ev # evs) = announced evs"

lemma announced_append [simp]:
  "announced (evs @ [ev]) \<longleftrightarrow> announced evs \<and> (ev = CompressionOn \<longrightarrow> (\<exists>pk. SentUncompressed pk \<in> set evs))"
  by (induction evs rule: announced.induct) (cases ev; auto)+

lemma announced_settings [simp]: "announced evs \<Longrightarrow> announced (evs @ [SentUncompressed pk, CompressionOn])"
  using announced_append [of "evs @ [SentUncompressed pk]" CompressionOn] by auto

definition same_identity :: "MCPEClient \<Rightarrow> MCPEClient \<Rightarrow> bool" where
  "same_identity c c' \<longleftrightarrow> runtimeID c' = runtimeID c \<and> login c' = login c \<and> playerUUID (player c') = playerUUID (player c) \<and>
     prefix (connLog (conn c)) (connLog (conn c')) \<and> (announced (connLog (conn c)) \<longrightarrow> announced (connLog (conn c')))"

text \<open>The callbacks that tell of changes of the player table.\<close>

definition tableEvents :: "handler_event list \<Rightarrow> handler_event list" where
  "tableEvents = filter (\<lambda>ev. ev \<noteq> ShutdownCalled)"

definition quiet :: "mcpe \<Rightarrow> mcpe \<Rightarrow> bool" where
  "quiet st st' \<longleftrightarrow> prefix (callbacks (handler st)) (callbacks (handler st')) \<and>
     tableEvents (callbacks (handler st')) = tableEvents (callbacks (handler st)) \<and> config (handler st') = config (handler st) \<and> players (handler st') = players (handler st) \<and>
     nextID (handler st') = nextID (handler st) \<and> (\<forall>b. same_identity (clients st b) (clients st' b))"

interpretation quiet: framed quiet
proof
  show "quiet st st" for st by (simp add: quiet_def same_identity_def)
  show "quiet st1 st3" if "quiet st1 st2" "quiet st2 st3" for st1 st2 st3
    using that unfolding quiet_def same_identity_def by (metis prefix_order.trans)
  show "quiet st (snd (writeEvent a ev st))" if "ev \<noteq> CompressionOn" for st a ev
    using that by (auto simp: quiet_def same_identity_def writeEvent_def writeConn_def setClient_def Let_def)
qed


lemma quiet_setClient: "(\<And>c. same_identity c (f c)) \<Longrightarrow> quiet st (setClient a f st)"
  by (simp add: quiet_def setClient_def same_identity_def)

lemma quiet_setPlayer: "(\<And>p. playerUUID (f p) = playerUUID p) \<Longrightarrow> quiet st (setPlayer a f st)"
  unfolding setPlayer_def by (intro quiet_setClient) (simp add: same_identity_def)

lemma quiet_handler:
  "(\<And>h. config (f h) = config h \<and> players (f h) = players h \<and> nextID (f h) = nextID h \<and>
     prefix (callbacks h) (callbacks (f h)) \<and> tableEvents (callbacks (f h)) = tableEvents (callbacks h)) \<Longrightarrow> quiet st (setHandler f st)"
  by (simp add: quiet_def setHandler_def same_identity_def)

lemma quiet_fields [intro!]:
  "frames quiet (setState a s)" "frames quiet (setLoading a g)"
  "ev \<noteq> CompressionOn \<Longrightarrow> frames quiet (update (logConn a ev))"
  unfolding setState_def setLoading_def logConn_def
  by (auto intro!: quiet_setClient simp: same_identity_def)

lemma quiet_inventory [intro!]:
  "frames quiet (processItemStackRequests P a requests)" "frames quiet (handleItemStackRequest P a requests)"
  "frames quiet (handleMobEquipment a eq)"
  unfolding processItemStackRequests_def handleItemStackRequest_def handleMobEquipment_def
  by (auto simp: Let_def same_identity_def split: prod.split intro!: quiet_setClient)

lemma quiet_movement [intro!]:
  "frames quiet (applyAuthInput P a ai)" "frames quiet (handlePlayerAuthInput P a ai)" "frames quiet (handleMovePlayer a mv)"
  unfolding applyAuthInput_def handlePlayerAuthInput_def handleMovePlayer_def
  by (auto simp: Let_def split: prod.split intro!: quiet_setPlayer)

lemma quiet_interaction [intro!]:
  "frames quiet (handleInteract P a ia)" "frames quiet (handleContainerClose a w)"
  unfolding handleInteract_def handleMouseOverEntity_def handleOpenInventory_def handleLeaveVehicle_def handleContainerClose_def
  by (auto simp: Let_def same_identity_def split: option.split interact_action.split intro!: quiet_setPlayer quiet_setClient)

lemma quiet_world [intro!]:
  "frames quiet (handleRequestChunkRadius P env a n)" "frames quiet (handleSubChunkRequest P env a req)"
  "frames quiet (handleServerBoundLoadingScreen a ty sid)" "frames quiet (handleSetLocalPlayerAsInitialised P a m)"
  "frames quiet (handleClientCacheStatus a b)"
  unfolding handleRequestChunkRadius_def handleSubChunkRequest_def handleServerBoundLoadingScreen_def
    handleSetLocalPlayerAsInitialised_def handleClientCacheStatus_def
  by (auto simp: Let_def same_identity_def split: loading_type.split option.split intro!: quiet_setClient)

lemma quiet_packs [intro!]:
  "frames quiet (sendResourcePackStack P a)" "frames quiet (packAnswer a wrap rq)"
  "frames quiet (handleResourcePackChunkRequest P a u k)"
  "frames quiet (handleClientToServerHandshake P a)"
  unfolding sendResourcePackStack_def packAnswer_def handleResourcePackChunkRequest_def handleClientToServerHandshake_def
  by (auto simp: same_identity_def split: prod.split sum.split intro!: quiet_setClient)

text \<open>Compression is switched on right after the network settings were sent uncompressed.\<close>

lemma quiet_network_settings [intro!]: "frames quiet (handleRequestNetworkSettings P a n)"
proof -
  have "frames quiet (sequence [WritePacketUncompressed a pk, update (logConn a CompressionOn), setState a s])" for pk s
    by (auto simp: frames_def sequence_def andThen_def ok_def WritePacketUncompressed_def writeEvent_def writeConn_def update_def
        logConn_def setState_def setClient_def Let_def quiet_def same_identity_def)
  then show ?thesis unfolding handleRequestNetworkSettings_def by auto
qed


section \<open>Commands\<close>

lemma Dispatch_runs:
  assumes "Dispatch ul reg sender line st = Some (r, st')"
  shows "st' = st \<or> (\<exists>label cmd run ivk. Lookup ul reg label = Some cmd \<and> senderHasPermission sender st (cmdPermission cmd) \<and>
     cmdRun cmd = Some run \<and> st' = snd (run sender ivk st))"
proof (cases "ParseLine ul line")
  case (Inl e)
  with assms show ?thesis by (simp add: Dispatch_def)
next
  case (Inr p)
  obtain label args raw where p: "p = (label, args, raw)" by (cases p)
  show ?thesis
  proof (cases "label = [] \<or> Lookup ul reg label = None")
    case True
    then show ?thesis using assms Inr p by (auto simp: Dispatch_def split: if_splits)
  next
    case False
    then obtain cmd where cmd: "Lookup ul reg label = Some cmd" "label \<noteq> []" by auto
    show ?thesis
    proof (cases "senderHasPermission sender st (cmdPermission cmd)")
      case True
      then obtain run where run: "cmdRun cmd = Some run" using assms Inr p cmd by (auto simp: Dispatch_def split: option.splits)
      then have "st' = snd (run sender \<lparr>invLabel = label, invArgs = args, invRawArgs = raw\<rparr> st)"
        using assms Inr p cmd True by (auto simp: Dispatch_def Let_def split: prod.splits)
      then show ?thesis using cmd(1) True run by blast
    next
      case False
      then show ?thesis using assms Inr p cmd by (auto simp: Dispatch_def)
    qed
  qed
qed

lemma quiet_setOperator: "quiet st (setOperator u v st)"
  unfolding setOperator_def by (rule quiet_handler) simp

lemma quiet_executors: "quiet st (snd (executors P name sender ivk st))"
proof -
  have b: "quiet st (snd (broadcastText t st))" "quiet st (snd (broadcastSystemText m st))" for t m
    using quiet.sends(4,5) by (simp_all add: frames_def)
  have say: "quiet st (snd (runSay P sender ivk st))"
    using b(1) by (auto simp: runSay_def Let_def quiet.refl split: prod.split option.split) (metis snd_conv)+
  have stop: "quiet st (snd (runStop sender ivk st))"
  proof -
    have "quiet s (setHandler (\<lambda>h. h\<lparr>callbacks := callbacks h @ [ShutdownCalled]\<rparr>) s)" for s
      by (rule quiet_handler) (simp add: tableEvents_def)
    then show ?thesis
      using b(2) [of "''Server is stopping.''"] quiet.trans by (simp add: runStop_def Let_def)
  qed
  have op: "quiet st (snd (runSetOperator P v sender ivk st))" for v
  proof -
    have "quiet s (snd (sendAvailableCommands P t s))" "quiet s (snd (sendRawText t m s))" for s t m
      using quiet.player_sends(4,5) by (simp_all add: frames_def)
    then have "quiet st (snd (sendRawText t m (snd (sendAvailableCommands P t (setOperator u w st)))))" for t m u w
      using quiet.trans quiet_setOperator by metis
    then show ?thesis
      by (auto simp: runSetOperator_def Let_def quiet.refl split: option.split)
  qed
  show ?thesis
    using say stop op by (simp add: executors_def runHelp_def runList_def Let_def quiet.refl)
qed

lemma quiet_dispatch:
  assumes "Dispatch ul (builtinRegistry P (executors P)) sender line st = Some (r, st')"
  shows "quiet st st'"
  using Dispatch_runs [OF assms]
proof (elim disjE exE conjE)
  fix label cmd run ivk
  assume l: "Lookup ul (builtinRegistry P (executors P)) label = Some cmd"
    and r: "cmdRun cmd = Some run" "st' = snd (run sender ivk st)"
  from builtin_run [OF builtin_lookup [OF l]] r have "st' = snd (executors P (cmdName cmd) sender ivk st)" by simp
  then show ?thesis by (simp add: quiet_executors)
qed (simp add: quiet.refl)

lemma quiet_chat [intro!]: "frames quiet (handleText P a tp)" "frames quiet (handleCommandRequest P a origin line)"
proof -
  have d: "frames quiet (dispatchLine P sender l k)" if "\<And>r. frames quiet (k r)" for sender l k
    unfolding frames_def
  proof
    fix st
    show "quiet st (snd (dispatchLine P sender l k st))"
    proof (cases "Dispatch (unicodeLower P) (builtinRegistry P (executors P)) sender l st")
      case None
      then show ?thesis by (simp add: dispatchLine_def newDefaultCommands_builtin quiet.refl)
    next
      case (Some p)
      obtain r st1 where p: "p = (r, st1)" by (cases p)
      have "quiet st st1" using quiet_dispatch Some p by blast
      moreover have "quiet st1 (snd (k r st1))" using that by (simp add: frames_def)
      ultimately show ?thesis using Some p by (auto simp: dispatchLine_def newDefaultCommands_builtin intro: quiet.trans)
    qed
  qed
  show "frames quiet (handleText P a tp)"
    unfolding handleText_def by (auto simp: Let_def intro!: d)
  show "frames quiet (handleCommandRequest P a origin line)"
    unfolding handleCommandRequest_def by (auto split: command_origin.split intro!: d)
qed

section \<open>Success on reliable connections\<close>

definition reliable :: "mcpe \<Rightarrow> bool" where
  "reliable st \<longleftrightarrow> (\<forall>a n. \<not> connFails (conn (clients st a)) n)"

text \<open>The action succeeds and changes nothing but logs, unless a connection fails.\<close>

definition delivers :: "action \<Rightarrow> bool" where
  "delivers act \<longleftrightarrow> (\<forall>st. reliable st \<longrightarrow> fst (act st) = None \<and> only_logs st (snd (act st)))"

lemma only_logs_reliable: "only_logs st st' \<Longrightarrow> reliable st' \<longleftrightarrow> reliable st"
  by (simp add: only_logs_def grown_def reliable_def)

interpretation delivers: sending delivers
proof
  show "delivers (andThen f g)" if df: "delivers f" and dg: "delivers g" for f g
    unfolding delivers_def
  proof (intro allI impI)
    fix st assume st: "reliable st"
    obtain st1 where f: "f st = (None, st1)" "only_logs st st1"
      using df st unfolding delivers_def by (metis prod.collapse)
    then show "fst (andThen f g st) = None \<and> only_logs st (snd (andThen f g st))"
      using dg st logs.trans only_logs_reliable unfolding delivers_def andThen_def by auto
  qed
  show "delivers (writeEvent a ev)" for a ev
    using writeEvent_grown [of _ a ev]
    by (simp add: delivers_def) (simp add: reliable_def writeEvent_def writeConn_def Let_def)
qed (auto simp: delivers_def ok_def reading_def ignoreError_def logs.refl)

lemma delivers_logConn [intro!]: "delivers (update (logConn a ev))"
  by (simp add: delivers_def update_def logConn_def only_logs_def setClient_def grown_def)

lemma deliversD: "delivers act \<Longrightarrow> reliable st \<Longrightarrow> \<exists>st'. act st = (None, st') \<and> only_logs st st'"
  unfolding delivers_def by (metis prod.collapse)

end
