(* ===== verification/Reachable.thy ===== *)
theory Reachable
  imports Frames
begin

text \<open>
  The server over time: a step relation whose steps are the arrival of a connection, the handling
  of one packet, the end of a session (by an error of its handler or by a disconnect, both followed
  by \<^verbatim>\<open>OnDisconnect\<close> as in \<^verbatim>\<open>session.Serve\<close>) and a console command; and the invariant of the reachable
  states. Clients may send any packet at any time, and connections may fail at any write.
\<close>

section \<open>Steps\<close>

datatype conn_status = Idle | Open | Closed

type_synonym server = "mcpe \<times> (addr \<Rightarrow> conn_status)"

inductive step :: "proto \<Rightarrow> server \<Rightarrow> server \<Rightarrow> bool" for P where
  connect: "cs a = Idle \<Longrightarrow> connLog c = [] \<Longrightarrow>
    step P (st, cs) (setClient a (\<lambda>cl. NewMCPEClient (handler st) c) st, cs(a := Open))"
| handled: "cs a = Open \<Longrightarrow> HandlePacket P env a pk st = (None, st') \<Longrightarrow> step P (st, cs) (st', cs)"
| failed: "cs a = Open \<Longrightarrow> HandlePacket P env a pk st = (Some e, st') \<Longrightarrow>
    step P (st, cs) (OnDisconnect a st', cs(a := Closed))"
| disconnected: "cs a = Open \<Longrightarrow> step P (st, cs) (OnDisconnect a st, cs(a := Closed))"
| console: "ExecuteConsoleCommand P line st = Some (r, st') \<Longrightarrow> step P (st, cs) (st', cs)"

inductive_cases step_cases [consumes 1, case_names connect handled failed disconnected console]: "step P (st, cs) s'"

definition initialServer :: "handler_config \<Rightarrow> PrivateKey option \<Rightarrow> server" where
  "initialServer hc key =
     (let h = \<lparr>config = hc, privateKey = key, players = [], nextID = 0, operators = [], callbacks = []\<rparr> in
      (\<lparr>handler = h, clients = (\<lambda>a. NewMCPEClient h goodConn)\<rparr>, \<lambda>a. Idle))"

text \<open>\<open>reach P hc key n s\<close>: state \<open>s\<close> is reached from the initial state in \<open>n\<close> steps.\<close>

inductive reach :: "proto \<Rightarrow> handler_config \<Rightarrow> PrivateKey option \<Rightarrow> nat \<Rightarrow> server \<Rightarrow> bool" for P hc key where
  start: "reach P hc key 0 (initialServer hc key)"
| next_step: "reach P hc key n s \<Longrightarrow> step P s s' \<Longrightarrow> reach P hc key (Suc n) s'"

section \<open>The invariant\<close>

definition accepted :: "proto \<Rightarrow> handler_config \<Rightarrow> loginData \<Rightarrow> bool" where
  "accepted P hc l \<longleftrightarrow> (\<exists>request. loginParse (loginLib P) request = Some l) \<and>
     (onlineMode hc \<longrightarrow> XBOXLiveAuthenticated (loginAuth l))"

definition identified :: "proto \<Rightarrow> handler_config \<Rightarrow> uuid \<Rightarrow> bool" where
  "identified P hc u \<longleftrightarrow> (\<exists>l. accepted P hc l \<and> uuidParse (loginLib P) (Identity (loginIdentity l)) = Some u)"

definition encrypted :: "MCPEClient \<Rightarrow> bool" where
  "encrypted c \<longleftrightarrow> (\<exists>key. EncryptionOn key \<in> set (connLog (conn c)))"

definition registered :: "mcpe \<Rightarrow> u64 \<Rightarrow> addr \<Rightarrow> bool" where
  "registered st n a \<longleftrightarrow> (n, a) \<in> set (players (handler st))"

definition ids_ok :: "mcpe \<Rightarrow> bool" where
  "ids_ok st \<longleftrightarrow> (\<forall>a. runtimeID (clients st a) \<le> nextID (handler st)) \<and>
     (\<forall>a b. a \<noteq> b \<longrightarrow> runtimeID (clients st a) \<noteq> 0 \<longrightarrow> runtimeID (clients st a) \<noteq> runtimeID (clients st b))"

definition logins_ok :: "proto \<Rightarrow> mcpe \<Rightarrow> (addr \<Rightarrow> conn_status) \<Rightarrow> bool" where
  "logins_ok P st cs \<longleftrightarrow> (\<forall>a. let c = clients st a in
     (login c = zeroLogin \<or> accepted P (cfg st) (login c)) \<and> (cs a = Open \<longrightarrow> login c \<noteq> zeroLogin \<longrightarrow> encrypted c))"

definition players_ok :: "proto \<Rightarrow> mcpe \<Rightarrow> (addr \<Rightarrow> conn_status) \<Rightarrow> bool" where
  "players_ok P st cs \<longleftrightarrow> wf_map (players (handler st)) \<and> (\<forall>n a. registered st n a \<longrightarrow>
     (let c = clients st a in n \<noteq> 0 \<and> n \<le> runtimeID c \<and> cs a \<noteq> Idle \<and> accepted P (cfg st) (login c) \<and>
        identified P (cfg st) (playerUUID (player c)) \<and> encrypted c))"

text \<open>Every connection log announces compression.\<close>

definition logs_ok :: "mcpe \<Rightarrow> bool" where
  "logs_ok st \<longleftrightarrow> (\<forall>a. announced (connLog (conn (clients st a))))"

text \<open>The player table has as many entries as players have joined and not left.\<close>

definition joins :: "handler_event list \<Rightarrow> nat" where
  "joins evs = length (filter (\<lambda>ev. case ev of PlayerJoined a n \<Rightarrow> True | _ \<Rightarrow> False) evs)"

definition leaves :: "handler_event list \<Rightarrow> nat" where
  "leaves evs = length (filter (\<lambda>ev. case ev of PlayerLeft a n \<Rightarrow> True | _ \<Rightarrow> False) evs)"

definition balanced :: "mcpe \<Rightarrow> bool" where
  "balanced st \<longleftrightarrow> length (players (handler st)) + leaves (callbacks (handler st)) = joins (callbacks (handler st))"

lemma joins_append [simp]: "joins (xs @ ys) = joins xs + joins ys" "leaves (xs @ ys) = leaves xs + leaves ys"
  by (simp_all add: joins_def leaves_def)

lemma tableEvents_counts: "tableEvents evs = tableEvents evs' \<Longrightarrow> joins evs = joins evs' \<and> leaves evs = leaves evs'"
proof -
  have "joins evs = joins (tableEvents evs)" "leaves evs = leaves (tableEvents evs)" for evs
    unfolding joins_def leaves_def tableEvents_def filter_filter
    by (rule arg_cong [where f = length], rule filter_cong; auto split: handler_event.splits)+
  then show "tableEvents evs = tableEvents evs' \<Longrightarrow> joins evs = joins evs' \<and> leaves evs = leaves evs'" by metis
qed

definition server_ok :: "proto \<Rightarrow> handler_config \<Rightarrow> server \<Rightarrow> bool" where
  "server_ok P hc = (\<lambda>(st, cs). cfg st = hc \<and> ids_ok st \<and> logins_ok P st cs \<and> players_ok P st cs \<and> logs_ok st \<and> balanced st)"

lemma encrypted_mono: "prefix (connLog (conn c)) (connLog (conn c')) \<Longrightarrow> encrypted c \<Longrightarrow> encrypted c'"
  unfolding encrypted_def by (meson set_mono_prefix subsetD)

lemma quiet_simps:
  assumes "quiet st st'"
  shows "cfg st' = cfg st" "players (handler st') = players (handler st)" "nextID (handler st') = nextID (handler st)"
    "runtimeID (clients st' a) = runtimeID (clients st a)" "login (clients st' a) = login (clients st a)"
    "playerUUID (player (clients st' a)) = playerUUID (player (clients st a))"
    "encrypted (clients st a) \<Longrightarrow> encrypted (clients st' a)"
    "joins (callbacks (handler st')) = joins (callbacks (handler st))" "leaves (callbacks (handler st')) = leaves (callbacks (handler st))"
    "logs_ok st \<Longrightarrow> logs_ok st'"
  using assms tableEvents_counts [of "callbacks (handler st')" "callbacks (handler st)"]
  by (auto simp: quiet_def same_identity_def logs_ok_def intro: encrypted_mono)

text \<open>Quiet steps keep the invariant, whatever sessions they close.\<close>

lemma quiet_server_ok:
  assumes "server_ok P hc (st, cs)" and "quiet st st'"
  shows "server_ok P hc (st', cs)"
  using assms(1) quiet_simps [OF assms(2)]
  unfolding server_ok_def ids_ok_def logins_ok_def players_ok_def registered_def balanced_def Let_def by auto

lemma close_server_ok: "server_ok P hc (st, cs) \<Longrightarrow> server_ok P hc (st, cs(a := Closed))"
  by (auto simp: server_ok_def logins_ok_def players_ok_def Let_def)

text \<open>Setting accepted login data keeps it, provided the session is encrypted or closes.\<close>

lemma login_server_ok:
  assumes "server_ok P hc (st, cs)" and "accepted P hc data" and "cs a = Open"
    and "quiet (setClient a (\<lambda>cl. cl\<lparr>login := data\<rparr>) st) st'" and "s \<noteq> Idle" and "s = Open \<longrightarrow> encrypted (clients st' a)"
  shows "server_ok P hc (st', cs(a := s))"
proof -
  let ?st = "setClient a (\<lambda>cl. cl\<lparr>login := data\<rparr>) st"
  note q = quiet_simps [OF assms(4)]
  have e: "encrypted (clients st b) \<Longrightarrow> encrypted (clients st' b)" for b
  proof -
    have "connLog (conn (clients ?st b)) = connLog (conn (clients st b))" by (simp add: setClient_def)
    then show "encrypted (clients st b) \<Longrightarrow> encrypted (clients st' b)" using q(7) [of b] by (simp add: encrypted_def)
  qed
  have "registered st' n b \<longleftrightarrow> registered st n b" for n b using q(2) by (simp add: registered_def setClient_def)
  then show ?thesis
    using assms(1-3,5,6) q e
    unfolding server_ok_def ids_ok_def logins_ok_def players_ok_def balanced_def Let_def by (auto simp: setClient_def logs_ok_def split: if_splits)
qed


section \<open>Logging in\<close>

lemma quietD: "frames quiet act \<Longrightarrow> act st = (r, st') \<Longrightarrow> quiet st st'"
  by (metis frames_def snd_conv)

lemma quiet_serverHandshake: "serverHandshake P env data st = (r, st') \<Longrightarrow> quiet st st'"
proof -
  have "quiet st (setHandler (\<lambda>h. h\<lparr>privateKey := k\<rparr>) st)" for k by (rule quiet_handler) simp
  then show "serverHandshake P env data st = (r, st') \<Longrightarrow> quiet st st'"
    by (auto simp: serverHandshake_def encryptionPrivateKey_def quiet.refl split: if_splits option.splits prod.splits)
qed

lemma andThen_None: "andThen f g st = (None, st') \<Longrightarrow> \<exists>st1. f st = (None, st1) \<and> g st1 = (None, st')"
  by (auto simp: andThen_def split: prod.splits option.splits)

lemma sequence_Cons [simp]: "sequence (f # fs) = andThen f (sequence fs)"
  by (simp add: sequence_def)

lemma sequence_Nil [simp]: "sequence [] = ok"
  by (simp add: sequence_def)

lemma acceptLogin_effect:
  assumes "acceptLogin P env a data st = (r, st')"
  shows "quiet (setClient a (\<lambda>cl. cl\<lparr>login := data\<rparr>) st) st'" and "r = None \<Longrightarrow> encrypted (clients st' a)"
    and "r \<noteq> Some UnhandledPacket"
proof -
  let ?st1 = "setClient a (\<lambda>cl. cl\<lparr>login := data\<rparr>) st"
  obtain h st2 where h: "serverHandshake P env data ?st1 = (h, st2)" by fastforce
  have q2: "quiet ?st1 st2" by (rule quiet_serverHandshake [OF h])
  let ?rest = "\<lambda>jwt key. sequence [WritePacket a (ServerToClientHandshake jwt), update (logConn a (EncryptionOn key)),
             setState a stateAwaitClientHandshake]"
  have f: "frames quiet (?rest jwt key)" for jwt key by (intro quiet.sequence) auto
  have "serverHandshake P env data ?st1 \<noteq> (Inl UnhandledPacket, st2)"
  proof -
    have "map_sum HandshakeFailed id x \<noteq> Inl UnhandledPacket" for x :: "handshake_error + bytes \<times> bytes" by (cases x) simp_all
    then show ?thesis by (auto simp: serverHandshake_def split: if_splits prod.splits option.splits)
  qed
  then show "r \<noteq> Some UnhandledPacket"
    using assms h by (auto simp: acceptLogin_def andThen_def ok_def update_def setState_def WritePacket_def writeEvent_def
        writeConn_def Let_def split: sum.splits prod.splits option.splits if_splits)
  show "quiet ?st1 st'"
    using assms h q2 quietD [OF f] by (auto simp: acceptLogin_def split: sum.splits prod.splits intro: quiet.trans)
  assume "r = None"
  then obtain jwt key where "h = Inr (jwt, key)" and "?rest jwt key st2 = (None, st')"
    using assms h by (auto simp: acceptLogin_def split: sum.splits prod.splits)
  then obtain st3 where "andThen (update (logConn a (EncryptionOn key))) (sequence [setState a stateAwaitClientHandshake]) st3 = (None, st')"
    using andThen_None by fastforce
  then show "encrypted (clients st' a)"
    by (auto simp: andThen_def update_def setState_def logConn_def setClient_def ok_def encrypted_def)
qed

lemma handleLogin_effect:
  assumes "handleLogin P env a n request st = (r, st')"
  shows "quiet st st' \<or> (\<exists>data. accepted P (cfg st) data \<and> quiet (setClient a (\<lambda>cl. cl\<lparr>login := data\<rparr>) st) st' \<and>
    r \<noteq> Some UnhandledPacket \<and> (r = None \<longrightarrow> encrypted (clients st' a)))"
proof -
  have rej: "frames quiet (sequence [ignoreError (WritePacket a pk), fail e])" for pk e by (intro quiet.sequence) auto
  consider (bad_protocol) "n \<noteq> i32 (CurrentProtocol P)"
    | (bad_parse) "n = i32 (CurrentProtocol P)" "loginParse (loginLib P) request = None"
    | (parsed) data where "n = i32 (CurrentProtocol P)" "loginParse (loginLib P) request = Some data" by (cases "loginParse (loginLib P) request") auto
  then show ?thesis
  proof cases
    case bad_protocol
    then show ?thesis using assms quietD [OF rej] by (simp add: handleLogin_def reading_def)
  next
    case bad_parse
    then show ?thesis using assms by (simp add: handleLogin_def reading_def parseLoginPacket_def parseConnectionRequest_def fail_def quiet.refl)
  next
    case parsed
    show ?thesis
    proof (cases "onlineMode (cfg st) \<and> \<not> XBOXLiveAuthenticated (loginAuth data)")
      case True
      then show ?thesis
        using assms parsed quietD [OF rej] by (simp add: handleLogin_def reading_def parseLoginPacket_def parseConnectionRequest_def)
    next
      case False
      then have "acceptLogin P env a data st = (r, st')" "accepted P (cfg st) data"
        using assms parsed by (auto simp: handleLogin_def reading_def parseLoginPacket_def parseConnectionRequest_def accepted_def)
      then show ?thesis using acceptLogin_effect [of P env a data st r st'] by auto
    qed
  qed
qed

section \<open>Starting the game\<close>

definition takeID :: "addr \<Rightarrow> mcpe \<Rightarrow> mcpe" where
  "takeID a st = setClient a (\<lambda>cl. cl\<lparr>runtimeID := nextID (handler st) + 1\<rparr>)
     (setHandler (\<lambda>h. h\<lparr>nextID := nextID h + 1\<rparr>) st)"

definition register :: "addr \<Rightarrow> mcpePlayerState \<Rightarrow> mcpe \<Rightarrow> mcpe" where
  "register a pl st = notify (PlayerJoined a)
     (setHandler (\<lambda>h. h\<lparr>players := AList.update (runtimeID (clients st a)) a (players h)\<rparr>)
       (setClient a (\<lambda>cl. cl\<lparr>player := pl\<rparr>) st))"

lemma initPlayerState_ok:
  assumes "uuidParse (loginLib P) (Identity (loginIdentity (login (clients st a)))) = Some u"
  shows "\<exists>pl. playerUUID pl = u \<and> initPlayerState P a st = (None, setClient a (\<lambda>cl. cl\<lparr>player := pl\<rparr>) st)"
  using assms
  by (intro exI [of _ "\<lparr>playerUUID = u,
        playerMotion = \<lparr>moPosition = fvecOf (provSpawn (world (cfg st))), moVelocity = (0, 0, 0), moPitch = 0, moYaw = 0, moHeadYaw = 0\<rparr>,
        playerOnGround = False, playerTarget = 0, playerMeta = playerMetadata P (DisplayName (loginIdentity (login (clients st a))))\<rparr>"])
    (simp add: initPlayerState_def reading_def update_def Let_def)

lemma startGame_effect:
  assumes "startGame P env a st = (r, st')"
  shows "(\<exists>e. r = Some e) \<and> quiet (takeID a st) st' \<or>
    (\<exists>pl. uuidParse (loginLib P) (Identity (loginIdentity (login (clients st a)))) = Some (playerUUID pl) \<and>
       quiet (register a pl (takeID a st)) st')"
proof -
  let ?n = "nextID (handler st) + 1"
  let ?st2 = "setClient a (\<lambda>cl. cl\<lparr>runtimeID := ?n\<rparr>) (setHandler (\<lambda>h. h\<lparr>nextID := ?n\<rparr>) st)"
  have t: "?st2 = takeID a st" by (simp add: takeID_def setClient_def setHandler_def)
  have l: "login (clients ?st2 a) = login (clients st a)" by (simp add: setClient_def setHandler_def)
  let ?rest = "\<lambda>existing. sequence
             [WritePacket a JigsawStructureData,
              WritePacket a VoxelShapes,
              reading (\<lambda>st. WritePacket a (startGamePacket P env (cfg st) (clients st a))),
              WritePacket a ItemRegistry,
              sendAvailableCommands P a,
              sendInitialPlayerSync P a existing,
              setState a stateAwaitChunkRadius]"
  have f: "frames quiet (?rest existing)" for existing by (intro quiet.sequence) auto
  show ?thesis
  proof (cases "uuidParse (loginLib P) (Identity (loginIdentity (login (clients st a))))")
    case None
    then have "r = Some (IdentityUUID (Identity (loginIdentity (login (clients st a)))))" "st' = ?st2"
      using assms l by (simp_all add: startGame_def nextRuntimeID_def Let_def initPlayerState_def reading_def andThen_def fail_def)
    then show ?thesis using t quiet.refl by simp
  next
    case (Some u)
    then obtain pl where pl: "playerUUID pl = u" and i: "initPlayerState P a ?st2 = (None, setClient a (\<lambda>cl. cl\<lparr>player := pl\<rparr>) ?st2)"
      using initPlayerState_ok [of P ?st2 a u] l by auto
    obtain existing st4 where p: "addPlayer a (setClient a (\<lambda>cl. cl\<lparr>player := pl\<rparr>) ?st2) = (existing, st4)" by fastforce
    have "?rest existing st4 = (r, st')"
      using assms i p by (simp add: startGame_def nextRuntimeID_def Let_def andThen_def)
    then have "quiet st4 st'" by (rule quietD [OF f])
    moreover have "quiet (register a pl ?st2) st4"
      using p by (auto simp: register_def notify_def addPlayer_def Let_def quiet_def same_identity_def setHandler_def setClient_def)
    ultimately have "quiet (register a pl (takeID a st)) st'" unfolding t by (rule quiet.trans [rotated])
    then show ?thesis using Some pl by blast
  qed
qed

lemma word_less_Suc:
  fixes n :: u64
  assumes "n + 1 \<noteq> 0"
  shows "n < n + 1"
proof -
  have "unat n < 2 ^ 64" using unsigned_less [of n, where 'a = nat] by simp
  moreover have "unat n + 1 \<noteq> 2 ^ 64"
  proof
    assume "unat n + 1 = 2 ^ 64"
    then have "unat (n + 1) = 0" by (simp add: unat_word_ariths)
    with assms show False by (simp add: unat_eq_0)
  qed
  ultimately have "unat (n + 1) = unat n + 1" by (simp add: unat_word_ariths)
  then show ?thesis by (simp add: word_less_nat_alt)
qed

lemma takeID_fields:
  "cfg (takeID a st) = cfg st" "players (handler (takeID a st)) = players (handler st)"
  "nextID (handler (takeID a st)) = nextID (handler st) + 1"
  "runtimeID (clients (takeID a st) b) = (if b = a then nextID (handler st) + 1 else runtimeID (clients st b))"
  "login (clients (takeID a st) b) = login (clients st b)" "player (clients (takeID a st) b) = player (clients st b)"
  "conn (clients (takeID a st) b) = conn (clients st b)" "callbacks (handler (takeID a st)) = callbacks (handler st)"
  by (simp_all add: takeID_def setClient_def setHandler_def)

lemma takeID_server_ok:
  assumes "server_ok P hc (st, cs)" and "nextID (handler st) + 1 \<noteq> 0"
  shows "server_ok P hc (takeID a st, cs)"
proof -
  let ?n = "nextID (handler st)"
  have n: "?n < ?n + 1" by (rule word_less_Suc [OF assms(2)])
  have b: "runtimeID (clients st b) \<le> ?n" for b using assms(1) by (simp add: server_ok_def ids_ok_def)
  then have less: "runtimeID (clients st b) < ?n + 1" for b using n by (rule le_less_trans)
  then have "?n + 1 \<noteq> runtimeID (clients st b)" "runtimeID (clients st b) \<noteq> ?n + 1" for b by (metis less_irrefl)+
  then have "ids_ok (takeID a st)"
    using assms(1) less unfolding server_ok_def ids_ok_def takeID_fields by (auto intro: less_imp_le)
  moreover have "logins_ok P (takeID a st) cs"
    using assms(1) by (auto simp: server_ok_def logins_ok_def takeID_fields encrypted_def Let_def)
  moreover have "n \<le> ?n + 1" if "registered st n b" for n b
    using assms(1) that less [of b] unfolding server_ok_def players_ok_def Let_def by (force intro: order.trans less_imp_le)
  then have "players_ok P (takeID a st) cs"
    using assms(1) less unfolding server_ok_def players_ok_def registered_def Let_def takeID_fields
    by (auto simp: takeID_fields encrypted_def)
  ultimately show ?thesis using assms(1) by (simp add: server_ok_def takeID_fields logs_ok_def balanced_def)
qed

lemma register_fields:
  "cfg (register a pl st) = cfg st" "nextID (handler (register a pl st)) = nextID (handler st)"
  "players (handler (register a pl st)) = AList.update (runtimeID (clients st a)) a (players (handler st))"
  "runtimeID (clients (register a pl st) b) = runtimeID (clients st b)"
  "login (clients (register a pl st) b) = login (clients st b)"
  "player (clients (register a pl st) b) = (if b = a then pl else player (clients st b))"
  "conn (clients (register a pl st) b) = conn (clients st b)"
  "callbacks (handler (register a pl st)) = callbacks (handler st) @ [PlayerJoined a (length (players (handler (register a pl st))))]"
  by (simp_all add: register_def notify_def setClient_def setHandler_def)

lemma register_server_ok:
  assumes "server_ok P hc (st, cs)" and "cs a = Open" and "runtimeID (clients st a) \<noteq> 0"
    and "uuidParse (loginLib P) (Identity (loginIdentity (login (clients st a)))) = Some (playerUUID pl)"
    and "uuidParse (loginLib P) [] = None" and "runtimeID (clients st a) \<notin> fst ` set (players (handler st))"
  shows "server_ok P hc (register a pl st, cs)"
proof -
  have "login (clients st a) \<noteq> zeroLogin" using assms(4,5) by (auto simp: zeroLogin_def)
  then have l: "accepted P hc (login (clients st a))" "encrypted (clients st a)"
    using assms(1,2) by (auto simp: server_ok_def logins_ok_def Let_def)
  then have u: "identified P hc (playerUUID pl)" using assms(4) by (auto simp: identified_def)
  have r: "registered (register a pl st) n b \<longleftrightarrow> n = runtimeID (clients st a) \<and> b = a \<or> registered st n b \<and> n \<noteq> runtimeID (clients st a)" for n b
    using assms(1) by (auto simp: registered_def register_fields set_update_wf server_ok_def players_ok_def)
  have w: "wf_map (players (handler (register a pl st)))"
    using assms(1) by (simp add: register_fields distinct_update server_ok_def players_ok_def)
  have "players_ok P (register a pl st) cs"
    using assms(1-3) l u w unfolding server_ok_def players_ok_def r Let_def register_fields
    by (auto simp: register_fields encrypted_def)
  moreover have "ids_ok (register a pl st)" "logins_ok P (register a pl st) cs"
    using assms(1) by (auto simp: server_ok_def ids_ok_def logins_ok_def register_fields encrypted_def Let_def)
  moreover have "AList.update k v m = m @ [(k, v)]" if "k \<notin> fst ` set m" for k v and m :: "(u64, addr) gomap"
    using that by (induction m) auto
  then have "balanced (register a pl st)"
    using assms(1,6) by (simp add: server_ok_def balanced_def register_fields joins_def leaves_def)
  ultimately show ?thesis using assms(1) by (simp add: server_ok_def register_fields logs_ok_def)
qed


lemma startGame_server_ok:
  assumes "server_ok P hc (st, cs)" and "cs a = Open" and "nextID (handler st) + 1 \<noteq> 0"
    and "uuidParse (loginLib P) [] = None" and "startGame P env a st = (r, st')"
  shows "server_ok P hc (st', cs)" and "nextID (handler st') = nextID (handler st) + 1"
proof -
  have t: "server_ok P hc (takeID a st, cs)" by (rule takeID_server_ok [OF assms(1,3)])
  from startGame_effect [OF assms(5)]
  have "server_ok P hc (st', cs) \<and> nextID (handler st') = nextID (handler st) + 1"
  proof (elim disjE conjE exE)
    assume "quiet (takeID a st) st'"
    then show ?thesis using quiet_server_ok [OF t] quiet_simps(3) takeID_fields(3) by metis
  next
    fix pl
    assume u: "uuidParse (loginLib P) (Identity (loginIdentity (login (clients st a)))) = Some (playerUUID pl)"
      and q: "quiet (register a pl (takeID a st)) st'"
    have "runtimeID (clients (takeID a st) a) \<noteq> 0" using assms(3) by (simp add: takeID_fields)
    moreover have "nextID (handler st) + 1 \<notin> fst ` set (players (handler st))"
    proof
      assume "nextID (handler st) + 1 \<in> fst ` set (players (handler st))"
      then obtain b where "registered st (nextID (handler st) + 1) b" by (auto simp: registered_def)
      then have "nextID (handler st) + 1 \<le> runtimeID (clients st b)" "runtimeID (clients st b) \<le> nextID (handler st)"
        using assms(1) by (auto simp: server_ok_def players_ok_def ids_ok_def Let_def)
      then show False using word_less_Suc [OF assms(3)] by (meson leD order.trans)
    qed
    ultimately have "server_ok P hc (register a pl (takeID a st), cs)"
      using u assms(4) by (intro register_server_ok [OF t assms(2)]) (simp_all add: takeID_fields)
    then show ?thesis using quiet_server_ok [OF _ q] quiet_simps(3) [OF q] by (simp add: register_fields takeID_fields)
  qed
  then show "server_ok P hc (st', cs)" and "nextID (handler st') = nextID (handler st) + 1" by simp_all
qed

text \<open>
  An action that keeps the invariant of an open session and takes at most one runtime ID. The
  session stays open on success and on an unhandled packet.
\<close>

abbreviation stays :: "server_error option \<Rightarrow> bool" where
  "stays r \<equiv> r = None \<or> r = Some UnhandledPacket"

definition safe :: "proto \<Rightarrow> addr \<Rightarrow> action \<Rightarrow> bool" where
  "safe P a act \<longleftrightarrow> (\<forall>hc st cs r st'. server_ok P hc (st, cs) \<longrightarrow> cs a = Open \<longrightarrow> nextID (handler st) + 1 \<noteq> 0 \<longrightarrow>
     uuidParse (loginLib P) [] = None \<longrightarrow> act st = (r, st') \<longrightarrow>
     server_ok P hc (st', if stays r then cs else cs(a := Closed)) \<and>
     (nextID (handler st') = nextID (handler st) \<or> nextID (handler st') = nextID (handler st) + 1))"

lemma quiet_safe: "frames quiet act \<Longrightarrow> safe P a act"
  unfolding safe_def
proof (intro allI impI)
  fix hc st cs r st'
  assume f: "frames quiet act" and ok: "server_ok P hc (st, cs)" and h: "act st = (r, st')"
  have q: "quiet st st'" by (rule quietD [OF f h])
  from quiet_server_ok [OF ok q] quiet_simps(3) [OF q] close_server_ok
  show "server_ok P hc (st', if stays r then cs else cs(a := Closed)) \<and>
     (nextID (handler st') = nextID (handler st) \<or> nextID (handler st') = nextID (handler st) + 1)" by simp
qed

lemma login_safe: "safe P a (handleLogin P env a n request)"
  unfolding safe_def
proof (intro allI impI)
  fix hc st cs r st'
  assume ok: "server_ok P hc (st, cs)" and o: "cs a = Open" and h: "handleLogin P env a n request st = (r, st')"
  have hc: "cfg st = hc" using ok by (simp add: server_ok_def)
  let ?cs = "if stays r then cs else cs(a := Closed)"
  from handleLogin_effect [OF h]
  show "server_ok P hc (st', ?cs) \<and> (nextID (handler st') = nextID (handler st) \<or> nextID (handler st') = nextID (handler st) + 1)"
  proof (elim disjE exE conjE)
    assume "quiet st st'"
    then show ?thesis using quiet_server_ok [OF ok] quiet_simps(3) close_server_ok by simp
  next
    fix data
    assume d: "accepted P (cfg st) data" "quiet (setClient a (\<lambda>cl. cl\<lparr>login := data\<rparr>) st) st'"
      "r = None \<longrightarrow> encrypted (clients st' a)" and r: "r \<noteq> Some UnhandledPacket"
    have c: "?cs = cs(a := if r = None then Open else Closed)" using o r by (auto simp: fun_eq_iff)
    have "server_ok P hc (st', ?cs)"
      unfolding c using d hc by (intro login_server_ok [OF ok _ o d(2)]) auto
    moreover have "nextID (handler st') = nextID (handler st)" using quiet_simps(3) [OF d(2)] by (simp add: setClient_def)
    ultimately show ?thesis by simp
  qed
qed

lemma startGame_safe: "safe P a (startGame P env a)"
  unfolding safe_def
proof (intro allI impI)
  fix hc st cs r st'
  assume a: "server_ok P hc (st, cs)" "cs a = Open" "nextID (handler st) + 1 \<noteq> 0" "uuidParse (loginLib P) [] = None"
    "startGame P env a st = (r, st')"
  from startGame_server_ok [OF a] close_server_ok
  show "server_ok P hc (st', if stays r then cs else cs(a := Closed)) \<and>
     (nextID (handler st') = nextID (handler st) \<or> nextID (handler st') = nextID (handler st) + 1)" by simp
qed

lemma quiet_then_safe:
  assumes "frames quiet f" and "safe P a g"
  shows "safe P a (andThen f g)"
  unfolding safe_def
proof (intro allI impI)
  fix hc st cs r st'
  assume ok: "server_ok P hc (st, cs)" and o: "cs a = Open" and n: "nextID (handler st) + 1 \<noteq> 0"
    and u: "uuidParse (loginLib P) [] = None" and h: "andThen f g st = (r, st')"
  obtain r1 st1 where f: "f st = (r1, st1)" by fastforce
  have q: "quiet st st1" by (rule quietD [OF assms(1) f])
  have ok1: "server_ok P hc (st1, cs)" and n1: "nextID (handler st1) = nextID (handler st)"
    using quiet_server_ok [OF ok q] quiet_simps(3) [OF q] by simp_all
  let ?G = "server_ok P hc (st', if stays r then cs else cs(a := Closed)) \<and>
     (nextID (handler st') = nextID (handler st) \<or> nextID (handler st') = nextID (handler st) + 1)"
  show ?G
  proof (cases r1)
    case None
    then have "g st1 = (r, st')" using h f by (simp add: andThen_def)
    then show ?G using assms(2) ok1 o n u n1 unfolding safe_def by metis
  next
    case (Some e)
    then have "r = Some e" "st' = st1" using h f by (simp_all add: andThen_def)
    then show ?G using close_server_ok [OF ok1] ok1 n1 by simp
  qed
qed

lemma safe_reading: "(\<And>st. safe P a (f st)) \<Longrightarrow> safe P a (reading f)"
  unfolding safe_def reading_def by metis

lemma safe_ok: "safe P a ok"
  by (rule quiet_safe) auto

lemma finish_safe: "safe P a (finishResourcePackFlow P env a)"
  unfolding finishResourcePackFlow_def
proof (rule safe_reading)
  fix st
  have "safe P a (andThen f (andThen (startGame P env a) ok))" if "frames quiet f" for f
  proof -
    have "andThen (startGame P env a) ok = startGame P env a"
      by (auto simp: andThen_def ok_def fun_eq_iff split: prod.split option.split)
    then show ?thesis using quiet_then_safe [OF that startGame_safe] by simp
  qed
  then show "safe P a (if state (clients st a) \<noteq> stateAwaitResourcePackResponse then ok
     else sequence
       [(if resourcePacks (cfg st) \<noteq> [] \<and> \<not> resourcePackStackSent (clients st a) then sendResourcePackStack P a else ok),
        startGame P env a])"
    by (auto simp: safe_ok)
qed

lemma dispatch_safe: "safe P a (dispatch P env a pk)"
proof (cases pk)
  case (ResourcePackClientResponse resp ps)
  then show ?thesis
    by (auto simp: dispatch_def handleResourcePackClientResponse_def finish_safe intro!: quiet_safe split: pack_response.split)
next
  case ResourcePacksReadyForValidation
  then show ?thesis
    by (auto simp: dispatch_def handleResourcePacksReadyForValidation_def finish_safe safe_ok intro!: safe_reading)
next
  case (Login n request)
  then show ?thesis by (simp add: dispatch_def login_safe)
qed (auto simp: dispatch_def intro!: quiet_safe)


section \<open>Leaving\<close>

definition forget :: "u64 \<Rightarrow> mcpe \<Rightarrow> mcpe" where
  "forget n = setHandler (\<lambda>h. h\<lparr>players := AList.delete n (players h)\<rparr>)"

text \<open>What the peers are told when a player leaves, one broadcast after the other.\<close>

definition leavePackets :: "MCPEClient \<Rightarrow> server_packet list" where
  "leavePackets cl =
     [PlayerList PlayerListActionRemove [removeEntry (playerUUID (player cl))], RemoveActor (runtimeID cl)] @
     (if state cl = stateSpawned
      then [ServerText ((plainText TextTypeTranslation ''multiplayer.player.left'')\<lparr>txtParameters := [DisplayName (loginIdentity (login cl))]\<rparr>)]
      else [])"

definition broadcasts :: "addr list \<Rightarrow> server_packet list \<Rightarrow> mcpe \<Rightarrow> mcpe" where
  "broadcasts peers = fold (\<lambda>pk st. snd (writePacketToClients peers pk st))"

lemma removePlayer_eq:
  assumes "runtimeID (clients st a) \<noteq> 0" and "map_of (players (handler st)) (runtimeID (clients st a)) = Some a"
  shows "removePlayer a st = notify (PlayerLeft a)
    (setClient a (\<lambda>c. c\<lparr>state := stateDisconnected\<rparr>)
      (broadcasts (spawnedPlayers (forget (runtimeID (clients st a)) st)) (leavePackets (clients st a))
        (forget (runtimeID (clients st a)) st)))"
  using assms by (simp add: removePlayer_def Let_def forget_def broadcasts_def leavePackets_def plainText_def)

lemma broadcasts_quiet: "only_logs st (broadcasts peers pks st)" "quiet st (broadcasts peers pks st)"
proof -
  have "only_logs st (broadcasts peers pks st) \<and> quiet st (broadcasts peers pks st)"
    unfolding broadcasts_def
  proof (induction pks arbitrary: st)
    case (Cons pk pks)
    let ?st1 = "snd (writePacketToClients peers pk st)"
    have l: "only_logs st ?st1" and q: "quiet st ?st1" using logs.sends(1) quiet.sends(1) by (simp_all add: frames_def)
    from Cons.IH [of ?st1] logs.trans [OF l] quiet.trans [OF q] show ?case by simp
  qed (simp add: logs.refl quiet.refl)
  then show "only_logs st (broadcasts peers pks st)" "quiet st (broadcasts peers pks st)" by simp_all
qed

text \<open>The player is in the table under its current ID, and leaves it.\<close>

definition leave :: "addr \<Rightarrow> mcpe \<Rightarrow> mcpe" where
  "leave a st = notify (PlayerLeft a) (forget (runtimeID (clients st a)) st)"

lemma leave_fields:
  "clients (leave a st) = clients st" "cfg (leave a st) = cfg st" "nextID (handler (leave a st)) = nextID (handler st)"
  "players (handler (leave a st)) = AList.delete (runtimeID (clients st a)) (players (handler st))"
  "callbacks (handler (leave a st)) = callbacks (handler st) @ [PlayerLeft a (length (players (handler (leave a st))))]"
  by (simp_all add: leave_def notify_def forget_def setHandler_def)

lemma removePlayer_effect:
  "removePlayer a st = st \<or> map_of (players (handler st)) (runtimeID (clients st a)) = Some a \<and> quiet (leave a st) (removePlayer a st)"
proof (cases "runtimeID (clients st a) = 0 \<or> map_of (players (handler st)) (runtimeID (clients st a)) \<noteq> Some a")
  case True
  then show ?thesis by (auto simp: removePlayer_def Let_def)
next
  case False
  let ?f = "forget (runtimeID (clients st a)) st"
  let ?b = "broadcasts (spawnedPlayers ?f) (leavePackets (clients st a)) ?f"
  have l: "only_logs ?f ?b" "quiet ?f ?b" by (rule broadcasts_quiet)+
  have "quiet (leave a st) (notify (PlayerLeft a) ?b)"
    using l by (simp add: quiet_def only_logs_def leave_def notify_def setHandler_def)
  then have "quiet (leave a st) (setHandler (\<lambda>h. h\<lparr>callbacks := callbacks h @ [PlayerLeft a (length (players h))]\<rparr>) ?b)"
    by (simp add: notify_def)
  moreover have "quiet s (setHandler g (setClient a (\<lambda>c. c\<lparr>state := stateDisconnected\<rparr>) t))" if "quiet s (setHandler g t)" for s t g
  proof -
    have "setHandler g (setClient a (\<lambda>c. c\<lparr>state := stateDisconnected\<rparr>) t) = setClient a (\<lambda>c. c\<lparr>state := stateDisconnected\<rparr>) (setHandler g t)"
      by (simp add: setHandler_def setClient_def)
    then show ?thesis using that quiet_setClient [of "\<lambda>c. c\<lparr>state := stateDisconnected\<rparr>" "setHandler g t" a] quiet.trans
      by (simp add: same_identity_def)
  qed
  ultimately show ?thesis using False by (simp add: removePlayer_eq notify_def)
qed

lemma length_delete_key: "wf_map m \<Longrightarrow> map_of m k = Some v \<Longrightarrow> Suc (length (AList.delete k m)) = length m"
proof (induction m)
  case (Cons kv m)
  have "AList.delete k m = m" if "k \<notin> fst ` set m" using that by (force simp: AList.delete_eq filter_id_conv)
  then show ?case using Cons by (cases kv) (auto split: if_splits)
qed simp

lemma leave_server_ok:
  assumes "server_ok P hc (st, cs)" and "map_of (players (handler st)) (runtimeID (clients st a)) = Some a"
  shows "server_ok P hc (leave a st, cs)"
proof -
  have "registered (leave a st) m b \<Longrightarrow> registered st m b" for m b
    using set_delete_subset [of "runtimeID (clients st a)" "players (handler st)"] unfolding registered_def leave_fields by blast
  moreover have "balanced (leave a st)"
    using assms length_delete_key [of "players (handler st)" "runtimeID (clients st a)" a]
    by (simp add: server_ok_def players_ok_def balanced_def leave_fields joins_def leaves_def)
  ultimately show ?thesis using assms(1)
    by (auto simp: server_ok_def ids_ok_def logins_ok_def players_ok_def leave_fields logs_ok_def distinct_delete)
qed

lemma OnDisconnect_server_ok:
  assumes "server_ok P hc (st, cs)"
  shows "server_ok P hc (OnDisconnect a st, cs)" and "nextID (handler (OnDisconnect a st)) = nextID (handler st)"
  using removePlayer_effect [of a st] assms quiet_server_ok leave_server_ok quiet_simps(3) leave_fields(3)
  unfolding OnDisconnect_def by metis+

section \<open>All reachable states\<close>

lemma HandlePacket_safe:
  assumes "server_ok P hc (st, cs)" and "cs a = Open" and "nextID (handler st) + 1 \<noteq> 0"
    and "uuidParse (loginLib P) [] = None" and "HandlePacket P env a pk st = (r, st')"
  shows "server_ok P hc (st', if r = None then cs else cs(a := Closed)) \<and>
    (nextID (handler st') = nextID (handler st) \<or> nextID (handler st') = nextID (handler st) + 1)"
proof (cases "state (clients st a) = stateDisconnected")
  case True
  then show ?thesis using assms(1,5) by (simp add: HandlePacket_def)
next
  case False
  obtain r0 where d: "dispatch P env a pk st = (r0, st')" and r: "r = (if r0 = Some UnhandledPacket then None else r0)"
    using assms(5) False by (auto simp: HandlePacket_def split: prod.splits option.splits server_error.splits)
  from dispatch_safe [of P a env pk, unfolded safe_def, rule_format, OF assms(1-4) d] r
  show ?thesis by (auto split: if_splits)
qed

lemma step_server_ok:
  assumes "step P (st, cs) (st', cs')" and "server_ok P hc (st, cs)" and "nextID (handler st) + 1 \<noteq> 0"
    and "uuidParse (loginLib P) [] = None"
  shows "server_ok P hc (st', cs') \<and>
    (nextID (handler st') = nextID (handler st) \<or> nextID (handler st') = nextID (handler st) + 1)"
  using assms(1)
proof (cases rule: step_cases)
  case (connect a c)
  then show ?thesis
    using assms(2)
    by (auto simp: server_ok_def ids_ok_def logins_ok_def players_ok_def registered_def balanced_def logs_ok_def setClient_def NewMCPEClient_def Let_def)
next
  case (handled a env pk)
  then show ?thesis using HandlePacket_safe [OF assms(2) _ assms(3,4)] by fastforce
next
  case (failed a env pk e st1)
  from HandlePacket_safe [OF assms(2) _ assms(3,4) failed(3)] failed(2)
  have "server_ok P hc (st1, cs(a := Closed))" "nextID (handler st1) = nextID (handler st) \<or> nextID (handler st1) = nextID (handler st) + 1"
    by auto
  then show ?thesis using OnDisconnect_server_ok failed(1) by auto
next
  case (disconnected a)
  then show ?thesis using OnDisconnect_server_ok [OF close_server_ok [OF assms(2)]] by simp
next
  case (console line r)
  then have "quiet st st'" by (auto simp: ExecuteConsoleCommand_def newDefaultCommands_builtin intro: quiet_dispatch)
  then show ?thesis using console quiet_server_ok [OF assms(2)] quiet_simps(3) by simp
qed

lemma reach_server_ok:
  assumes "reach P hc key n s" and "n < 2 ^ 64" and "uuidParse (loginLib P) [] = None"
  shows "server_ok P hc s \<and> unat (nextID (handler (fst s))) \<le> n"
  using assms
proof (induction rule: reach.induct)
  case start
  then show ?case
    by (auto simp: initialServer_def server_ok_def ids_ok_def logins_ok_def players_ok_def registered_def balanced_def
        joins_def leaves_def logs_ok_def NewMCPEClient_def goodConn_def Let_def)
next
  case (next_step n s s')
  obtain st cs st' cs' where s: "s = (st, cs)" "s' = (st', cs')" by (cases s, cases s')
  have ih: "server_ok P hc (st, cs)" "unat (nextID (handler st)) \<le> n" using next_step s by auto
  have u: "unat (nextID (handler st) + 1) = unat (nextID (handler st)) + 1"
    using ih(2) next_step.prems(1) by (simp add: unat_word_ariths)
  then have "nextID (handler st) + 1 \<noteq> 0" by (metis Suc_eq_plus1 nat.distinct(1) unat_0)
  from step_server_ok [OF _ ih(1) this next_step.prems(2), of st' cs'] next_step.hyps(2) s
  have "server_ok P hc (st', cs')" "nextID (handler st') = nextID (handler st) \<or> nextID (handler st') = nextID (handler st) + 1"
    by simp_all
  then show ?case using ih(2) u s by auto
qed

end
