(* ===== verification/Lifecycle.thy ===== *)
theory Lifecycle
  imports Reachable
begin

text \<open>
  What holds of a session from login to leave: who is in the player table, that a client which
  follows the protocol is spawned, that a leave is announced to every spawned player, and two gaps
  of the router, which checks no session state before it runs a handler.
\<close>

section \<open>Broadcasts\<close>

lemma WritePacket_log:
  "reliable st \<Longrightarrow> connLog (conn (clients (snd (WritePacket a pk st)) b)) =
     connLog (conn (clients st b)) @ (if b = a then [Sent pk] else [])"
  by (simp add: reliable_def WritePacket_def writeEvent_def writeConn_def setClient_def Let_def)

lemma writePacketToClients_Cons: "writePacketToClients (b # bs) pk = andThen (WritePacket b pk) (writePacketToClients bs pk)"
  by (simp add: writePacketToClients_def)

lemma broadcast_log:
  assumes "reliable st"
  shows "connLog (conn (clients (snd (writePacketToClients peers pk st)) b)) =
     connLog (conn (clients st b)) @ replicate (count_list peers b) (Sent pk)"
  using assms
proof (induction peers arbitrary: st)
  case Nil
  then show ?case by (simp add: writePacketToClients_def ok_def)
next
  case (Cons c cs)
  obtain st1 where w: "WritePacket c pk st = (None, st1)" "only_logs st st1"
    using deliversD [OF delivers.writes(1) Cons.prems(1)] by blast
  then have "reliable st1" using only_logs_reliable Cons.prems(1) by blast
  from Cons.IH [OF this] WritePacket_log [OF Cons.prems(1), of c pk b] w
  show ?case by (auto simp: writePacketToClients_Cons andThen_def)
qed

lemma broadcasts_log:
  assumes "reliable st"
  shows "connLog (conn (clients (broadcasts peers pks st) b)) =
      connLog (conn (clients st b)) @ concat (map (\<lambda>pk. replicate (count_list peers b) (Sent pk)) pks)"
  using assms
proof (induction pks arbitrary: st)
  case Nil
  then show ?case by (simp add: broadcasts_def)
next
  case (Cons pk pks)
  let ?st1 = "snd (writePacketToClients peers pk st)"
  have "only_logs st ?st1" using logs.sends(1) by (simp add: frames_def)
  then have "reliable ?st1" using only_logs_reliable Cons.prems by blast
  from Cons.IH [OF this] broadcast_log [OF Cons.prems, of peers pk b] show ?case by (simp add: broadcasts_def)
qed

lemma spawnedPlayers_set:
  "set (spawnedPlayers st) = {b. state (clients st b) = stateSpawned \<and> (\<exists>n. registered st n b)}"
  by (auto simp: spawnedPlayers_def sortClientsByRuntimeID_def registered_def) force

text \<open>A spawned client is among the spawned players once per entry of the table.\<close>

lemma spawnedPlayers_count:
  "count_list (spawnedPlayers st) b = (if state (clients st b) = stateSpawned then count_list (map snd (players (handler st))) b else 0)"
proof -
  have "filter (\<lambda>x. b = x) (filter P xs) = (if P b then filter (\<lambda>x. b = x) xs else [])" for P :: "addr \<Rightarrow> bool" and xs
    by (induction xs) auto
  then show ?thesis
    by (simp add: spawnedPlayers_def sortClientsByRuntimeID_def count_list_eq_length_filter filter_sort)
qed

lemma OnDisconnect_players:
  assumes "runtimeID (clients st a) \<noteq> 0" and "map_of (players (handler st)) (runtimeID (clients st a)) = Some a"
  shows "players (handler (OnDisconnect a st)) = AList.delete (runtimeID (clients st a)) (players (handler st))"
    and "callbacks (handler (OnDisconnect a st)) = callbacks (handler st) @ [PlayerLeft a (length (players (handler (OnDisconnect a st))))]"
  using broadcasts_quiet(1) [of "forget (runtimeID (clients st a)) st"] removePlayer_eq [OF assms]
  by (simp_all add: OnDisconnect_def only_logs_def notify_def forget_def setHandler_def setClient_def)

text \<open>
  C10. A leave is announced. When a player whose runtime ID is in the table disconnects, and no
  connection fails, exactly the entry of that runtime ID is removed from the table; every spawned player that is still in the
  table is sent exactly the leave packets (removal from the player list, removal of the entity, and the leave
  message if the player had spawned), in that order, each once per entry it has left in the table, which is once unless it
  registered repeatedly; nobody else is sent anything, the session ends in \<^verbatim>\<open>stateDisconnected\<close> and
  the \<^verbatim>\<open>playerLeft\<close> callback runs once, after the removal. (Entries of the player under other runtime IDs stay.)
\<close>

theorem leave_announced:
  assumes "reliable st" and "wf_map (players (handler st))"
    and "runtimeID (clients st a) \<noteq> 0" and "registered st (runtimeID (clients st a)) a"
  shows "(\<forall>n b. registered (OnDisconnect a st) n b \<longleftrightarrow> registered st n b \<and> n \<noteq> runtimeID (clients st a)) \<and>
    (\<forall>b. connLog (conn (clients (OnDisconnect a st) b)) = connLog (conn (clients st b)) @
       (if state (clients st b) = stateSpawned
        then concat (map (\<lambda>pk. replicate (count_list (map snd (players (handler (OnDisconnect a st)))) b) (Sent pk))
          (leavePackets (clients st a))) else [])) \<and>
    state (clients (OnDisconnect a st) a) = stateDisconnected \<and>
    callbacks (handler (OnDisconnect a st)) = callbacks (handler st) @ [PlayerLeft a (length (players (handler (OnDisconnect a st))))] \<and>
    Suc (length (players (handler (OnDisconnect a st)))) = length (players (handler st))"
proof -
  let ?n = "runtimeID (clients st a)"
  let ?f = "forget ?n st"
  let ?b = "broadcasts (spawnedPlayers ?f) (leavePackets (clients st a)) ?f"
  have f: "clients ?f = clients st" "players (handler ?f) = AList.delete ?n (players (handler st))"
    by (simp_all add: forget_def setHandler_def)
  have r: "reliable ?f" using assms(1) by (simp add: reliable_def f)
  have m: "map_of (players (handler st)) ?n = Some a" using assms(2,4) by (simp add: registered_def)
  then have eq: "OnDisconnect a st = notify (PlayerLeft a) (setClient a (\<lambda>c. c\<lparr>state := stateDisconnected\<rparr>) ?b)"
    unfolding OnDisconnect_def using assms(3) by (rule removePlayer_eq [rotated])
  note h = OnDisconnect_players [OF assms(3) m]
  have "connLog (conn (clients (OnDisconnect a st) c)) = connLog (conn (clients ?b c))" for c
    unfolding eq by (simp add: notify_def setHandler_def setClient_def)
  then have l: "connLog (conn (clients (OnDisconnect a st) c)) = connLog (conn (clients st c)) @
      concat (map (\<lambda>pk. replicate (count_list (spawnedPlayers ?f) c) (Sent pk)) (leavePackets (clients st a)))" for c
    by (simp add: broadcasts_log [OF r] f)
  have "registered (OnDisconnect a st) n b \<longleftrightarrow> registered st n b \<and> n \<noteq> ?n" for n b
    unfolding registered_def h by (auto simp: AList.delete_eq)
  moreover have "state (clients (OnDisconnect a st) a) = stateDisconnected"
    unfolding eq by (simp add: notify_def setHandler_def setClient_def)
  moreover have "Suc (length (players (handler (OnDisconnect a st)))) = length (players (handler st))"
    unfolding h using length_delete_key [OF assms(2) m] .
  moreover have "count_list (spawnedPlayers ?f) c =
      (if state (clients st c) = stateSpawned then count_list (map snd (players (handler (OnDisconnect a st)))) c else 0)" for c
    by (simp add: spawnedPlayers_count f h)
  ultimately show ?thesis using h(2) by (simp add: l)
qed


section \<open>Logging in and spawning\<close>

text \<open>Packets of one session handled in order, up to the first error.\<close>

definition handlePackets :: "proto \<Rightarrow> env \<Rightarrow> addr \<Rightarrow> client_packet list \<Rightarrow> action" where
  "handlePackets P env a pks = sequence (map (HandlePacket P env a) pks)"

text \<open>\<open>outcome act st base\<close>: on \<open>st\<close> the action succeeds, and leaves \<open>base\<close> up to what was written to connections.\<close>

definition outcome :: "action \<Rightarrow> mcpe \<Rightarrow> mcpe \<Rightarrow> bool" where
  "outcome act st base \<longleftrightarrow> (\<exists>st'. act st = (None, st') \<and> only_logs base st')"

lemma outcome_delivers: "delivers act \<Longrightarrow> reliable base \<Longrightarrow> only_logs base st \<Longrightarrow> outcome act st base"
  unfolding outcome_def using deliversD only_logs_reliable logs.trans by metis

lemma outcome_update: "only_logs base (f st) \<Longrightarrow> outcome (update f) st base"
  by (simp add: outcome_def update_def)

lemma outcome_andThen:
  "outcome f st base1 \<Longrightarrow> (\<And>st1. only_logs base1 st1 \<Longrightarrow> outcome g st1 base2) \<Longrightarrow> outcome (andThen f g) st base2"
  by (fastforce simp: outcome_def andThen_def)

lemma outcome_ok: "only_logs base st \<Longrightarrow> outcome ok st base"
  by (simp add: outcome_def ok_def)

lemma outcome_reading: "outcome (f st) st base \<Longrightarrow> outcome (reading f) st base"
  by (simp add: outcome_def reading_def)

lemma grown_commute:
  assumes "\<And>c k. f (c\<lparr>conn := k\<rparr>) = (f c)\<lparr>conn := k\<rparr>" and "\<And>c. conn (f c) = conn c" and "grown c c'"
  shows "grown (f c) (f c')"
  using assms unfolding grown_def by metis

lemma only_logs_setClient:
  assumes "\<And>c k. f (c\<lparr>conn := k\<rparr>) = (f c)\<lparr>conn := k\<rparr>" and "\<And>c. conn (f c) = conn c" and "only_logs st st'"
  shows "only_logs (setClient a f st) (setClient a f st')"
  using assms(3) grown_commute [OF assms(1,2)] by (simp add: only_logs_def setClient_def)

lemma only_logs_setHandler: "only_logs st st' \<Longrightarrow> only_logs (setHandler f st) (setHandler f st')"
  by (simp add: only_logs_def setHandler_def)

lemma only_logs_fields:
  assumes "only_logs st st'"
  shows "handler st' = handler st" "state (clients st' b) = state (clients st b)" "runtimeID (clients st' b) = runtimeID (clients st b)"
    "login (clients st' b) = login (clients st b)" "resourcePackStackSent (clients st' b) = resourcePackStackSent (clients st b)"
    "chunksSent (clients st' b) = chunksSent (clients st b)" "player (clients st' b) = player (clients st b)"
proof -
  have g: "clients st' b = (clients st b)\<lparr>conn := conn (clients st' b)\<rparr>" using assms by (simp add: only_logs_def grown_def)
  show "handler st' = handler st" using assms by (simp add: only_logs_def)
  show "state (clients st' b) = state (clients st b)" "runtimeID (clients st' b) = runtimeID (clients st b)"
    "login (clients st' b) = login (clients st b)" "resourcePackStackSent (clients st' b) = resourcePackStackSent (clients st b)"
    "chunksSent (clients st' b) = chunksSent (clients st b)" "player (clients st' b) = player (clients st b)"
    by (subst g, simp)+
qed

lemma reliable_setClient: "(\<And>c. connFails (conn (f c)) = connFails (conn c)) \<Longrightarrow> reliable (setClient a f st) = reliable st"
  unfolding reliable_def setClient_def by (auto split: if_splits)

lemma reliable_setHandler: "reliable (setHandler f st) = reliable st"
  by (simp add: reliable_def setHandler_def)

abbreviation enter :: "addr \<Rightarrow> mcpeSessionState \<Rightarrow> mcpe \<Rightarrow> mcpe" where
  "enter a s \<equiv> setClient a (\<lambda>cl. cl\<lparr>state := s\<rparr>)"

lemma outcome_setState: "only_logs base st \<Longrightarrow> outcome (setState a s) st (enter a s base)"
  unfolding setState_def by (intro outcome_update only_logs_setClient) simp_all

lemma network_settings_outcome:
  assumes "reliable st"
  shows "outcome (handleRequestNetworkSettings P a (i32 (CurrentProtocol P))) st (enter a stateAwaitLogin st)"
  unfolding handleRequestNetworkSettings_def
  using assms logs.refl
  by (auto intro!: outcome_andThen outcome_ok outcome_setState intro: outcome_delivers [where base = st])

lemma login_outcome:
  assumes "reliable st" and "loginParse (loginLib P) request = Some data"
    and "onlineMode (cfg st) \<longrightarrow> XBOXLiveAuthenticated (loginAuth data)" and "privateKey (handler st) = Some key"
    and "AuthPublicKey (loginAuth data) \<noteq> None" and "envSalt env = Some salt"
    and "newHandshake (loginLib P) (AuthPublicKey (loginAuth data)) key salt = Inr (jwt, secret)"
  shows "outcome (handleLogin P env a (i32 (CurrentProtocol P)) request) st
     (enter a stateAwaitClientHandshake (setClient a (\<lambda>cl. cl\<lparr>login := data\<rparr>) st))"
proof -
  let ?st1 = "setClient a (\<lambda>cl. cl\<lparr>login := data\<rparr>) st"
  have r: "reliable ?st1" using assms(1) by (simp add: reliable_setClient)
  have "serverHandshake P env data ?st1 = (Inr (jwt, secret), ?st1)"
    using assms(4-7) by (auto simp: serverHandshake_def encryptionPrivateKey_def setClient_def)
  then have "handleLogin P env a (i32 (CurrentProtocol P)) request st = sequence
      [WritePacket a (ServerToClientHandshake jwt), update (logConn a (EncryptionOn secret)), setState a stateAwaitClientHandshake] ?st1"
    using assms(2,3) by (auto simp: handleLogin_def reading_def parseLoginPacket_def parseConnectionRequest_def acceptLogin_def Let_def)
  moreover have "outcome (sequence
      [WritePacket a (ServerToClientHandshake jwt), update (logConn a (EncryptionOn secret)), setState a stateAwaitClientHandshake])
      ?st1 (enter a stateAwaitClientHandshake ?st1)"
    using r logs.refl
    by (auto intro!: outcome_andThen outcome_ok outcome_setState intro: outcome_delivers [where base = ?st1])
  ultimately show ?thesis by (simp add: outcome_def)
qed

lemma client_handshake_outcome:
  assumes "reliable st"
  shows "outcome (handleClientToServerHandshake P a) st (enter a stateAwaitResourcePackResponse st)"
proof -
  let ?st1 = "enter a stateAwaitResourcePackResponse st"
  have "reliable ?st1" using assms by (simp add: reliable_setClient)
  then show ?thesis
    unfolding handleClientToServerHandshake_def using outcome_setState [OF logs.refl, of a _ st]
    by (auto intro!: outcome_andThen [of _ _ ?st1] outcome_ok intro: outcome_delivers [where base = ?st1])
qed

lemma startGame_outcome:
  assumes "reliable st" and "uuidParse (loginLib P) (Identity (loginIdentity (login (clients st a)))) = Some u"
  shows "\<exists>pl. outcome (startGame P env a) st (enter a stateAwaitChunkRadius
     (register a pl (takeID a st)))"
proof -
  let ?st2 = "takeID a st"
  have t: "setClient a (\<lambda>cl. cl\<lparr>runtimeID := nextID (handler st) + 1\<rparr>) (setHandler (\<lambda>h. h\<lparr>nextID := nextID (handler st) + 1\<rparr>) st) = ?st2"
    by (simp add: takeID_def setClient_def setHandler_def)
  obtain pl where i: "initPlayerState P a ?st2 = (None, setClient a (\<lambda>cl. cl\<lparr>player := pl\<rparr>) ?st2)"
    using initPlayerState_ok [of P ?st2 a u] assms(2) by (auto simp: takeID_fields)
  let ?st3 = "setClient a (\<lambda>cl. cl\<lparr>player := pl\<rparr>) ?st2"
  let ?st4 = "register a pl ?st2"
  obtain existing where p: "addPlayer a ?st3 = (existing, ?st4)"
    by (simp add: addPlayer_def register_def notify_def setClient_def setHandler_def)
  have "reliable ?st4"
    using assms(1) by (simp add: reliable_setHandler reliable_setClient register_def notify_def takeID_def)
  then have "outcome (sequence [WritePacket a JigsawStructureData, WritePacket a VoxelShapes,
      reading (\<lambda>st. WritePacket a (startGamePacket P env (cfg st) (clients st a))), WritePacket a ItemRegistry,
      sendAvailableCommands P a, sendInitialPlayerSync P a existing, setState a stateAwaitChunkRadius]) ?st4 (enter a stateAwaitChunkRadius ?st4)"
    using logs.refl
    by (auto intro!: outcome_andThen outcome_ok outcome_setState intro: outcome_delivers [where base = ?st4])
  then have "outcome (startGame P env a) st (enter a stateAwaitChunkRadius ?st4)"
    using i p by (simp add: outcome_def startGame_def nextRuntimeID_def Let_def andThen_def t)
  then show ?thesis by blast
qed

lemma finish_outcome:
  assumes "reliable st" and "uuidParse (loginLib P) (Identity (loginIdentity (login (clients st a)))) = Some u"
    and "state (clients st a) = stateAwaitResourcePackResponse"
  shows "\<exists>base. outcome (finishResourcePackFlow P env a) st base \<and> reliable base \<and> state (clients base a) = stateAwaitChunkRadius \<and>
    runtimeID (clients base a) = nextID (handler st) + 1 \<and> registered base (nextID (handler st) + 1) a \<and> cfg base = cfg st \<and>
    login (clients base a) = login (clients st a)"
proof -
  let ?sent = "setClient a (\<lambda>cl. cl\<lparr>resourcePackStackSent := True\<rparr>) st"
  let ?pre = "if resourcePacks (cfg st) \<noteq> [] \<and> \<not> resourcePackStackSent (clients st a) then ?sent else st"
  have rs: "reliable ?sent" using assms(1) by (simp add: reliable_setClient)
  then have r: "reliable ?pre" using assms(1) by simp
  have "outcome (sendResourcePackStack P a) st ?sent" if "\<not> resourcePackStackSent (clients st a)"
    unfolding sendResourcePackStack_def using that rs logs.refl
    by (auto intro!: outcome_reading outcome_andThen [of _ _ ?sent] outcome_update outcome_ok
        intro: outcome_delivers [OF delivers.writes(1)])
  then have pre: "outcome (if resourcePacks (cfg st) \<noteq> [] \<and> \<not> resourcePackStackSent (clients st a) then sendResourcePackStack P a else ok) st ?pre"
    using logs.refl by (auto intro: outcome_ok)
  then obtain st1 where st1: "only_logs ?pre st1"
    "(if resourcePacks (cfg st) \<noteq> [] \<and> \<not> resourcePackStackSent (clients st a) then sendResourcePackStack P a else ok) st = (None, st1)"
    unfolding outcome_def by blast
  have r1: "reliable st1" using r st1(1) only_logs_reliable by blast
  have l: "login (clients st1 a) = login (clients st a)" "handler st1 = handler st"
    using only_logs_fields(1,4) [OF st1(1)] by (auto simp: setClient_def)
  then obtain pl where g: "outcome (startGame P env a) st1 (enter a stateAwaitChunkRadius
     (register a pl (takeID a st1)))"
    (is "outcome _ _ ?base") using startGame_outcome [OF r1, of P a u env] assms(2) by auto
  have "outcome (finishResourcePackFlow P env a) st ?base"
    using g st1(2) assms(3) by (auto simp: outcome_def finishResourcePackFlow_def reading_def andThen_def ok_def)
  moreover have "reliable ?base"
    using r1 by (simp add: reliable_setHandler reliable_setClient register_def notify_def takeID_def)
  moreover have "nextID (handler st) + 1 = runtimeID (clients (takeID a st1) a)" by (simp add: takeID_fields l)
  then have "registered ?base (nextID (handler st) + 1) a"
    by (simp add: registered_def register_def notify_def setHandler_def setClient_def map_of_SomeD update_conv')
  ultimately show ?thesis
    by (intro exI [of _ ?base]) (simp add: setHandler_def setClient_def register_def notify_def takeID_def l)
qed

lemma sequence_append: "sequence (xs @ ys) = andThen (sequence xs) (sequence ys)"
  by (induction xs) (auto simp: andThen_def ok_def fun_eq_iff split: prod.splits option.splits)

lemma SendInitial_delivers:
  assumes "\<forall>n k. ctx n k = None" and "\<forall>pos. \<exists>c. provChunk (pubSource pub) (\<lambda>k. None) pos = Inr c"
    and "0 \<le> pubRadius pub" and "pubRadius pub \<le> 23169"
  shows "delivers (SendInitial P ctx pub a)"
proof -
  have n: "ctx n = (\<lambda>k. None)" for n using assms(1) by auto
  have "delivers (sendChunk P (ctx n) (pubSource pub) a pos)" for n pos
    unfolding sendChunk_def n using assms(2) by (auto split: sum.split) (metis Inl_Inr_False)
  then show ?thesis
    unfolding SendInitial_def Flush_def Let_def chunkPositions_offsets [OF assms(3,4)]
    by (auto intro!: delivers.sequence)
qed

lemma chunk_radius_outcome:
  assumes "reliable st" and "1 \<le> requested" and "delivers (SendInitial P (envCtx env) (chunks (cfg st)) a)"
  shows "outcome (handleRequestChunkRadius P env a requested) st
    (enter a stateAwaitInitialised (setClient a (\<lambda>cl. cl\<lparr>chunksSent := True\<rparr>) st))"
proof -
  let ?sent = "setClient a (\<lambda>cl. cl\<lparr>chunksSent := True\<rparr>)"
  have i: "outcome (SendInitial P (envCtx env) (chunks (cfg st)) a) st1 st" if "only_logs st st1" for st1
    using assms(3,1) that by (rule outcome_delivers)
  have u: "outcome (update ?sent) st1 (?sent st)" if "only_logs st st1" for st1
    using that by (intro outcome_update only_logs_setClient) simp_all
  have r: "reliable (?sent st)" using assms(1) by (simp add: reliable_setClient)
  have "outcome (if \<not> chunksSent (clients st a) then sequence [SendInitial P (envCtx env) (chunks (cfg st)) a, update ?sent] else ok)
      st1 (?sent st)" if l: "only_logs st st1" for st1
  proof (cases "chunksSent (clients st a)")
    case True
    then have "(clients st a)\<lparr>chunksSent := True\<rparr> = clients st a" by (intro MCPEClient.equality) simp_all
    then have "?sent st = st" by (simp add: setClient_def)
    then show ?thesis using True l by (simp add: outcome_ok)
  next
    case False
    then show ?thesis using u by (auto intro!: outcome_andThen [OF i [OF l]] outcome_andThen [of _ _ "?sent st"] outcome_ok)
  qed
  note mid = this
  have chain: "outcome (sequence [w1, w2, w3, w4, mid, w5, setState a s]) st (enter a s (?sent st))"
    if d: "delivers w1" "delivers w2" "delivers w3" "delivers w4" "delivers w5"
      and m: "\<And>st1. only_logs st st1 \<Longrightarrow> outcome mid st1 (?sent st)" for w1 w2 w3 w4 w5 mid s
  proof -
    have "delivers (sequence [w1, w2, w3, w4])" using d by auto
    then have "outcome (sequence [w1, w2, w3, w4]) st st" using assms(1) logs.refl by (rule outcome_delivers)
    moreover have "outcome (sequence [mid, w5, setState a s]) st1 (enter a s (?sent st))" if "only_logs st st1" for st1
      using m [OF that] r d(5)
      by (auto intro!: outcome_andThen [of _ _ "?sent st"] outcome_andThen [OF outcome_setState] outcome_ok
          intro: outcome_delivers)
    ultimately have "outcome (sequence ([w1, w2, w3, w4] @ [mid, w5, setState a s])) st (enter a s (?sent st))"
      unfolding sequence_append by (rule outcome_andThen)
    then show ?thesis by simp
  qed
  show ?thesis
    unfolding handleRequestChunkRadius_def using assms(2)
    by (auto simp: Let_def simp del: sequence_Cons sequence_Nil intro!: outcome_reading chain mid)
qed

lemma initialised_outcome:
  assumes "reliable st"
  shows "outcome (handleSetLocalPlayerAsInitialised P a (runtimeID (clients st a))) st (enter a stateSpawned st)"
proof -
  let ?st1 = "enter a stateSpawned st"
  have "reliable ?st1" using assms by (simp add: reliable_setClient)
  then show ?thesis
    unfolding handleSetLocalPlayerAsInitialised_def using outcome_setState [OF logs.refl, of a _ st]
    by (auto intro!: outcome_reading outcome_andThen [of _ _ ?st1] outcome_ok intro: outcome_delivers [where base = ?st1])
qed

text \<open>The packets of a client that logs in and joins, answering the server's runtime ID \<open>n\<close> at the end.\<close>

definition joinPackets :: "proto \<Rightarrow> bytes \<Rightarrow> int \<Rightarrow> u64 \<Rightarrow> client_packet list" where
  "joinPackets P request radius n =
     [RequestNetworkSettings (i32 (CurrentProtocol P)), Login (i32 (CurrentProtocol P)) request, ClientToServerHandshake,
      ResourcePackClientResponse PackResponseCompleted [], RequestChunkRadius radius, SetLocalPlayerAsInitialised n]"

lemma HandlePacket_outcome:
  assumes "state (clients st a) \<noteq> stateDisconnected" and "outcome (dispatch P env a pk) st base"
  shows "\<exists>st'. HandlePacket P env a pk st = (None, st') \<and> only_logs base st'"
  using assms by (auto simp: outcome_def HandlePacket_def)

text \<open>What the login library and the world must provide for a login to go through.\<close>

definition login_ready :: "proto \<Rightarrow> env \<Rightarrow> bytes \<Rightarrow> mcpe \<Rightarrow> bool" where
  "login_ready P env request st \<longleftrightarrow> (\<exists>data key salt reply u.
     loginParse (loginLib P) request = Some data \<and> (onlineMode (cfg st) \<longrightarrow> XBOXLiveAuthenticated (loginAuth data)) \<and>
     privateKey (handler st) = Some key \<and> AuthPublicKey (loginAuth data) \<noteq> None \<and> envSalt env = Some salt \<and>
     newHandshake (loginLib P) (AuthPublicKey (loginAuth data)) key salt = Inr reply \<and>
     uuidParse (loginLib P) (Identity (loginIdentity data)) = Some u)"

definition world_ready :: "env \<Rightarrow> mcpe \<Rightarrow> bool" where
  "world_ready env st \<longleftrightarrow> (\<forall>n k. envCtx env n k = None) \<and>
     (\<forall>pos. \<exists>c. provChunk (pubSource (chunks (cfg st))) (\<lambda>k. None) pos = Inr c) \<and>
     0 \<le> pubRadius (chunks (cfg st)) \<and> pubRadius (chunks (cfg st)) \<le> 23169"

lemma login_phase:
  assumes "reliable st" and "state (clients st a) \<noteq> stateDisconnected" and "login_ready P env request st"
  shows "\<exists>st' u. handlePackets P env a (take 3 (joinPackets P request radius n)) st = (None, st') \<and> reliable st' \<and> handler st' = handler st \<and>
    state (clients st' a) = stateAwaitResourcePackResponse \<and>
    uuidParse (loginLib P) (Identity (loginIdentity (login (clients st' a)))) = Some u"
proof -
  obtain data key salt reply u where l: "loginParse (loginLib P) request = Some data"
    "onlineMode (cfg st) \<longrightarrow> XBOXLiveAuthenticated (loginAuth data)" "privateKey (handler st) = Some key"
    "AuthPublicKey (loginAuth data) \<noteq> None" "envSalt env = Some salt"
    "newHandshake (loginLib P) (AuthPublicKey (loginAuth data)) key salt = Inr reply"
    "uuidParse (loginLib P) (Identity (loginIdentity data)) = Some u"
    using assms(3) unfolding login_ready_def by blast
  obtain jwt secret where reply: "reply = (jwt, secret)" by (cases reply)
  obtain st1 where st1: "HandlePacket P env a (RequestNetworkSettings (i32 (CurrentProtocol P))) st = (None, st1)"
    "only_logs (enter a stateAwaitLogin st) st1"
    using HandlePacket_outcome [OF assms(2), of P env "RequestNetworkSettings (i32 (CurrentProtocol P))"]
      network_settings_outcome [OF assms(1), of P a] by (auto simp: dispatch_def)
  have f1: "reliable st1" "handler st1 = handler st" "state (clients st1 a) = stateAwaitLogin"
    using only_logs_fields [OF st1(2)] only_logs_reliable [OF st1(2)] assms(1) by (simp_all add: reliable_setClient) (simp_all add: setClient_def)
  have "outcome (dispatch P env a (Login (i32 (CurrentProtocol P)) request)) st1
     (enter a stateAwaitClientHandshake (setClient a (\<lambda>cl. cl\<lparr>login := data\<rparr>) st1))"
    using login_outcome [OF f1(1) l(1) _ _ l(4,5), of key jwt secret a] l(2,3,6) f1(2) reply by (simp add: dispatch_def)
  then obtain st2 where st2: "HandlePacket P env a (Login (i32 (CurrentProtocol P)) request) st1 = (None, st2)"
    "only_logs (enter a stateAwaitClientHandshake (setClient a (\<lambda>cl. cl\<lparr>login := data\<rparr>) st1)) st2"
    using HandlePacket_outcome f1(3) by (metis mcpeSessionState.distinct(25))
  have f2: "reliable st2" "handler st2 = handler st" "state (clients st2 a) = stateAwaitClientHandshake" "login (clients st2 a) = data"
    using only_logs_fields [OF st2(2)] only_logs_reliable [OF st2(2)] f1 by (simp_all add: reliable_setClient) (simp_all add: setClient_def)
  obtain st3 where st3: "HandlePacket P env a ClientToServerHandshake st2 = (None, st3)"
    "only_logs (enter a stateAwaitResourcePackResponse st2) st3"
    using HandlePacket_outcome [of st2 a P env ClientToServerHandshake] client_handshake_outcome [OF f2(1), of P a] f2(3)
    by (auto simp: dispatch_def)
  have f3: "reliable st3" "handler st3 = handler st" "state (clients st3 a) = stateAwaitResourcePackResponse" "login (clients st3 a) = data"
    using only_logs_fields [OF st3(2)] only_logs_reliable [OF st3(2)] f2 by (simp_all add: reliable_setClient) (simp_all add: setClient_def)
  show ?thesis
    using st1(1) st2(1) st3(1) f3 l(7)
    by (auto simp: handlePackets_def joinPackets_def numeral_eq_Suc andThen_def ok_def)
qed

lemma join_phase:
  assumes "reliable st" and "state (clients st a) = stateAwaitResourcePackResponse" and "world_ready env st" and "1 \<le> radius"
    and "uuidParse (loginLib P) (Identity (loginIdentity (login (clients st a)))) = Some u" and "n = nextID (handler st) + 1"
  shows "\<exists>st'. handlePackets P env a (drop 3 (joinPackets P request radius n)) st = (None, st') \<and> reliable st' \<and>
    state (clients st' a) = stateSpawned \<and> runtimeID (clients st' a) = n \<and> registered st' n a \<and> login (clients st' a) = login (clients st a)"
proof -
  let ?p4 = "ResourcePackClientResponse PackResponseCompleted []"
  obtain base where b: "outcome (dispatch P env a ?p4) st base" "reliable base" "state (clients base a) = stateAwaitChunkRadius"
    "runtimeID (clients base a) = n" "registered base n a" "cfg base = cfg st" "login (clients base a) = login (clients st a)"
    using finish_outcome [OF assms(1,5,2)] assms(6) by (auto simp: dispatch_def handleResourcePackClientResponse_def)
  then obtain st4 where st4: "HandlePacket P env a ?p4 st = (None, st4)" "only_logs base st4"
    using HandlePacket_outcome [of st a P env ?p4] assms(2) by auto
  have f4: "reliable st4" "state (clients st4 a) = stateAwaitChunkRadius" "runtimeID (clients st4 a) = n" "handler st4 = handler base"
    "login (clients st4 a) = login (clients st a)"
    using only_logs_fields [OF st4(2)] only_logs_reliable [OF st4(2)] b by simp_all
  have "delivers (SendInitial P (envCtx env) (chunks (cfg st4)) a)"
    using assms(3) f4(4) b(6) unfolding world_ready_def by (intro SendInitial_delivers) simp_all
  then have "outcome (dispatch P env a (RequestChunkRadius radius)) st4
      (enter a stateAwaitInitialised (setClient a (\<lambda>cl. cl\<lparr>chunksSent := True\<rparr>) st4))"
    using chunk_radius_outcome [OF f4(1) assms(4)] by (simp add: dispatch_def)
  then obtain st5 where st5: "HandlePacket P env a (RequestChunkRadius radius) st4 = (None, st5)"
    "only_logs (enter a stateAwaitInitialised (setClient a (\<lambda>cl. cl\<lparr>chunksSent := True\<rparr>) st4)) st5"
    using HandlePacket_outcome [of st4 a P env "RequestChunkRadius radius"] f4(2) by auto
  have f5: "reliable st5" "state (clients st5 a) = stateAwaitInitialised" "runtimeID (clients st5 a) = n" "handler st5 = handler base"
    "login (clients st5 a) = login (clients st a)"
    using only_logs_fields [OF st5(2)] only_logs_reliable [OF st5(2)] f4 by (simp_all add: reliable_setClient) (simp_all add: setClient_def)
  obtain st6 where st6: "HandlePacket P env a (SetLocalPlayerAsInitialised n) st5 = (None, st6)" "only_logs (enter a stateSpawned st5) st6"
    using HandlePacket_outcome [of st5 a P env "SetLocalPlayerAsInitialised n"] initialised_outcome [OF f5(1), of P a] f5(2,3)
    by (auto simp: dispatch_def)
  have "reliable st6" "state (clients st6 a) = stateSpawned" "runtimeID (clients st6 a) = n" "handler st6 = handler base"
    "login (clients st6 a) = login (clients st a)"
    using only_logs_fields [OF st6(2)] only_logs_reliable [OF st6(2)] f5 by (simp_all add: reliable_setClient) (simp_all add: setClient_def)
  then show ?thesis
    using st4(1) st5(1) st6(1) b(5,6)
    by (auto simp: handlePackets_def joinPackets_def numeral_eq_Suc andThen_def ok_def registered_def)
qed

lemma handlePackets_append: "handlePackets P env a (xs @ ys) = andThen (handlePackets P env a xs) (handlePackets P env a ys)"
  by (simp add: handlePackets_def sequence_append)

lemma join_flow:
  assumes "reliable st" and "state (clients st a) \<noteq> stateDisconnected" and "login_ready P env request st"
    and "world_ready env st" and "1 \<le> radius" and "n = nextID (handler st) + 1"
  shows "\<exists>st'. handlePackets P env a (joinPackets P request radius n) st = (None, st') \<and> reliable st' \<and>
    state (clients st' a) = stateSpawned \<and> runtimeID (clients st' a) = n \<and> registered st' n a \<and>
    uuidParse (loginLib P) (Identity (loginIdentity (login (clients st' a)))) \<noteq> None"
proof -
  obtain st1 u where st1: "handlePackets P env a (take 3 (joinPackets P request radius n)) st = (None, st1)" "reliable st1"
    "handler st1 = handler st" "state (clients st1 a) = stateAwaitResourcePackResponse"
    "uuidParse (loginLib P) (Identity (loginIdentity (login (clients st1 a)))) = Some u"
    using login_phase [OF assms(1-3)] by blast
  have "world_ready env st1" using assms(4) st1(3) by (simp add: world_ready_def)
  from join_phase [OF st1(2,4) this assms(5) st1(5), of n request] st1(3) assms(6)
  obtain st2 where "handlePackets P env a (drop 3 (joinPackets P request radius n)) st1 = (None, st2) \<and> reliable st2 \<and>
    state (clients st2 a) = stateSpawned \<and> runtimeID (clients st2 a) = n \<and> registered st2 n a \<and> login (clients st2 a) = login (clients st1 a)" by auto
  moreover have "handlePackets P env a (joinPackets P request radius n) =
    andThen (handlePackets P env a (take 3 (joinPackets P request radius n))) (handlePackets P env a (drop 3 (joinPackets P request radius n)))"
    by (metis append_take_drop_id handlePackets_append)
  ultimately show ?thesis using st1(1,5) by (simp add: andThen_def)
qed

section \<open>A sample run\<close>

definition sampleEnv :: env where
  "sampleEnv = \<lparr>envCtx = (\<lambda>n k. None), envKey = None, envSalt = Some (replicate 16 7), envUUID = ''u''\<rparr>"

definition startedServer :: mcpe where
  "startedServer = fst (initialServer sampleConfig (Some (toyKey 1000)))"

lemma startedServer_reliable: "reliable startedServer"
  by (simp add: reliable_def startedServer_def initialServer_def NewMCPEClient_def goodConn_def Let_def)

lemma startedServer_fields:
  "handler startedServer = sampleHandler\<lparr>privateKey := Some (toyKey 1000)\<rparr>" "state (clients startedServer a) = stateAwaitNetworkSettings"
  "runtimeID (clients startedServer a) = 0" "login (clients startedServer a) = zeroLogin"
  by (simp_all add: startedServer_def initialServer_def sampleHandler_def NewMCPEClient_def Let_def)

lemma sample_handshake: "\<exists>reply. newHandshake sampleLoginLib (Some (privPublic (toyKey 300))) (toyKey 1000) (replicate 16 7) = Inr reply"
proof -
  have b: "bigBytes 1000 = [3, 232]" "bigBytes 300 = [1, 44]" "bigBytes 300000 = [4, 147, 224]"
    by (simp_all add: bigBytes.simps)
  then show ?thesis
    by (simp add: sampleLoginLib_def newServerHandshake_def sharedEncryptionKey_def toyKey_def toyMult_def toyJose_def handshakeSaltBytes_def)
qed

lemma sample_login_ready:
  assumes "request \<noteq> []" and "handler st = handler startedServer"
  shows "login_ready sampleProto sampleEnv request st"
proof -
  let ?data = "the (loginParse sampleLoginLib request)"
  have "loginParse sampleLoginLib request = Some ?data" "XBOXLiveAuthenticated (loginAuth ?data)"
    "AuthPublicKey (loginAuth ?data) = Some (privPublic (toyKey 300))"
    "\<exists>u. uuidParse sampleLoginLib (Identity (loginIdentity ?data)) = Some u"
    using assms(1) by (simp_all add: sampleLoginLib_def)
  then show ?thesis
    using sample_handshake assms(2) unfolding login_ready_def
    by (auto simp: sampleProto_def startedServer_fields sampleEnv_def)
qed

lemma sample_world_ready:
  assumes "cfg st = sampleConfig"
  shows "world_ready sampleEnv st"
proof -
  have "\<exists>c. FlatChunk sampleEncoder defaultGenerator (\<lambda>k. None) pos = Inr c" for pos
    using FlatChunk_spec [OF sampleEncoder_compound defaultGenerator_ok, of "\<lambda>k. None" pos] by auto
  then show ?thesis using assms by (simp add: world_ready_def sampleConfig_def newChunkPublisher_def flatProvider_def sampleEnv_def)
qed

section \<open>From login to spawn\<close>

text \<open>
  C4. A client that follows the protocol is spawned. On connections that do not fail, for a login
  request that the login library accepts (and, in online mode, that Xbox Live authenticated), a
  world that generates its chunks, and any requested radius of at least 1, the six packets of a
  joining client are all handled without error, from any state of the session but
  \<^verbatim>\<open>stateDisconnected\<close>; the session ends in \<^verbatim>\<open>stateSpawned\<close>, under the next free runtime ID, which
  the player table maps to it.
\<close>

theorem protocol_client_spawns:
  assumes "reliable st" and "state (clients st a) \<noteq> stateDisconnected" and "login_ready P env request st"
    and "world_ready env st" and "1 \<le> radius" and "n = nextID (handler st) + 1"
  shows "\<exists>st'. handlePackets P env a (joinPackets P request radius n) st = (None, st') \<and>
    state (clients st' a) = stateSpawned \<and> runtimeID (clients st' a) = n \<and> registered st' n a"
  using join_flow [OF assms] by blast

text \<open>Witness of \<open>protocol_client_spawns\<close>: the first client of a server with the default flat world.\<close>

theorem protocol_client_spawns_witness:
  "\<exists>st'. handlePackets sampleProto sampleEnv 3 (joinPackets sampleProto [65, 66] 8 1) startedServer = (None, st') \<and>
    state (clients st' 3) = stateSpawned \<and> runtimeID (clients st' 3) = 1 \<and> registered st' 1 3"
proof (rule protocol_client_spawns)
  show "login_ready sampleProto sampleEnv [65, 66] startedServer" by (rule sample_login_ready) simp_all
  show "world_ready sampleEnv startedServer" by (rule sample_world_ready) (simp add: startedServer_fields sampleHandler_def)
qed (simp_all add: startedServer_reliable startedServer_fields sampleHandler_def)

text \<open>Packets that are handled without error are steps of the server.\<close>

lemma andThen_ok: "andThen f ok = f"
  by (auto simp: andThen_def ok_def fun_eq_iff split: prod.split option.split)

lemma handlePackets_reach:
  assumes "reach P hc key m (st, cs)" and "cs a = Open" and "handlePackets P env a pks st = (None, st')"
  shows "reach P hc key (m + length pks) (st', cs)"
  using assms
proof (induction pks arbitrary: m st)
  case Nil
  then show ?case by (simp add: handlePackets_def ok_def)
next
  case (Cons pk pks)
  obtain st1 where st1: "HandlePacket P env a pk st = (None, st1)" "handlePackets P env a pks st1 = (None, st')"
    using andThen_None [of "HandlePacket P env a pk" "handlePackets P env a pks" st st'] Cons.prems(3)
    by (auto simp: handlePackets_def)
  have "reach P hc key (Suc m) (st1, cs)"
    using Cons.prems(1,2) st1(1) by (blast intro: reach.next_step step.handled)
  from Cons.IH [OF this Cons.prems(2) st1(2)] show ?case by simp
qed

lemma sample_reach:
  obtains st where "reach sampleProto sampleConfig (Some (toyKey 1000)) 7 (st, (\<lambda>a. Idle)(3 := Open))"
    and "reliable st" and "state (clients st 3) = stateSpawned" and "runtimeID (clients st 3) = 1" and "registered st 1 3"
    and "uuidParse (loginLib sampleProto) (Identity (loginIdentity (login (clients st 3)))) \<noteq> None"
proof -
  have i: "initialServer sampleConfig (Some (toyKey 1000)) = (startedServer, \<lambda>a. Idle)"
    by (simp add: startedServer_def initialServer_def Let_def)
  let ?st0 = "setClient 3 (\<lambda>cl. NewMCPEClient (handler startedServer) goodConn) startedServer"
  have "step sampleProto (startedServer, \<lambda>a. Idle) (?st0, (\<lambda>a. Idle)(3 := Open))"
    by (rule step.connect) (simp_all add: goodConn_def)
  then have r: "reach sampleProto sampleConfig (Some (toyKey 1000)) 1 (?st0, (\<lambda>a. Idle)(3 := Open))"
    using reach.start [of sampleProto sampleConfig "Some (toyKey 1000)"] unfolding i One_nat_def by (blast intro: reach.next_step)
  have h: "handler ?st0 = handler startedServer" by (simp add: setClient_def)
  have "\<exists>st'. handlePackets sampleProto sampleEnv 3 (joinPackets sampleProto [65, 66] 8 1) ?st0 = (None, st') \<and> reliable st' \<and>
    state (clients st' 3) = stateSpawned \<and> runtimeID (clients st' 3) = 1 \<and> registered st' 1 3 \<and>
    uuidParse (loginLib sampleProto) (Identity (loginIdentity (login (clients st' 3)))) \<noteq> None"
  proof (rule join_flow)
    show "reliable ?st0" using startedServer_reliable by (simp add: reliable_def setClient_def NewMCPEClient_def goodConn_def)
    show "login_ready sampleProto sampleEnv [65, 66] ?st0" by (rule sample_login_ready) (simp_all add: h)
    show "world_ready sampleEnv ?st0" by (rule sample_world_ready) (simp add: setClient_def startedServer_fields sampleHandler_def)
  qed (simp_all add: setClient_def NewMCPEClient_def startedServer_fields sampleHandler_def)
  then obtain st' where st': "handlePackets sampleProto sampleEnv 3 (joinPackets sampleProto [65, 66] 8 1) ?st0 = (None, st')"
    "reliable st'" "state (clients st' 3) = stateSpawned" "runtimeID (clients st' 3) = 1" "registered st' 1 3"
    "uuidParse (loginLib sampleProto) (Identity (loginIdentity (login (clients st' 3)))) \<noteq> None" by blast
  have "reach sampleProto sampleConfig (Some (toyKey 1000)) (1 + length (joinPackets sampleProto [65, 66] 8 1)) (st', (\<lambda>a. Idle)(3 := Open))"
    using handlePackets_reach [OF r _ st'(1)] by simp
  then show thesis using that st'(2-6) by (simp add: joinPackets_def numeral_eq_Suc)
qed

text \<open>
  C1. Only authenticated players are in the table. In every state the server reaches (whatever
  packets the clients send, in whatever order, and whichever writes fail) each entry of the player
  table belongs to a session whose login data the login library accepted, authenticated by Xbox Live if the
  server is in online mode, whose encryption was switched on, and whose UUID was parsed from the
  identity of such login data.
\<close>

theorem registered_players_authenticated:
  assumes "reach P hc key m (st, cs)" and "m < 2 ^ 64" and "uuidParse (loginLib P) [] = None" and "registered st n a"
  shows "(\<exists>request. loginParse (loginLib P) request = Some (login (clients st a))) \<and>
    (onlineMode hc \<longrightarrow> XBOXLiveAuthenticated (loginAuth (login (clients st a)))) \<and>
    (\<exists>secret. EncryptionOn secret \<in> set (connLog (conn (clients st a)))) \<and>
    (\<exists>request l. loginParse (loginLib P) request = Some l \<and> (onlineMode hc \<longrightarrow> XBOXLiveAuthenticated (loginAuth l)) \<and>
       uuidParse (loginLib P) (Identity (loginIdentity l)) = Some (playerUUID (player (clients st a))))"
proof -
  have "server_ok P hc (st, cs)" using reach_server_ok [OF assms(1-3)] by simp
  then have "accepted P hc (login (clients st a))" "identified P hc (playerUUID (player (clients st a)))" "encrypted (clients st a)"
    using assms(4) by (auto simp: server_ok_def players_ok_def Let_def)
  then show ?thesis by (auto simp: accepted_def identified_def encrypted_def)
qed

text \<open>Witness of \<open>registered_players_authenticated\<close>: a player that joined a server in online mode.\<close>

theorem registered_players_authenticated_witness:
  "\<exists>st cs. reach sampleProto sampleConfig (Some (toyKey 1000)) 7 (st, cs) \<and> registered st 1 3 \<and>
     XBOXLiveAuthenticated (loginAuth (login (clients st 3))) \<and> (\<exists>secret. EncryptionOn secret \<in> set (connLog (conn (clients st 3))))"
proof -
  obtain st where st: "reach sampleProto sampleConfig (Some (toyKey 1000)) 7 (st, (\<lambda>a. Idle)(3 := Open))" "registered st 1 3"
    by (rule sample_reach)
  have "onlineMode sampleConfig" by (simp add: sampleConfig_def)
  moreover have "uuidParse (loginLib sampleProto) [] = None" by (simp add: sampleProto_def sampleLoginLib_def)
  ultimately show ?thesis using registered_players_authenticated [OF st(1) _ _ st(2)] st by fastforce
qed

text \<open>
  C7. Runtime IDs identify players. In every state reached in fewer than \<open>2^64\<close> steps the table has one
  entry per runtime ID, none for ID 0, every ID it uses was handed out by the counter, and two sessions
  that both have a runtime ID have different ones.
\<close>

theorem runtime_ids_unique:
  assumes "reach P hc key m (st, cs)" and "m < 2 ^ 64" and "uuidParse (loginLib P) [] = None"
  shows "wf_map (players (handler st)) \<and>
    (\<forall>n a. registered st n a \<longrightarrow> n \<noteq> 0 \<and> n \<le> runtimeID (clients st a)) \<and>
    (\<forall>a. runtimeID (clients st a) \<le> nextID (handler st)) \<and> unat (nextID (handler st)) \<le> m \<and>
    (\<forall>a b. a \<noteq> b \<longrightarrow> runtimeID (clients st a) \<noteq> 0 \<longrightarrow> runtimeID (clients st a) \<noteq> runtimeID (clients st b))"
  using reach_server_ok [OF assms] by (simp add: server_ok_def ids_ok_def players_ok_def Let_def)

text \<open>Witness of \<open>runtime_ids_unique\<close>.\<close>

theorem runtime_ids_unique_witness:
  "\<exists>st cs. reach sampleProto sampleConfig (Some (toyKey 1000)) 7 (st, cs) \<and> runtimeID (clients st 3) = 1 \<and>
     runtimeID (clients st 4) \<noteq> 1 \<and> nextID (handler st) \<noteq> 0"
proof -
  obtain st where st: "reach sampleProto sampleConfig (Some (toyKey 1000)) 7 (st, (\<lambda>a. Idle)(3 := Open))"
    "runtimeID (clients st 3) = 1" by (rule sample_reach)
  have "uuidParse (loginLib sampleProto) [] = None" by (simp add: sampleProto_def sampleLoginLib_def)
  from runtime_ids_unique [OF st(1) _ this]
  have u: "runtimeID (clients st 3) \<le> nextID (handler st)" 
    "\<And>a b. a \<noteq> b \<Longrightarrow> runtimeID (clients st a) \<noteq> 0 \<Longrightarrow> runtimeID (clients st a) \<noteq> runtimeID (clients st b)" by simp_all
  have "runtimeID (clients st 4) \<noteq> 1" using u(2) [of 3 4] st(2) by simp
  moreover have "nextID (handler st) \<noteq> 0" using u(1) st(2) by auto
  ultimately show ?thesis using st by blast
qed

text \<open>Witness of \<open>leave_announced\<close>: a spawned player leaves, and a second spawned player is told.\<close>

definition twoPlayers :: mcpe where
  "twoPlayers = startedServer
     \<lparr>handler := (handler startedServer)\<lparr>players := [(1, 3), (2, 4)], nextID := 2\<rparr>,
      clients := (\<lambda>a. (clients startedServer a)\<lparr>runtimeID := (if a = 3 then 1 else if a = 4 then 2 else 0),
        state := (if a = 3 \<or> a = 4 then stateSpawned else stateAwaitLogin)\<rparr>)\<rparr>"

theorem leave_announced_witness:
  "connLog (conn (clients (OnDisconnect 3 twoPlayers) 4)) =
     connLog (conn (clients twoPlayers 4)) @ map Sent (leavePackets (clients twoPlayers 3)) \<and>
   length (leavePackets (clients twoPlayers 3)) = 3 \<and> registered (OnDisconnect 3 twoPlayers) 2 4"
proof -
  have "reliable twoPlayers" using startedServer_reliable by (simp add: reliable_def twoPlayers_def)
  moreover have "registered twoPlayers (runtimeID (clients twoPlayers 3)) 3" "registered twoPlayers 2 4"
    by (simp_all add: registered_def twoPlayers_def)
  moreover have "wf_map (players (handler twoPlayers))"
    "runtimeID (clients twoPlayers 3) = 1" "state (clients twoPlayers 4) = stateSpawned" "state (clients twoPlayers 3) = stateSpawned"
    by (simp_all add: twoPlayers_def)
  moreover have "players (handler (OnDisconnect 3 twoPlayers)) = [(2, 4)]"
    using OnDisconnect_players(1) [of twoPlayers 3] by (simp add: twoPlayers_def)
  ultimately show ?thesis using leave_announced [of twoPlayers 3] by (auto simp: leavePackets_def)
qed

section \<open>What the router does not check\<close>

lemma chat_outcome:
  assumes "reliable st" and "state (clients st a) = stateSpawned" and "txtType pk = TextTypeChat"
    and "message = cleanChatMessage (txtMessage pk)" and "message \<noteq> []" and "\<not> HasPrefix message ''/''"
  shows "\<exists>t st'. handleText P a pk st = (None, st') \<and> only_logs st st' \<and> txtMessage t = message \<and>
    (\<forall>b n. registered st n b \<longrightarrow> state (clients st b) = stateSpawned \<longrightarrow> Sent (ServerText t) \<in> set (connLog (conn (clients st' b))))"
proof -
  let ?t = "\<lparr>txtType = TextTypeChat, txtSourceName = clientName st a, txtMessage = message, txtParameters = [],
        txtXUID = XUID (loginIdentity (login (clients st a))), txtPlatformChatID = txtPlatformChatID pk,
        txtFilteredMessage = txtFilteredMessage pk\<rparr>"
  have e: "handleText P a pk st = writePacketToClients (spawnedPlayers st) (ServerText ?t) st"
    using assms(2-6) by (simp add: handleText_def reading_def Let_def broadcastText_def)
  obtain st' where st': "writePacketToClients (spawnedPlayers st) (ServerText ?t) st = (None, st')" "only_logs st st'"
    using deliversD [OF delivers.sends(1) assms(1)] by blast
  have "Sent (ServerText ?t) \<in> set (connLog (conn (clients st' b)))" if "registered st n b" "state (clients st b) = stateSpawned" for b n
  proof -
    have "b \<in> set (spawnedPlayers st)" using that by (auto simp: spawnedPlayers_set)
    then have "count_list (spawnedPlayers st) b \<noteq> 0" by (simp add: count_list_0_iff)
    then show ?thesis using broadcast_log [OF assms(1), of "spawnedPlayers st" "ServerText ?t" b] st'(1) by simp
  qed
  then show ?thesis using e st' by (intro exI [of _ ?t] exI [of _ st']) simp
qed

text \<open>
  C35. No login is needed to chat. A client that has just connected, and has sent no login, can send
  \<^verbatim>\<open>SetLocalPlayerAsInitialised\<close> with runtime ID 0, the value its session starts with, and then a chat
  message: both are accepted, its session is in \<^verbatim>\<open>stateSpawned\<close> with empty login data, and every
  spawned player receives the message, in online mode too. The router checks no session state.
\<close>

theorem unauthenticated_chat:
  assumes "reliable st" and "clients st a = NewMCPEClient (handler st) c"
    and "txtType pk = TextTypeChat" and "message = cleanChatMessage (txtMessage pk)" and "message \<noteq> []" and "\<not> HasPrefix message ''/''"
  shows "\<exists>st' t. handlePackets P env a [SetLocalPlayerAsInitialised 0, ClientText pk] st = (None, st') \<and>
    state (clients st' a) = stateSpawned \<and> login (clients st' a) = zeroLogin \<and> txtMessage t = message \<and>
    (\<forall>b n. registered st n b \<longrightarrow> state (clients st b) = stateSpawned \<longrightarrow> Sent (ServerText t) \<in> set (connLog (conn (clients st' b))))"
proof -
  have c: "runtimeID (clients st a) = 0" "login (clients st a) = zeroLogin" "state (clients st a) \<noteq> stateDisconnected"
    using assms(2) by (simp_all add: NewMCPEClient_def)
  obtain st1 where st1: "HandlePacket P env a (SetLocalPlayerAsInitialised 0) st = (None, st1)" "only_logs (enter a stateSpawned st) st1"
    using HandlePacket_outcome [OF c(3), of P env "SetLocalPlayerAsInitialised 0"] initialised_outcome [OF assms(1), of P a] c(1)
    by (auto simp: dispatch_def)
  have f: "reliable st1" "state (clients st1 a) = stateSpawned" "login (clients st1 a) = zeroLogin" "handler st1 = handler st"
    "\<And>b. state (clients st b) = stateSpawned \<Longrightarrow> state (clients st1 b) = stateSpawned"
    using only_logs_fields [OF st1(2)] only_logs_reliable [OF st1(2)] assms(1) c by (simp_all add: reliable_setClient) (simp_all add: setClient_def)
  obtain t st2 where st2: "handleText P a pk st1 = (None, st2)" "only_logs st1 st2" "txtMessage t = message"
    "\<forall>b n. registered st1 n b \<longrightarrow> state (clients st1 b) = stateSpawned \<longrightarrow> Sent (ServerText t) \<in> set (connLog (conn (clients st2 b)))"
    using chat_outcome [OF f(1,2) assms(3-6), of P] by blast
  have "HandlePacket P env a (ClientText pk) st1 = (None, st2)" using st2(1) f(2) by (simp add: HandlePacket_def dispatch_def)
  then have "handlePackets P env a [SetLocalPlayerAsInitialised 0, ClientText pk] st = (None, st2)"
    using st1(1) by (simp add: handlePackets_def andThen_def ok_def)
  moreover have "state (clients st2 a) = stateSpawned" "login (clients st2 a) = zeroLogin"
    using only_logs_fields [OF st2(2)] f by simp_all
  moreover have "Sent (ServerText t) \<in> set (connLog (conn (clients st2 b)))"
    if "registered st n b" "state (clients st b) = stateSpawned" for b n
    using that st2(4) f(4,5) by (auto simp: registered_def)
  ultimately show ?thesis using st2(3) by blast
qed

text \<open>Witness of \<open>unauthenticated_chat\<close>: client 7 speaks to the players 3 and 4 of a server in online mode.\<close>

theorem unauthenticated_chat_witness:
  "\<exists>st' t. handlePackets sampleProto sampleEnv 7 [SetLocalPlayerAsInitialised 0, ClientText (plainText TextTypeChat ''hi'')]
      (setClient 7 (\<lambda>cl. NewMCPEClient (handler twoPlayers) goodConn) twoPlayers) = (None, st') \<and>
    txtMessage t = ''hi'' \<and> Sent (ServerText t) \<in> set (connLog (conn (clients st' 4)))"
proof -
  let ?st = "setClient 7 (\<lambda>cl. NewMCPEClient (handler twoPlayers) goodConn) twoPlayers"
  have t: "TrimSpace ''hi'' = ''hi''" by (rule TrimSpace_trimmed, rule trimmedI) (simp add: printable_def)
  have "reliable ?st" using startedServer_reliable by (simp add: reliable_def twoPlayers_def setClient_def NewMCPEClient_def goodConn_def)
  moreover have "clients ?st 7 = NewMCPEClient (handler ?st) goodConn" by (simp add: setClient_def)
  moreover have "''hi'' = cleanChatMessage (txtMessage (plainText TextTypeChat ''hi''))" "txtType (plainText TextTypeChat ''hi'') = TextTypeChat"
    "\<not> HasPrefix ''hi'' ''/''"
    by (simp_all add: cleanChatMessage_def plainText_def t HasPrefix_def maxChatMessageBytes_def)
  moreover have "registered ?st 2 4" "state (clients ?st 4) = stateSpawned"
    by (simp_all add: registered_def twoPlayers_def setClient_def)
  ultimately show ?thesis using unauthenticated_chat [of ?st 7 goodConn "plainText TextTypeChat ''hi''" "''hi''"] by blast
qed

text \<open>The actions that never report a packet as unhandled.\<close>

definition handles :: "action \<Rightarrow> bool" where
  "handles act \<longleftrightarrow> (\<forall>st. fst (act st) \<noteq> Some UnhandledPacket)"

interpretation handles: sending handles
proof
  show "handles (andThen f g)" if "handles f" and "handles g" for f g
    using that unfolding handles_def andThen_def by (auto split: prod.splits option.splits) (metis fst_conv)+
  show "handles (writeEvent a ev)" for a ev
    by (simp add: handles_def writeEvent_def writeConn_def Let_def)
qed (auto simp: handles_def ok_def reading_def ignoreError_def)

lemma handles_update [intro!]: "handles (update f)" "handles (setState a s)"
  by (simp_all add: handles_def update_def setState_def)

lemma handles_startGame [intro!]: "handles (startGame P env a)"
proof -
  have i: "handles (initPlayerState P a)"
    unfolding initPlayerState_def by (auto simp: Let_def split: option.split) (simp add: handles_def fail_def)
  have p: "handles (\<lambda>st3. let (existing, st4) = addPlayer a st3 in f existing st4)" if "\<And>existing. handles (f existing)" for f
    using that by (simp add: handles_def split: prod.split)
  have "handles (andThen (initPlayerState P a) (\<lambda>st3. let (existing, st4) = addPlayer a st3 in
     sequence [WritePacket a JigsawStructureData, WritePacket a VoxelShapes,
              reading (\<lambda>st. WritePacket a (startGamePacket P env (cfg st) (clients st a))),
              WritePacket a ItemRegistry, sendAvailableCommands P a, sendInitialPlayerSync P a existing,
              setState a stateAwaitChunkRadius] st4))"
    by (intro handles.andThen i p handles.sequence) auto
  then show ?thesis unfolding startGame_def handles_def by (simp add: Let_def split: prod.split)
qed

lemma HandlePacket_handles:
  assumes "HandlePacket P env a pk st = (None, st')" and "state (clients st a) \<noteq> stateDisconnected" and "handles (dispatch P env a pk)"
  shows "dispatch P env a pk st = (None, st')"
proof -
  obtain r st1 where d: "dispatch P env a pk st = (r, st1)" by fastforce
  then have "r \<noteq> Some UnhandledPacket" using assms(3) by (metis fst_conv handles_def)
  then show ?thesis using assms(1,2) d by (auto simp: HandlePacket_def split: option.splits server_error.splits)
qed

lemma setState_andThen: "andThen (setState a s) g st = g (enter a s st)"
  by (simp add: andThen_def setState_def update_def)

lemma client_handshake_state:
  assumes "HandlePacket P env a ClientToServerHandshake st = (None, st')" and "state (clients st a) \<noteq> stateDisconnected"
  shows "state (clients st' a) = stateAwaitResourcePackResponse" and "quiet st st'"
proof -
  let ?st1 = "enter a stateAwaitResourcePackResponse st"
  let ?rest = "sequence [WritePacket a (PlayStatus LoginSuccess), sendResourcePackInfo P a]"
  have "handles (dispatch P env a ClientToServerHandshake)"
    unfolding dispatch_def handleClientToServerHandshake_def by (simp del: sequence_Cons) (intro handles.sequence, auto)
  from HandlePacket_handles [OF assms this]
  have h: "handleClientToServerHandshake P a st = (None, st')" by (simp add: dispatch_def)
  have "frames only_logs ?rest" by (intro logs.sequence) auto
  moreover have "?rest ?st1 = (None, st')"
    using h by (simp add: handleClientToServerHandshake_def setState_andThen)
  ultimately have "only_logs ?st1 st'" unfolding frames_def by (metis snd_conv)
  from only_logs_fields(2) [OF this, of a] show "state (clients st' a) = stateAwaitResourcePackResponse" by (simp add: setClient_def)
  show "quiet st st'" using quietD [OF quiet_packs(4) h] .
qed

lemma completed_effect:
  assumes "HandlePacket P env a (ResourcePackClientResponse PackResponseCompleted []) st = (None, st')"
    and "state (clients st a) = stateAwaitResourcePackResponse"
  shows "\<exists>st1 pl. quiet st st1 \<and> quiet (register a pl (takeID a st1)) st'"
proof -
  let ?pk = "ResourcePackClientResponse PackResponseCompleted []"
  have s: "handles (sendResourcePackStack P a)"
    unfolding sendResourcePackStack_def by auto
  then have "handles (dispatch P env a ?pk)"
    unfolding dispatch_def handleResourcePackClientResponse_def finishResourcePackFlow_def by auto
  from HandlePacket_handles [OF assms(1) _ this] assms(2)
  have "finishResourcePackFlow P env a st = (None, st')" by (simp add: dispatch_def handleResourcePackClientResponse_def)
  moreover define pre where
    "pre = (if resourcePacks (cfg st) \<noteq> [] \<and> \<not> resourcePackStackSent (clients st a) then sendResourcePackStack P a else ok)"
  ultimately have "sequence [pre, startGame P env a] st = (None, st')"
    using assms(2) by (simp add: finishResourcePackFlow_def reading_def)
  then obtain st1 st2 where "pre st = (None, st1)" "startGame P env a st1 = (None, st2)" "ok st2 = (None, st')"
    by (auto dest!: andThen_None)
  moreover have p: "frames quiet pre" unfolding pre_def by auto
  ultimately show ?thesis using quietD [OF p(1)] startGame_effect [of P env a st1 None st'] by (auto simp: ok_def)
qed

text \<open>
  C36. A ghost player. A registered client may send \<^verbatim>\<open>ClientToServerHandshake\<close> and the completed
  resource pack response again; if they are handled, it is registered a second time under a new
  runtime ID, and when it disconnects only the new entry is removed: the old one stays in the table
  although the session has ended, so the player is still counted and listed.
\<close>

theorem ghost_player:
  assumes "reach P hc key m (st, cs)" and "m + 2 < 2 ^ 64" and "uuidParse (loginLib P) [] = None"
    and "cs a = Open" and "registered st n a" and "state (clients st a) \<noteq> stateDisconnected"
    and "handlePackets P env a [ClientToServerHandshake, ResourcePackClientResponse PackResponseCompleted []] st = (None, st')"
  shows "registered (OnDisconnect a st') n a \<and> a \<in> set (allPlayers (OnDisconnect a st')) \<and>
    reach P hc key (m + 3) (OnDisconnect a st', cs(a := Closed))"
proof -
  let ?completed = "ResourcePackClientResponse PackResponseCompleted []"
  have "andThen (HandlePacket P env a ClientToServerHandshake) (HandlePacket P env a ?completed) st = (None, st')"
    using assms(7) by (simp add: handlePackets_def andThen_ok)
  from andThen_None [OF this] obtain st1 where st1: "HandlePacket P env a ClientToServerHandshake st = (None, st1)"
    "HandlePacket P env a ?completed st1 = (None, st')" by blast
  note c = client_handshake_state [OF st1(1) assms(6)]
  obtain st2 pl where q: "quiet st1 st2" "quiet (register a pl (takeID a st2)) st'" using completed_effect [OF st1(2) c(1)] by blast
  have r2: "players (handler st2) = players (handler st)" "nextID (handler st2) = nextID (handler st)"
    using quiet_simps(2,3) [OF c(2)] quiet_simps(2,3) [OF q(1)] by simp_all
  have ok: "server_ok P hc (st, cs)" "unat (nextID (handler st)) \<le> m" using reach_server_ok [OF assms(1) _ assms(3)] assms(2) by auto
  let ?new = "nextID (handler st) + 1"
  have "unat ?new = unat (nextID (handler st)) + 1" using ok(2) assms(2) by (simp add: unat_word_ariths)
  then have "nextID (handler st) < ?new" by (simp add: word_less_nat_alt)
  moreover have "n \<le> runtimeID (clients st a)" "runtimeID (clients st a) \<le> nextID (handler st)"
    using ok(1) assms(5) unfolding server_ok_def ids_ok_def players_ok_def Let_def by auto
  ultimately have n: "n \<noteq> ?new" by auto
  have p: "players (handler st') = AList.update ?new a (players (handler st))" "runtimeID (clients st' a) = ?new"
    using quiet_simps(2,4) [OF q(2)] r2 by (simp_all add: register_fields takeID_fields)
  have reg: "registered st' n a"
    using assms(5) n ok(1) unfolding registered_def p by (simp add: set_update_wf server_ok_def players_ok_def)
  have "registered (OnDisconnect a st') n a"
  proof -
    have "players (handler (OnDisconnect a st')) = players (handler st') \<or>
        players (handler (OnDisconnect a st')) = AList.delete ?new (players (handler st'))"
      using removePlayer_effect [of a st'] quiet_simps(2) leave_fields(4) [of a st'] unfolding OnDisconnect_def p(2) by metis
    then show ?thesis using reg n unfolding registered_def by (auto simp: AList.delete_eq)
  qed
  moreover have "reach P hc key (m + 3) (OnDisconnect a st', cs(a := Closed))"
    using reach.next_step [OF handlePackets_reach [OF assms(1,4,7)] step.disconnected [of cs a, OF assms(4)]] by (simp add: numeral_eq_Suc)
  ultimately show ?thesis by (auto simp: allPlayers_def sortClientsByRuntimeID_def registered_def) force
qed

text \<open>Witness of \<open>ghost_player\<close>: the sample player repeats the end of its login and leaves.\<close>

theorem ghost_player_witness:
  "\<exists>st cs. reach sampleProto sampleConfig (Some (toyKey 1000)) 10 (st, cs) \<and> registered st 1 3 \<and> cs 3 = Closed"
proof -
  let ?cs = "(\<lambda>a. Idle)(3 := Open)"
  obtain st where st: "reach sampleProto sampleConfig (Some (toyKey 1000)) 7 (st, ?cs)" "reliable st" "state (clients st 3) = stateSpawned"
    "registered st 1 3" "uuidParse (loginLib sampleProto) (Identity (loginIdentity (login (clients st 3)))) \<noteq> None" by (rule sample_reach)
  let ?completed = "ResourcePackClientResponse PackResponseCompleted []"
  obtain st1 where st1: "HandlePacket sampleProto sampleEnv 3 ClientToServerHandshake st = (None, st1)"
    "only_logs (enter 3 stateAwaitResourcePackResponse st) st1"
    using HandlePacket_outcome [of st 3 sampleProto sampleEnv ClientToServerHandshake] client_handshake_outcome [OF st(2), of sampleProto 3] st(3)
    by (auto simp: dispatch_def)
  have f: "reliable st1" "state (clients st1 3) = stateAwaitResourcePackResponse" "login (clients st1 3) = login (clients st 3)"
    using only_logs_fields [OF st1(2)] only_logs_reliable [OF st1(2)] st(2) by (simp_all add: reliable_setClient) (simp_all add: setClient_def)
  then obtain base where "outcome (dispatch sampleProto sampleEnv 3 ?completed) st1 base"
    using finish_outcome [OF f(1) _ f(2), of sampleProto] st(5) by (auto simp: dispatch_def handleResourcePackClientResponse_def)
  then obtain st2 where "HandlePacket sampleProto sampleEnv 3 ?completed st1 = (None, st2)"
    using HandlePacket_outcome [of st1 3 sampleProto sampleEnv ?completed base] f(2) by auto
  then have "handlePackets sampleProto sampleEnv 3 [ClientToServerHandshake, ?completed] st = (None, st2)"
    using st1(1) by (simp add: handlePackets_def andThen_def ok_def)
  moreover have "uuidParse (loginLib sampleProto) [] = None" by (simp add: sampleProto_def sampleLoginLib_def)
  ultimately have "registered (OnDisconnect 3 st2) 1 3" "reach sampleProto sampleConfig (Some (toyKey 1000)) (7 + 3) (OnDisconnect 3 st2, ?cs(3 := Closed))"
    using ghost_player [OF st(1) _ _ _ st(4), of sampleEnv st2] st(3) by simp_all
  then show ?thesis by (intro exI [of _ "OnDisconnect 3 st2"] exI [of _ "?cs(3 := Closed)"]) simp
qed

end
