(* ===== verification/Codec.thy ===== *)
theory Codec
  imports Storage
begin

unbundle bit_operations_syntax

text \<open>
  The batch codec (\<^verbatim>\<open>internal/network/mcpe/codec.go\<close>): packets are framed by their lengths into a
  batch, which is compressed, tagged with a truncated hash and encrypted with a key stream.

  Compression algorithms and variable-length integers belong to the protocol library, AES in counter
  mode and SHA-256 to the cryptography packages; they are the fields of \<open>codec_lib\<close>. A compression
  algorithm is an interface value that is compared for identity, here a number. The codec is passed by value,
  but its encryption state is shared through a pointer, so the operations return the codec with
  its new encryption state. The loop over the packets of a batch is a partial function: it returns
  only because reading a length consumes input.
\<close>

type_synonym compression = nat

record codec_lib =
  NopCompression :: compression
  CompressionByID :: "u16 \<Rightarrow> compression option"
  EncodeCompression :: "compression \<Rightarrow> u16"
  Compress :: "compression \<Rightarrow> bytes \<Rightarrow> bytes option"
  Decompress :: "compression \<Rightarrow> bytes \<Rightarrow> int \<Rightarrow> bytes option"
  WriteVaruint32 :: "u32 \<Rightarrow> bytes"
  Varuint32 :: "bytes \<Rightarrow> (u32 \<times> bytes) option"
  keyStream :: "bytes \<Rightarrow> bytes \<Rightarrow> nat \<Rightarrow> u8"
  Sum256 :: "bytes \<Rightarrow> bytes"

datatype codec_error =
    InvalidHeader u8
  | ShortPacket nat
  | InvalidChecksum u64
  | MissingCompressionHeader
  | UnknownCompression u8
  | UnexpectedCompression
  | CompressFailed
  | DecompressFailed
  | ReadPacketLength
  | PacketLengthExceeds u32 nat
  | TooManyPackets nat
  | ReadPacketHeader
  | UnknownPacket u32
  | PacketPanic
  | UnreadBytes nat

section \<open>Encryption\<close>

text \<open>A cipher stream is what is left of its key stream.\<close>

record cryptState =
  counter :: u64
  cryptKey :: bytes
  stream :: "nat \<Rightarrow> u8"

record batchEncryption =
  outgoing :: cryptState
  incoming :: cryptState

definition newCryptState :: "codec_lib \<Rightarrow> bytes \<Rightarrow> cryptState" where
  "newCryptState L keyBytes =
     (let iv = take 12 keyBytes @ [0, 0, 0, 2] in
      \<lparr>counter = 0, cryptKey = keyBytes, stream = keyStream L keyBytes iv\<rparr>)"

definition newBatchEncryption :: "codec_lib \<Rightarrow> bytes \<Rightarrow> batchEncryption" where
  "newBatchEncryption L keyBytes = \<lparr>outgoing = newCryptState L keyBytes, incoming = newCryptState L keyBytes\<rparr>"

text \<open>\<^verbatim>\<open>cipher.Stream.XORKeyStream\<close>: the result and the rest of the key stream.\<close>

definition XORKeyStream :: "(nat \<Rightarrow> u8) \<Rightarrow> bytes \<Rightarrow> bytes \<times> (nat \<Rightarrow> u8)" where
  "XORKeyStream s data = (map (\<lambda>(i, b). b XOR s i) (enumerate 0 data), \<lambda>i. s (i + length data))"

text \<open>\<^verbatim>\<open>binary.LittleEndian.PutUint64\<close>\<close>

definition PutUint64 :: "u64 \<Rightarrow> bytes" where
  "PutUint64 w = map (\<lambda>i. ucast (drop_bit (8 * i) w)) [0..<8]"

definition checksum :: "codec_lib \<Rightarrow> cryptState \<Rightarrow> bytes \<Rightarrow> bytes" where
  "checksum L st data = take 8 (Sum256 L (PutUint64 (counter st) @ data @ cryptKey st))"

definition encrypt :: "codec_lib \<Rightarrow> cryptState \<Rightarrow> bytes \<Rightarrow> bytes \<times> cryptState" where
  "encrypt L st data =
     (let (body, rest) = XORKeyStream (stream st) (tl data @ checksum L st (tl data)) in
      (hd data # body, st\<lparr>counter := counter st + 1, stream := rest\<rparr>))"

definition decrypt :: "cryptState \<Rightarrow> bytes \<Rightarrow> bytes \<times> cryptState" where
  "decrypt st data = (let (plain, rest) = XORKeyStream (stream st) data in (plain, st\<lparr>stream := rest\<rparr>))"

definition verify :: "codec_lib \<Rightarrow> cryptState \<Rightarrow> bytes \<Rightarrow> codec_error option \<times> cryptState" where
  "verify L st data =
     (if length data < 8 then (Some (ShortPacket (length data)), st)
      else
        let got = drop (length data - 8) data;
            want = checksum L st (take (length data - 8) data);
            st' = st\<lparr>counter := counter st + 1\<rparr>
        in if got \<noteq> want then (Some (InvalidChecksum (counter st' - 1)), st') else (None, st'))"

section \<open>Batches\<close>

definition defaultCompressionThreshold :: int where
  "defaultCompressionThreshold = 256"

definition maxDecompressedBatchBytes :: int where
  "maxDecompressedBatchBytes = 2 * 1024 * 1024"

definition batchHeader :: u8 where
  "batchHeader = 0xFE"

definition maximumBatchItems :: nat where
  "maximumBatchItems = 812"

record codec =
  Compression :: "compression option"
  CompressionThreshold :: int
  MaxDecompressedLen :: int
  EnableLimits :: bool
  encryption :: "batchEncryption option"

definition newCodec :: "compression \<Rightarrow> codec" where
  "newCodec DefaultCompression =
     \<lparr>Compression = Some DefaultCompression, CompressionThreshold = defaultCompressionThreshold,
      MaxDecompressedLen = maxDecompressedBatchBytes, EnableLimits = True, encryption = None\<rparr>"

definition EnableEncryption :: "codec_lib \<Rightarrow> bytes \<Rightarrow> codec \<Rightarrow> codec" where
  "EnableEncryption L keyBytes c = c\<lparr>encryption := Some (newBatchEncryption L keyBytes)\<rparr>"

definition frameBody :: "codec_lib \<Rightarrow> bytes list \<Rightarrow> bytes" where
  "frameBody L packets = concat (map (\<lambda>payload. WriteVaruint32 L (of_nat (length payload)) @ payload) packets)"

definition sealBatch :: "codec_lib \<Rightarrow> codec \<Rightarrow> bytes \<Rightarrow> bytes \<times> codec" where
  "sealBatch L c batch =
     (case encryption c of
        None \<Rightarrow> (batch, c)
      | Some e \<Rightarrow> let (out, st) = encrypt L (outgoing e) batch in (out, c\<lparr>encryption := Some (e\<lparr>outgoing := st\<rparr>)\<rparr>))"

definition EncodeBatch :: "codec_lib \<Rightarrow> codec \<Rightarrow> bytes list \<Rightarrow> (codec_error + bytes) \<times> codec" where
  "EncodeBatch L c packets =
     (let data = frameBody L packets in
      case Compression c of
        None \<Rightarrow> let (batch, c') = sealBatch L c (batchHeader # data) in (Inr batch, c')
      | Some codecCompression \<Rightarrow>
          let compression = (if int (length data) < CompressionThreshold c then NopCompression L else codecCompression) in
          case Compress L compression data of
            None \<Rightarrow> (Inl CompressFailed, c)
          | Some compressed \<Rightarrow>
              let (batch, c') = sealBatch L c (batchHeader # ucast (EncodeCompression L compression) # compressed) in (Inr batch, c'))"

text \<open>Decrypting and verifying a body.\<close>

definition openBody :: "codec_lib \<Rightarrow> codec \<Rightarrow> bytes \<Rightarrow> (codec_error + bytes) \<times> codec" where
  "openBody L c body =
     (case encryption c of
        None \<Rightarrow> (Inr body, c)
      | Some e \<Rightarrow>
          let (plain, st1) = decrypt (incoming e) body; (err, st2) = verify L st1 plain;
              c' = c\<lparr>encryption := Some (e\<lparr>incoming := st2\<rparr>)\<rparr>
          in case err of Some er \<Rightarrow> (Inl er, c') | None \<Rightarrow> (Inr (take (length plain - 8) plain), c'))"

definition decompressBody :: "codec_lib \<Rightarrow> codec \<Rightarrow> bytes \<Rightarrow> codec_error + bytes" where
  "decompressBody L c body =
     (case Compression c of
        None \<Rightarrow> Inr body
      | Some codecCompression \<Rightarrow>
          if body = [] then Inl MissingCompressionHeader
          else if hd body = 0xFF then Inr (tl body)
          else case CompressionByID L (ucast (hd body)) of
            None \<Rightarrow> Inl (UnknownCompression (hd body))
          | Some compression \<Rightarrow>
              if compression \<noteq> codecCompression then Inl UnexpectedCompression
              else case Decompress L compression (tl body) (MaxDecompressedLen c) of
                None \<Rightarrow> Inl DecompressFailed
              | Some decompressed \<Rightarrow> Inr decompressed)"

partial_function (option) readPackets :: "codec_lib \<Rightarrow> bytes \<Rightarrow> bytes list \<Rightarrow> (codec_error + bytes list) option" where
  "readPackets L buffer packets =
     (if buffer = [] then Some (Inr packets)
      else case Varuint32 L buffer of
        None \<Rightarrow> Some (Inl ReadPacketLength)
      | Some (n, rest) \<Rightarrow>
          if (of_nat (length rest) :: u32) < n then Some (Inl (PacketLengthExceeds n (length rest)))
          else readPackets L (drop (unat n) rest) (packets @ [take (unat n) rest]))"

definition DecodeBatch :: "codec_lib \<Rightarrow> codec \<Rightarrow> bytes \<Rightarrow> (codec_error + bytes list) option \<times> codec" where
  "DecodeBatch L c data =
     (if data = [] then (Some (Inr []), c)
      else if hd data \<noteq> batchHeader then (Some (Inl (InvalidHeader (hd data))), c)
      else case openBody L c (tl data) of
        (Inl e, c') \<Rightarrow> (Some (Inl e), c')
      | (Inr body, c') \<Rightarrow>
          (case decompressBody L c body of
             Inl e \<Rightarrow> (Some (Inl e), c')
           | Inr plain \<Rightarrow>
               (map_option (\<lambda>r. case r of
                    Inl e \<Rightarrow> Inl e
                  | Inr packets \<Rightarrow>
                      if length packets > maximumBatchItems \<and> EnableLimits c then Inl (TooManyPackets (length packets))
                      else Inr packets) (readPackets L plain []), c')))"

section \<open>What the libraries promise\<close>

text \<open>Reading undoes writing a variable-length integer, and reading consumes at least one byte.\<close>

definition varint_ok :: "codec_lib \<Rightarrow> bool" where
  "varint_ok L \<longleftrightarrow> (\<forall>n rest. Varuint32 L (WriteVaruint32 L n @ rest) = Some (n, rest)) \<and>
     (\<forall>b n rest. Varuint32 L b = Some (n, rest) \<longrightarrow> length rest < length b)"

text \<open>
  The empty algorithm copies its input and has ID \<open>0xFFFF\<close>; another algorithm has an ID of one byte other than
  \<open>0xFF\<close>, by which it is found, and decompresses what it compressed within the size limit.
\<close>

definition compression_ok :: "codec_lib \<Rightarrow> compression \<Rightarrow> bool" where
  "compression_ok L k \<longleftrightarrow> (\<forall>x. Compress L (NopCompression L) x = Some x) \<and> EncodeCompression L (NopCompression L) = 0xFFFF \<and>
     (ucast (EncodeCompression L k) :: u8) \<noteq> 0xFF \<and> CompressionByID L (ucast (ucast (EncodeCompression L k) :: u8)) = Some k \<and>
     (\<forall>x y limit. Compress L k x = Some y \<longrightarrow> int (length x) \<le> limit \<longrightarrow> Decompress L k y limit = Some x)"

text \<open>The hash has at least eight bytes.\<close>

definition hash_ok :: "codec_lib \<Rightarrow> bool" where
  "hash_ok L \<longleftrightarrow> (\<forall>x. 8 \<le> length (Sum256 L x))"

section \<open>Encryption round trip\<close>

lemma XORKeyStream_length: "length (fst (XORKeyStream s data)) = length data"
  by (simp add: XORKeyStream_def)

lemma XORKeyStream_twice: "XORKeyStream s (fst (XORKeyStream s data)) = (data, snd (XORKeyStream s data))"
  by (rule prod_eqI) (auto simp: XORKeyStream_def nth_enumerate_eq xor.assoc intro!: nth_equalityI)

lemma length_checksum: "hash_ok L \<Longrightarrow> length (checksum L st data) = 8"
  by (simp add: checksum_def hash_ok_def min_absorb1)

lemma decrypt_encrypt:
  assumes "hash_ok L" and "encrypt L st (h # body) = (out, st')"
  shows "\<exists>cipher st1. out = h # cipher \<and> decrypt st cipher = (body @ checksum L st body, st1) \<and>
    verify L st1 (body @ checksum L st body) = (None, st')"
proof -
  let ?tagged = "body @ checksum L st body"
  let ?x = "XORKeyStream (stream st) ?tagged"
  have e: "out = h # fst ?x" "st' = st\<lparr>counter := counter st + 1, stream := snd ?x\<rparr>"
    using assms(2) by (simp_all add: encrypt_def split: prod.splits)
  have "decrypt st (fst ?x) = (?tagged, st\<lparr>stream := snd ?x\<rparr>)"
    by (simp add: decrypt_def XORKeyStream_twice)
  moreover have "verify L (st\<lparr>stream := snd ?x\<rparr>) ?tagged = (None, st')"
    using length_checksum [OF assms(1), of st body] e(2) by (simp add: verify_def checksum_def)
  ultimately show ?thesis using e(1) by blast
qed

section \<open>Batch round trip\<close>

text \<open>A sender and a receiver agree: same compression, and the receiver's incoming state is the sender's outgoing one.\<close>

definition synced :: "codec \<Rightarrow> codec \<Rightarrow> bool" where
  "synced tx rx \<longleftrightarrow> Compression tx = Compression rx \<and> map_option outgoing (encryption tx) = map_option incoming (encryption rx)"

lemma openBody_sealBatch:
  assumes "hash_ok L" and "synced tx rx" and "sealBatch L tx (h # body) = (out, tx')"
  shows "\<exists>cipher rx'. out = h # cipher \<and> openBody L rx cipher = (Inr body, rx') \<and> synced tx' rx' \<and>
    rx' = rx\<lparr>encryption := encryption rx'\<rparr>"
proof (cases "encryption tx")
  case None
  then show ?thesis using assms(2,3) by (auto simp: sealBatch_def openBody_def synced_def)
next
  case (Some e)
  then obtain d where d: "encryption rx = Some d" "incoming d = outgoing e" using assms(2) by (cases "encryption rx") (auto simp: synced_def)
  obtain st' where st': "encrypt L (outgoing e) (h # body) = (out, st')" "tx' = tx\<lparr>encryption := Some (e\<lparr>outgoing := st'\<rparr>)\<rparr>"
    using assms(3) Some by (auto simp: sealBatch_def split: prod.splits)
  obtain cipher st1 where c: "out = h # cipher" "decrypt (outgoing e) cipher = (body @ checksum L (outgoing e) body, st1)"
    "verify L st1 (body @ checksum L (outgoing e) body) = (None, st')"
    using decrypt_encrypt [OF assms(1) st'(1)] by blast
  let ?rx = "rx\<lparr>encryption := Some (d\<lparr>incoming := st'\<rparr>)\<rparr>"
  have "openBody L rx cipher = (Inr body, ?rx)"
    using d c length_checksum [OF assms(1), of "outgoing e" body] by (simp add: openBody_def)
  moreover have "synced tx' ?rx" using assms(2) st'(2) by (simp add: synced_def)
  ultimately show ?thesis using c(1) by (intro exI [of _ cipher] exI [of _ ?rx]) simp
qed

lemma readPackets_step:
  assumes "varint_ok L" and "length (payload @ rest) < 2 ^ 32"
  shows "readPackets L (WriteVaruint32 L (of_nat (length payload)) @ payload @ rest) acc = readPackets L rest (acc @ [payload])"
proof -
  let ?n = "of_nat (length payload) :: u32"
  have r: "Varuint32 L (WriteVaruint32 L ?n @ payload @ rest) = Some (?n, payload @ rest)"
    using assms(1) by (simp add: varint_ok_def)
  moreover have "length (payload @ rest) < length (WriteVaruint32 L ?n @ payload @ rest)"
    using assms(1) r unfolding varint_ok_def by blast
  moreover have "unat ?n = length payload" "\<not> (of_nat (length (payload @ rest)) :: u32) < ?n"
    using assms(2) by (simp_all add: unat_of_nat word_less_nat_alt take_bit_nat_eq_self del: of_nat_add)
  ultimately show ?thesis
    by (subst readPackets.simps) (auto simp del: of_nat_add length_append)
qed

lemma frameBody_Cons: "frameBody L (p # ps) = WriteVaruint32 L (of_nat (length p)) @ p @ frameBody L ps"
  by (simp add: frameBody_def)

lemma readPackets_frameBody:
  assumes "varint_ok L" and "length (frameBody L packets) < 2 ^ 32"
  shows "readPackets L (frameBody L packets) acc = Some (Inr (acc @ packets))"
  using assms(2)
proof (induction packets arbitrary: acc)
  case Nil
  then show ?case by (simp add: frameBody_def readPackets.simps)
next
  case (Cons p ps)
  then have "length (p @ frameBody L ps) < 2 ^ 32" "length (frameBody L ps) < 2 ^ 32" by (simp_all add: frameBody_Cons)
  then show ?case using readPackets_step [OF assms(1)] Cons.IH by (simp add: frameBody_Cons)
qed

text \<open>What the receiver's limits allow.\<close>

definition within_limits :: "codec_lib \<Rightarrow> codec \<Rightarrow> bytes list \<Rightarrow> bool" where
  "within_limits L rx packets \<longleftrightarrow> length packets \<le> maximumBatchItems \<and> length (frameBody L packets) < 2 ^ 32 \<and>
     int (length (frameBody L packets)) \<le> MaxDecompressedLen rx"

lemma decompressBody_compressed:
  assumes "compression_ok L k" and "Compression rx = Some k" and "int (length data) \<le> MaxDecompressedLen rx"
    and "Compress L j data = Some compressed" and "j = NopCompression L \<or> j = k"
  shows "decompressBody L rx (ucast (EncodeCompression L j) # compressed) = Inr data"
  using assms by (auto simp: decompressBody_def compression_ok_def)

lemma decode_encode:
  assumes "varint_ok L" and "hash_ok L" and "\<forall>k. Compression tx = Some k \<longrightarrow> compression_ok L k"
    and "synced tx rx" and "within_limits L rx packets" and "EncodeBatch L tx packets = (Inr batch, tx')"
  shows "\<exists>rx'. DecodeBatch L rx batch = (Some (Inr packets), rx') \<and> synced tx' rx' \<and> rx' = rx\<lparr>encryption := encryption rx'\<rparr>"
proof -
  let ?data = "frameBody L packets"
  have "\<exists>body. sealBatch L tx (batchHeader # body) = (batch, tx') \<and> decompressBody L rx body = Inr ?data"
  proof (cases "Compression tx")
    case None
    then show ?thesis
      using assms(4,6) by (auto simp: EncodeBatch_def decompressBody_def synced_def Let_def split: prod.splits)
  next
    case (Some k)
    define j where "j = (if int (length ?data) < CompressionThreshold tx then NopCompression L else k)"
    then obtain compressed where c: "Compress L j ?data = Some compressed"
      "sealBatch L tx (batchHeader # ucast (EncodeCompression L j) # compressed) = (batch, tx')"
      using Some assms(6) by (auto simp: EncodeBatch_def Let_def split: option.splits prod.splits)
    have "decompressBody L rx (ucast (EncodeCompression L j) # compressed) = Inr ?data"
      using assms(3-5) Some c(1) by (intro decompressBody_compressed) (auto simp: j_def synced_def within_limits_def)
    then show ?thesis using c(2) by blast
  qed
  then obtain body where b: "sealBatch L tx (batchHeader # body) = (batch, tx')" "decompressBody L rx body = Inr ?data" by blast
  from openBody_sealBatch [OF assms(2,4) b(1)]
  obtain cipher rx' where o: "batch = batchHeader # cipher" "openBody L rx cipher = (Inr body, rx')" "synced tx' rx'"
    "rx' = rx\<lparr>encryption := encryption rx'\<rparr>" by blast
  have "DecodeBatch L rx batch = (Some (Inr packets), rx')"
    using assms(1,5) b(2) o(1,2) by (simp add: DecodeBatch_def readPackets_frameBody within_limits_def)
  then show ?thesis using o(3,4) by blast
qed

section \<open>Sequences of batches\<close>

fun sendBatches :: "codec_lib \<Rightarrow> codec \<Rightarrow> bytes list list \<Rightarrow> (codec_error + bytes list) \<times> codec" where
  "sendBatches L c [] = (Inr [], c)"
| "sendBatches L c (packets # later) =
     (case EncodeBatch L c packets of
        (Inl e, c') \<Rightarrow> (Inl e, c')
      | (Inr batch, c') \<Rightarrow> (case sendBatches L c' later of (Inl e, c'') \<Rightarrow> (Inl e, c'') | (Inr batches, c'') \<Rightarrow> (Inr (batch # batches), c'')))"

fun receiveBatches :: "codec_lib \<Rightarrow> codec \<Rightarrow> bytes list \<Rightarrow> (codec_error + bytes list list) option \<times> codec" where
  "receiveBatches L c [] = (Some (Inr []), c)"
| "receiveBatches L c (batch # later) =
     (case DecodeBatch L c batch of
        (Some (Inr packets), c') \<Rightarrow>
          (case receiveBatches L c' later of (r, c'') \<Rightarrow> (map_option (map_sum id ((#) packets)) r, c''))
      | (Some (Inl e), c') \<Rightarrow> (Some (Inl e), c')
      | (None, c') \<Rightarrow> (None, c'))"

lemma EncodeBatch_settings:
  "EncodeBatch L c packets = (r, c') \<Longrightarrow> c' = c\<lparr>encryption := encryption c'\<rparr>"
  by (auto simp: EncodeBatch_def sealBatch_def Let_def split: option.splits prod.splits)

lemma within_limits_encryption: "rx' = rx\<lparr>encryption := e\<rparr> \<Longrightarrow> within_limits L rx' packets = within_limits L rx packets"
  by (simp add: within_limits_def)

text \<open>
  C15. Batches survive the wire. For libraries that keep their promises, a sender and a receiver with the same
  compression and matching encryption states, and any sequence of batches of at most 812 packets
  within the size limits that the sender encodes, the receiver decodes exactly the packets that
  were sent, batch by batch, and both sides are in matching states again, whatever the threshold,
  with and without compression and encryption.
\<close>

theorem batches_round_trip:
  assumes "varint_ok L" and "hash_ok L" and "\<forall>k. Compression tx = Some k \<longrightarrow> compression_ok L k"
    and "synced tx rx" and "\<forall>packets\<in>set batches. within_limits L rx packets" and "sendBatches L tx batches = (Inr wire, tx')"
  shows "\<exists>rx'. receiveBatches L rx wire = (Some (Inr batches), rx') \<and> synced tx' rx'"
  using assms(3-6)
proof (induction batches arbitrary: tx rx wire)
  case Nil
  then show ?case by auto
next
  case (Cons packets later)
  obtain batch tx1 where e: "EncodeBatch L tx packets = (Inr batch, tx1)"
    using Cons.prems(4) by (auto split: prod.splits sum.splits)
  then obtain batches where s: "sendBatches L tx1 later = (Inr batches, tx')" "wire = batch # batches"
    using Cons.prems(4) by (auto split: prod.splits sum.splits)
  obtain rx1 where d: "DecodeBatch L rx batch = (Some (Inr packets), rx1)" "synced tx1 rx1" "rx1 = rx\<lparr>encryption := encryption rx1\<rparr>"
    using decode_encode [OF assms(1,2) Cons.prems(1,2) _ e] Cons.prems(3) by auto
  have "Compression tx1 = Compression tx" using EncodeBatch_settings [OF e] by (metis codec.select_convs(1) codec.surjective codec.update_convs(5))
  then obtain rx' where "receiveBatches L rx1 batches = (Some (Inr later), rx')" "synced tx' rx'"
    using Cons.IH [OF _ d(2) _ s(1)] Cons.prems(1,3) within_limits_encryption [OF d(3)] by auto
  then show ?case using d(1) s(2) by simp
qed

section \<open>Decoding any input\<close>

lemma readPackets_returns:
  assumes "varint_ok L"
  shows "\<exists>r. readPackets L buffer acc = Some r \<and> (\<forall>packets. r = Inr packets \<longrightarrow>
    (\<exists>ps. packets = acc @ ps \<and> length ps \<le> length buffer \<and> sum_list (map length ps) \<le> length buffer))"
proof (induction "length buffer" arbitrary: buffer acc rule: less_induct)
  case less
  show ?case
  proof (cases "buffer = [] \<or> Varuint32 L buffer = None")
    case True
    then show ?thesis by (subst readPackets.simps) auto
  next
    case False
    then obtain n rest where v: "Varuint32 L buffer = Some (n, rest)" by auto
    then have l: "length rest < length buffer" using assms by (simp add: varint_ok_def)
    then have "length (drop (unat n) rest) < length buffer" by simp
    from less [OF this, of "acc @ [take (unat n) rest]"] obtain r where
      r: "readPackets L (drop (unat n) rest) (acc @ [take (unat n) rest]) = Some r"
        "\<forall>packets. r = Inr packets \<longrightarrow> (\<exists>ps. packets = (acc @ [take (unat n) rest]) @ ps \<and>
           length ps \<le> length (drop (unat n) rest) \<and> sum_list (map length ps) \<le> length (drop (unat n) rest))" by blast
    have "\<exists>ps. packets = acc @ ps \<and> length ps \<le> length buffer \<and> sum_list (map length ps) \<le> length buffer" if inr: "r = Inr packets" for packets
    proof -
      obtain ps where "packets = acc @ (take (unat n) rest # ps)" "length ps \<le> length (drop (unat n) rest)"
        "sum_list (map length ps) \<le> length (drop (unat n) rest)" using r(2) inr by auto
      then show ?thesis using l by (intro exI [of _ "take (unat n) rest # ps"]) auto
    qed
    then show ?thesis using False v r(1) by (subst readPackets.simps) auto
  qed
qed

text \<open>
  A library for evaluation: lengths as four bytes, a compression that reverses its input, a constant hash and
  a key stream that depends on the key.
\<close>

definition sampleCodecLib :: codec_lib where
  "sampleCodecLib =
     \<lparr>NopCompression = 0, CompressionByID = (\<lambda>n. if n = 0 then Some 1 else None), EncodeCompression = (\<lambda>k. if k = 0 then 0xFFFF else 0),
      Compress = (\<lambda>k x. Some (if k = 0 then x else rev x)), Decompress = (\<lambda>k x limit. if int (length x) \<le> limit then Some (rev x) else None),
      WriteVaruint32 = leBytes, Varuint32 = leWord, keyStream = (\<lambda>key iv i. of_nat (i + length key)), Sum256 = (\<lambda>x. replicate 32 (of_nat (length x)))\<rparr>"

lemma leWord_shorter: "leWord b = Some (n, rest) \<Longrightarrow> length rest < length b"
  by (cases b rule: leWord.cases) auto

lemma sampleCodecLib_ok: "varint_ok sampleCodecLib" "hash_ok sampleCodecLib" "compression_ok sampleCodecLib 1"
  by (auto simp: varint_ok_def hash_ok_def compression_ok_def sampleCodecLib_def leWord_leBytes leWord_shorter)

text \<open>Witness of \<open>batches_round_trip\<close>: two batches, one of two packets, compressed and encrypted.\<close>

definition sampleCodec :: codec where
  "sampleCodec = EnableEncryption sampleCodecLib (replicate 32 5) ((newCodec 1)\<lparr>CompressionThreshold := 10\<rparr>)"

theorem batches_round_trip_witness:
  "\<exists>wire tx' rx'. sendBatches sampleCodecLib sampleCodec [[[1, 2, 3], []], [[4]]] = (Inr wire, tx') \<and>
     receiveBatches sampleCodecLib sampleCodec wire = (Some (Inr [[[1, 2, 3], []], [[4]]]), rx')"
proof -
  have "\<exists>out tx'. EncodeBatch sampleCodecLib c packets = (Inr out, tx')" for c packets
    by (auto simp: EncodeBatch_def sampleCodecLib_def Let_def split: option.split prod.split)
  then obtain b1 t1 b2 t2 where "EncodeBatch sampleCodecLib sampleCodec [[1, 2, 3], []] = (Inr b1, t1)"
    "EncodeBatch sampleCodecLib t1 [[4]] = (Inr b2, t2)" by metis
  then obtain wire tx' where s: "sendBatches sampleCodecLib sampleCodec [[[1, 2, 3], []], [[4]]] = (Inr wire, tx')" by simp
  moreover have "synced sampleCodec sampleCodec" by (simp add: synced_def sampleCodec_def EnableEncryption_def newBatchEncryption_def)
  moreover have "within_limits sampleCodecLib sampleCodec [[1, 2, 3], []]" "within_limits sampleCodecLib sampleCodec [[4]]"
    by (simp_all add: within_limits_def frameBody_def sampleCodecLib_def leBytes_def sampleCodec_def EnableEncryption_def newCodec_def
        maximumBatchItems_def maxDecompressedBatchBytes_def)
  moreover have "Compression sampleCodec = Some 1" by (simp add: sampleCodec_def EnableEncryption_def newCodec_def)
  ultimately have "\<exists>rx'. receiveBatches sampleCodecLib sampleCodec wire = (Some (Inr [[[1, 2, 3], []], [[4]]]), rx') \<and> synced tx' rx'"
    using sampleCodecLib_ok by (intro batches_round_trip) simp_all
  then show ?thesis using s by blast
qed

text \<open>
  C37. Decoding always returns. If reading a length consumes input, \<^verbatim>\<open>DecodeBatch\<close> returns on every input and
  in every state, and with limits enabled an accepted batch has at most 812 packets. If
  encryption is on, the batch is accepted only if its last eight decrypted bytes are the checksum of
  the counter, the rest of the body and the key.
\<close>

theorem decode_batch_returns:
  assumes "varint_ok L"
  shows "\<exists>r. fst (DecodeBatch L c data) = Some r \<and>
    (\<forall>packets. r = Inr packets \<longrightarrow> data \<noteq> [] \<longrightarrow>
       (EnableLimits c \<longrightarrow> length packets \<le> 812) \<and>
       (\<forall>e. encryption c = Some e \<longrightarrow>
          (let plain = fst (decrypt (incoming e) (tl data)) in
           8 \<le> length plain \<and> drop (length plain - 8) plain = checksum L (incoming e) (take (length plain - 8) plain))))"
proof (cases "data = [] \<or> hd data \<noteq> batchHeader")
  case True
  then show ?thesis by (auto simp: DecodeBatch_def)
next
  case False
  obtain o1 c1 where o: "openBody L c (tl data) = (o1, c1)" by fastforce
  have check: "8 \<le> length plain \<and> drop (length plain - 8) plain = checksum L (incoming e) (take (length plain - 8) plain)"
    if "o1 = Inr body" "encryption c = Some e" "plain = fst (decrypt (incoming e) (tl data))" for body e plain
    using o that by (auto simp: openBody_def verify_def decrypt_def checksum_def Let_def split: prod.splits if_splits)
  show ?thesis
  proof (cases o1)
    case (Inl e)
    then show ?thesis using False o by (auto simp: DecodeBatch_def)
  next
    case (Inr body)
    note b = Inr
    show ?thesis
    proof (cases "decompressBody L c body")
      case (Inl e)
      then show ?thesis using False o b by (auto simp: DecodeBatch_def)
    next
      case (Inr plain)
      obtain r where "readPackets L plain [] = Some r" using readPackets_returns [OF assms] by blast
      then show ?thesis
        using False o b Inr check [OF b]
        by (auto simp: DecodeBatch_def maximumBatchItems_def Let_def split: sum.splits if_splits)
    qed
  qed
qed

text \<open>Witness of \<open>decode_batch_returns\<close>: some input is accepted.\<close>

theorem decode_batch_returns_witness:
  "\<exists>r. fst (DecodeBatch sampleCodecLib (newCodec 1) [0xFE, 0xFF]) = Some r \<and> r = Inr []"
proof -
  have "DecodeBatch sampleCodecLib (newCodec 1) [0xFE, 0xFF] = (Some (Inr []), newCodec 1)"
    by (simp add: DecodeBatch_def batchHeader_def openBody_def decompressBody_def newCodec_def readPackets.simps)
  then show ?thesis using decode_batch_returns [OF sampleCodecLib_ok(1), of "newCodec 1" "[0xFE, 0xFF]"] by auto
qed

end
