(* ===== verification/Wire.thy ===== *)
theory Wire
  imports Codec Reachable
begin

text \<open>
  Sessions on a transport connection (\<^verbatim>\<open>internal/network/mcpe/session.go\<close> and the packet half of
  \<^verbatim>\<open>codec.go\<close>): packets are marshalled, framed in batches of one and written; batches that arrive are
  decoded and handled packet by packet until the connection ends.

  Marshalling belongs to the protocol library and is the record \<open>packet_lib\<close>; a marshaller that panics
  returns \<open>None\<close>. The last section connects the byte level with the log of packets by which the session
  layer (\<open>Server_State\<close>) models a connection.
\<close>

section \<open>Packets\<close>

datatype packetDirection = fromClient | fromServer

record 'p packet_lib =
  packetID :: "'p \<Rightarrow> u32"
  writeHeader :: "u32 \<Rightarrow> bytes"
  readHeader :: "bytes \<Rightarrow> (u32 \<times> bytes) option"
  marshal :: "'p \<Rightarrow> bytes option"
  clientPool :: "u32 \<Rightarrow> 'p option"
  serverPool :: "u32 \<Rightarrow> 'p option"
  unmarshal :: "'p \<Rightarrow> bytes \<Rightarrow> ('p \<times> bytes) option"

definition EncodePacket :: "'p packet_lib \<Rightarrow> 'p \<Rightarrow> codec_error + bytes" where
  "EncodePacket PL pk =
     (case marshal PL pk of None \<Rightarrow> Inl PacketPanic | Some body \<Rightarrow> Inr (writeHeader PL (packetID PL pk) @ body))"

definition pool :: "'p packet_lib \<Rightarrow> packetDirection \<Rightarrow> u32 \<Rightarrow> 'p option" where
  "pool PL direction = (case direction of fromClient \<Rightarrow> clientPool PL | fromServer \<Rightarrow> serverPool PL)"

definition DecodePacket :: "'p packet_lib \<Rightarrow> bytes \<Rightarrow> packetDirection \<Rightarrow> codec_error + 'p" where
  "DecodePacket PL data direction =
     (case readHeader PL data of
        None \<Rightarrow> Inl ReadPacketHeader
      | Some (n, buffer) \<Rightarrow>
      (case pool PL direction n of
        None \<Rightarrow> Inl (UnknownPacket n)
      | Some blank \<Rightarrow>
      (case unmarshal PL blank buffer of
        None \<Rightarrow> Inl PacketPanic
      | Some (pk, rest) \<Rightarrow> if rest \<noteq> [] then Inl (UnreadBytes (length rest)) else Inr pk)))"

section \<open>Sessions\<close>

record session =
  sessCodec :: codec
  compressed :: bool

definition newSession :: "compression \<Rightarrow> session" where
  "newSession DefaultCompression = \<lparr>sessCodec = newCodec DefaultCompression, compressed = False\<rparr>"

definition SessEnableCompression :: "session \<Rightarrow> session" where
  "SessEnableCompression s = s\<lparr>compressed := True\<rparr>"

definition SessEnableEncryption :: "codec_lib \<Rightarrow> bytes \<Rightarrow> session \<Rightarrow> session" where
  "SessEnableEncryption L key s = s\<lparr>sessCodec := EnableEncryption L key (sessCodec s)\<rparr>"

text \<open>The copy of the codec that an operation works on, and what remains of it: the shared encryption state.\<close>

definition codecCopy :: "bool \<Rightarrow> session \<Rightarrow> codec" where
  "codecCopy withCompression s = (if withCompression then sessCodec s else (sessCodec s)\<lparr>Compression := None\<rparr>)"

definition keepEncryption :: "codec \<Rightarrow> session \<Rightarrow> session" where
  "keepEncryption c s = s\<lparr>sessCodec := (sessCodec s)\<lparr>encryption := encryption c\<rparr>\<rparr>"

text \<open>\<^verbatim>\<open>writePacket\<close>: the batch that is handed to the connection.\<close>

definition writePacket :: "codec_lib \<Rightarrow> 'p packet_lib \<Rightarrow> 'p \<Rightarrow> bool \<Rightarrow> session \<Rightarrow> (codec_error + bytes) \<times> session" where
  "writePacket L PL pk withCompression s =
     (case EncodePacket PL pk of
        Inl e \<Rightarrow> (Inl e, s)
      | Inr payload \<Rightarrow>
          let (r, c) = EncodeBatch L (codecCopy withCompression s) [payload] in (r, keepEncryption c s))"

definition SessWritePacket :: "codec_lib \<Rightarrow> 'p packet_lib \<Rightarrow> 'p \<Rightarrow> session \<Rightarrow> (codec_error + bytes) \<times> session" where
  "SessWritePacket L PL pk s = writePacket L PL pk (compressed s) s"

definition SessWritePacketUncompressed :: "codec_lib \<Rightarrow> 'p packet_lib \<Rightarrow> 'p \<Rightarrow> session \<Rightarrow> (codec_error + bytes) \<times> session" where
  "SessWritePacketUncompressed L PL pk s = writePacket L PL pk False s"

definition decodeBatch :: "codec_lib \<Rightarrow> bytes \<Rightarrow> session \<Rightarrow> (codec_error + bytes list) option \<times> session" where
  "decodeBatch L data s = (let (r, c) = DecodeBatch L (codecCopy (compressed s) s) data in (r, keepEncryption c s))"

datatype 'e session_error = DecodeBatchError codec_error | DecodePacketError codec_error | HandlerError 'e | ReadError

text \<open>
  \<^verbatim>\<open>handleBatch\<close>. The client's handler may change the session it was created with, so it acts on the session and
  the rest of the state. The outer option is \<open>None\<close> if decoding does not return.
\<close>

fun handlePayloads :: "'p packet_lib \<Rightarrow> ('p \<Rightarrow> session \<times> 's \<Rightarrow> 'e option \<times> session \<times> 's) \<Rightarrow> bytes list \<Rightarrow> session \<times> 's
    \<Rightarrow> 'e session_error option \<times> session \<times> 's" where
  "handlePayloads PL hp [] st = (None, st)"
| "handlePayloads PL hp (payload # later) st =
     (case DecodePacket PL payload fromClient of
        Inl e \<Rightarrow> (Some (DecodePacketError e), st)
      | Inr pk \<Rightarrow> (case hp pk st of (Some e, st') \<Rightarrow> (Some (HandlerError e), st') | (None, st') \<Rightarrow> handlePayloads PL hp later st'))"

definition handleBatch :: "codec_lib \<Rightarrow> 'p packet_lib \<Rightarrow> ('p \<Rightarrow> session \<times> 's \<Rightarrow> 'e option \<times> session \<times> 's) \<Rightarrow> bytes \<Rightarrow> session \<times> 's
    \<Rightarrow> ('e session_error option \<times> session \<times> 's) option" where
  "handleBatch L PL hp data = (\<lambda>(s, st).
     case decodeBatch L data s of
       (None, s') \<Rightarrow> None
     | (Some (Inl e), s') \<Rightarrow> Some (Some (DecodeBatchError e), s', st)
     | (Some (Inr packets), s') \<Rightarrow> Some (handlePayloads PL hp packets (s', st)))"

text \<open>
  \<^verbatim>\<open>Serve\<close> on the outcomes of the reads: data, a closed connection or a cancelled context, or another
  error. \<open>OnDisconnect\<close> runs when the loop ends; with no further outcome the session still waits.
\<close>

datatype read_outcome = ReadData bytes | ReadClosed | ReadFailed

datatype ('e, 's) serving = Waiting session 's | Ended "'e session_error option" 's

fun Serve :: "codec_lib \<Rightarrow> 'p packet_lib \<Rightarrow> ('p \<Rightarrow> session \<times> 's \<Rightarrow> 'e option \<times> session \<times> 's) \<Rightarrow> ('s \<Rightarrow> 's) \<Rightarrow> read_outcome list \<Rightarrow> session \<Rightarrow> 's
    \<Rightarrow> ('e, 's) serving option" where
  "Serve L PL hp onDisconnect [] s st = Some (Waiting s st)"
| "Serve L PL hp onDisconnect (ReadClosed # outcomes) s st = Some (Ended None (onDisconnect st))"
| "Serve L PL hp onDisconnect (ReadFailed # outcomes) s st = Some (Ended (Some ReadError) (onDisconnect st))"
| "Serve L PL hp onDisconnect (ReadData data # outcomes) s st =
     (if data = [] then Serve L PL hp onDisconnect outcomes s st
      else case handleBatch L PL hp data (s, st) of
        None \<Rightarrow> None
      | Some (Some e, s', st') \<Rightarrow> Some (Ended (Some e) (onDisconnect st'))
      | Some (None, s', st') \<Rightarrow> Serve L PL hp onDisconnect outcomes s' st')"

section \<open>The log on the wire\<close>

text \<open>
  What a session does for each entry of a connection log. The markers record at which points of the
  stream of batches both ends switch their modes.
\<close>

datatype wire = WireBatch bytes | WireCompression | WireEncryption bytes

fun sendEvent :: "codec_lib \<Rightarrow> server_packet packet_lib \<Rightarrow> conn_event \<Rightarrow> session \<Rightarrow> (codec_error + wire) \<times> session" where
  "sendEvent L PL (Sent pk) s = (let (r, s') = SessWritePacket L PL pk s in (map_sum id WireBatch r, s'))"
| "sendEvent L PL (SentUncompressed pk) s = (let (r, s') = SessWritePacketUncompressed L PL pk s in (map_sum id WireBatch r, s'))"
| "sendEvent L PL CompressionOn s = (Inr WireCompression, SessEnableCompression s)"
| "sendEvent L PL (EncryptionOn key) s = (Inr (WireEncryption key), SessEnableEncryption L key s)"

fun sendLog :: "codec_lib \<Rightarrow> server_packet packet_lib \<Rightarrow> conn_event list \<Rightarrow> session \<Rightarrow> codec_error + wire list" where
  "sendLog L PL [] s = Inr []"
| "sendLog L PL (ev # evs) s =
     (case sendEvent L PL ev s of
        (Inl e, s') \<Rightarrow> Inl e
      | (Inr w, s') \<Rightarrow> map_sum id ((#) w) (sendLog L PL evs s'))"

text \<open>The other end, which uses the same codec: it decodes each batch and the one packet in it.\<close>

fun readLog :: "codec_lib \<Rightarrow> server_packet packet_lib \<Rightarrow> wire list \<Rightarrow> session \<Rightarrow> server_packet list option" where
  "readLog L PL [] s = Some []"
| "readLog L PL (WireCompression # ws) s = readLog L PL ws (SessEnableCompression s)"
| "readLog L PL (WireEncryption key # ws) s = readLog L PL ws (SessEnableEncryption L key s)"
| "readLog L PL (WireBatch batch # ws) s =
     (case decodeBatch L batch s of
        (Some (Inr [payload]), s') \<Rightarrow>
          (case DecodePacket PL payload fromServer of Inr pk \<Rightarrow> map_option ((#) pk) (readLog L PL ws s') | Inl e \<Rightarrow> None)
      | _ \<Rightarrow> None)"

fun loggedPackets :: "conn_event list \<Rightarrow> server_packet list" where
  "loggedPackets [] = []"
| "loggedPackets (Sent pk # evs) = pk # loggedPackets evs"
| "loggedPackets (SentUncompressed pk # evs) = pk # loggedPackets evs"
| "loggedPackets (CompressionOn # evs) = loggedPackets evs"
| "loggedPackets (EncryptionOn key # evs) = loggedPackets evs"

text \<open>No packet is sent uncompressed once compression is on.\<close>

fun orderly :: "bool \<Rightarrow> conn_event list \<Rightarrow> bool" where
  "orderly on [] = True"
| "orderly on (SentUncompressed pk # evs) = (\<not> on \<and> orderly on evs)"
| "orderly on (CompressionOn # evs) = orderly True evs"
| "orderly on (ev # evs) = orderly on evs"

text \<open>
  What is used of the protocol library: a header with a packet ID of ten bits can be read back, and a packet is found by its ID and
  unmarshals from what it marshalled, leaving no bytes. The batch of one packet stays within the limit of the decoder.
\<close>

definition header_ok :: "'p packet_lib \<Rightarrow> bool" where
  "header_ok PL \<longleftrightarrow> (\<forall>n rest. n < 1024 \<longrightarrow> readHeader PL (writeHeader PL n @ rest) = Some (n, rest))"

definition marshals :: "codec_lib \<Rightarrow> 'p packet_lib \<Rightarrow> 'p \<Rightarrow> bool" where
  "marshals L PL pk \<longleftrightarrow> packetID PL pk < 1024 \<and> (\<exists>blank body. marshal PL pk = Some body \<and>
     serverPool PL (packetID PL pk) = Some blank \<and> unmarshal PL blank body = Some (pk, []) \<and>
     int (length (frameBody L [writeHeader PL (packetID PL pk) @ body])) \<le> maxDecompressedBatchBytes)"

definition codec_ok :: "codec_lib \<Rightarrow> compression \<Rightarrow> bool" where
  "codec_ok L k \<longleftrightarrow> varint_ok L \<and> hash_ok L \<and> compression_ok L k \<and> (\<forall>data. Compress L k data \<noteq> None)"

text \<open>Both ends match: same mode, and encryption states that fit.\<close>

definition linked :: "compression \<Rightarrow> session \<Rightarrow> session \<Rightarrow> bool" where
  "linked k tx rx \<longleftrightarrow> compressed tx = compressed rx \<and> synced (sessCodec tx) (sessCodec rx) \<and>
     Compression (sessCodec tx) = Some k \<and> MaxDecompressedLen (sessCodec rx) = maxDecompressedBatchBytes"

text \<open>A packet survives its own encoding and decoding.\<close>

lemma decode_encode_packet:
  assumes "header_ok PL" and "marshals L PL pk"
  shows "\<exists>payload. EncodePacket PL pk = Inr payload \<and> DecodePacket PL payload fromServer = Inr pk \<and>
    int (length (frameBody L [payload])) \<le> maxDecompressedBatchBytes"
  using assms by (auto simp: header_ok_def marshals_def EncodePacket_def DecodePacket_def pool_def)

lemma writePacket_returns:
  assumes "codec_ok L k" and "EncodePacket PL pk = Inr payload" and "Compression (sessCodec tx) = Some k"
  shows "\<exists>batch c. writePacket L PL pk b tx = (Inr batch, keepEncryption c tx) \<and> EncodeBatch L (codecCopy b tx) [payload] = (Inr batch, c)"
proof -
  obtain nop packed where "Compress L (NopCompression L) (frameBody L [payload]) = Some nop" "Compress L k (frameBody L [payload]) = Some packed"
    using assms(1) unfolding codec_ok_def compression_ok_def by blast
  then have "\<exists>batch. fst (EncodeBatch L (codecCopy b tx) [payload]) = Inr batch"
    using assms(3) by (auto simp: EncodeBatch_def codecCopy_def Let_def split: option.split prod.split)
  then obtain batch c where "EncodeBatch L (codecCopy b tx) [payload] = (Inr batch, c)" by (metis prod.collapse)
  then show ?thesis using assms(2) by (simp add: writePacket_def)
qed

lemma linked_step:
  assumes "codec_ok L k" and "header_ok PL" and "linked k tx rx" and "marshals L PL pk"
  shows "\<exists>batch tx' payload rx'. writePacket L PL pk (compressed tx) tx = (Inr batch, tx') \<and> compressed tx' = compressed tx \<and>
    decodeBatch L batch rx = (Some (Inr [payload]), rx') \<and> DecodePacket PL payload fromServer = Inr pk \<and> linked k tx' rx'"
proof -
  obtain payload where p: "EncodePacket PL pk = Inr payload" "DecodePacket PL payload fromServer = Inr pk"
    "int (length (frameBody L [payload])) \<le> maxDecompressedBatchBytes" using decode_encode_packet [OF assms(2,4)] by blast
  obtain batch c where w: "writePacket L PL pk (compressed tx) tx = (Inr batch, keepEncryption c tx)"
    "EncodeBatch L (codecCopy (compressed tx) tx) [payload] = (Inr batch, c)"
    using writePacket_returns [OF assms(1) p(1)] assms(3) unfolding linked_def by blast
  let ?t = "codecCopy (compressed tx) tx" and ?r = "codecCopy (compressed rx) rx"
  have "synced ?t ?r" using assms(3) by (auto simp: linked_def codecCopy_def synced_def)
  moreover have "\<forall>j. Compression ?t = Some j \<longrightarrow> compression_ok L j"
    using assms(1,3) by (auto simp: codecCopy_def linked_def codec_ok_def)
  moreover have "within_limits L ?r [payload]"
    using assms(3) p(3) by (simp add: within_limits_def codecCopy_def linked_def maximumBatchItems_def maxDecompressedBatchBytes_def)
  ultimately obtain r where r: "DecodeBatch L ?r batch = (Some (Inr [payload]), r)" "synced c r"
    using decode_encode [OF _ _ _ _ _ w(2), of ?r] assms(1) by (auto simp: codec_ok_def)
  have "linked k (keepEncryption c tx) (keepEncryption r rx)"
    using assms(3) r(2) by (auto simp: linked_def keepEncryption_def synced_def)
  then show ?thesis using r(1) p(2) w(1) by (auto simp: decodeBatch_def keepEncryption_def)
qed

lemma linked_switch:
  assumes "linked k tx rx"
  shows "linked k (SessEnableCompression tx) (SessEnableCompression rx)"
    and "linked k (SessEnableEncryption L key tx) (SessEnableEncryption L key rx)"
  using assms by (auto simp: linked_def SessEnableCompression_def SessEnableEncryption_def EnableEncryption_def
      synced_def newBatchEncryption_def)

lemma map_sum_Inr_iff: "map_sum f g x = Inr y \<longleftrightarrow> (\<exists>z. x = Inr z \<and> y = g z)"
  by (cases x) auto

lemma sendLog_readLog:
  assumes "codec_ok L k" and "header_ok PL" and "linked k tx rx" and "orderly (compressed tx) evs"
    and "\<And>pk. pk \<in> set (loggedPackets evs) \<Longrightarrow> marshals L PL pk"
  shows "\<exists>ws. sendLog L PL evs tx = Inr ws \<and> readLog L PL ws rx = Some (loggedPackets evs)"
  using assms(3-5)
proof (induction evs arbitrary: tx rx)
  case Nil
  then show ?case by simp
next
  case (Cons ev evs)
  have pkt: ?case
    if e: "\<And>batch tx'. writePacket L PL pk (compressed tx) tx = (Inr batch, tx') \<Longrightarrow> sendEvent L PL ev tx = (Inr (WireBatch batch), tx')"
      "loggedPackets (ev # evs) = pk # loggedPackets evs" "orderly (compressed tx) evs" for pk
  proof -
    obtain batch tx' payload rx' where d: "writePacket L PL pk (compressed tx) tx = (Inr batch, tx')" "compressed tx' = compressed tx"
      "decodeBatch L batch rx = (Some (Inr [payload]), rx')" "DecodePacket PL payload fromServer = Inr pk" "linked k tx' rx'"
      using linked_step [OF assms(1,2) Cons.prems(1)] Cons.prems(3) e(2) by (metis list.set_intros(1))
    then obtain ws where "sendLog L PL evs tx' = Inr ws" "readLog L PL ws rx' = Some (loggedPackets evs)"
      using Cons.IH [OF d(5)] Cons.prems(3) e(2,3) by auto
    then show ?thesis using e(1) [OF d(1)] e(2) d(3,4) by simp
  qed
  show ?case
  proof (cases ev)
    case (Sent pk)
    then show ?thesis using Cons.prems(2) by (intro pkt [of pk]) (auto simp: SessWritePacket_def)
  next
    case (SentUncompressed pk)
    then show ?thesis using Cons.prems(2) by (intro pkt [of pk]) (auto simp: SessWritePacketUncompressed_def)
  next
    case CompressionOn
    then show ?thesis
      using Cons.IH [OF linked_switch(1) [OF Cons.prems(1)]] Cons.prems by (auto simp: SessEnableCompression_def)
  next
    case (EncryptionOn secret)
    then show ?thesis
      using Cons.IH [OF linked_switch(2) [OF Cons.prems(1)], of L secret] Cons.prems by (auto simp: SessEnableEncryption_def)
  qed
qed

text \<open>The handlers switch compression on only after a packet that was sent uncompressed; with one such packet the log is orderly.\<close>

definition uncompressedPackets :: "conn_event list \<Rightarrow> nat" where
  "uncompressedPackets evs = length (filter (\<lambda>ev. case ev of SentUncompressed pk \<Rightarrow> True | _ \<Rightarrow> False) evs)"

lemma orderly_compressed: "uncompressedPackets evs = 0 \<Longrightarrow> orderly on evs"
  by (induction on evs rule: orderly.induct) (auto simp: uncompressedPackets_def)

lemma announced_orderly: "announced evs \<Longrightarrow> uncompressedPackets evs \<le> 1 \<Longrightarrow> orderly False evs"
  by (induction evs rule: announced.induct) (auto simp: uncompressedPackets_def intro!: orderly_compressed)

text \<open>A client that asks for the network settings twice gets the second answer uncompressed in a compressed stream.\<close>

lemma repeated_network_settings:
  assumes "reliable st" and "n = i32 (CurrentProtocol P)"
  shows "\<exists>st' pk. andThen (handleRequestNetworkSettings P a n) (handleRequestNetworkSettings P a n) st = (None, st') \<and>
    connLog (conn (clients st' a)) = connLog (conn (clients st a)) @ [SentUncompressed pk, CompressionOn, SentUncompressed pk, CompressionOn]"
  using assms
  by (simp add: reliable_def handleRequestNetworkSettings_def andThen_def ok_def WritePacketUncompressed_def writeEvent_def writeConn_def
      update_def logConn_def setState_def setClient_def Let_def)


text \<open>A library for a list of packets, which are numbered by their position.\<close>

fun position :: "'a \<Rightarrow> 'a list \<Rightarrow> nat" where
  "position x [] = 0"
| "position x (y # ys) = (if x = y then 0 else Suc (position x ys))"

definition packetLibOf :: "server_packet list \<Rightarrow> server_packet packet_lib" where
  "packetLibOf pks =
     \<lparr>packetID = (\<lambda>pk. of_nat (position pk pks)), writeHeader = leBytes, readHeader = leWord, marshal = (\<lambda>pk. Some []),
      clientPool = (\<lambda>n. None), serverPool = (\<lambda>n. if unat n < length pks then Some (pks ! unat n) else None), unmarshal = (\<lambda>pk b. Some (pk, b))\<rparr>"

lemma position_nth: "x \<in> set xs \<Longrightarrow> position x xs < length xs \<and> xs ! position x xs = x"
  by (induction xs) auto

lemma packetLibOf_ok:
  assumes "length pks < 1024"
  shows "header_ok (packetLibOf pks)" and "pk \<in> set pks \<Longrightarrow> marshals sampleCodecLib (packetLibOf pks) pk"
proof -
  show "header_ok (packetLibOf pks)" by (simp add: header_ok_def packetLibOf_def leWord_leBytes)
  assume "pk \<in> set pks"
  note p = position_nth [OF this]
  then have "unat (of_nat (position pk pks) :: u32) = position pk pks" using assms by (simp add: unat_of_nat take_bit_nat_eq_self)
  moreover have "(of_nat (position pk pks) :: u32) < 1024" using calculation p assms by (simp add: word_less_nat_alt)
  moreover have "length (leBytes n) = 4" for n by (simp add: leBytes_def)
  ultimately show "marshals sampleCodecLib (packetLibOf pks) pk"
    using p by (simp add: marshals_def packetLibOf_def frameBody_def sampleCodecLib_def maxDecompressedBatchBytes_def)
qed

text \<open>Witness of \<open>log_reaches_peer\<close>: a client asks for the network settings and acknowledges a handshake.\<close>

lemma settings_reach:
  "\<exists>st settings info. reach sampleProto sampleConfig None 3 (st, (\<lambda>a. Idle)(3 := Open)) \<and>
     connLog (conn (clients st 3)) = [SentUncompressed settings, CompressionOn, Sent (PlayStatus LoginSuccess), Sent info]"
proof -
  obtain st0 where i: "initialServer sampleConfig None = (st0, \<lambda>a. Idle)" by (simp add: initialServer_def Let_def)
  let ?cs = "(\<lambda>a. Idle)(3 := Open)"
  let ?st1 = "setClient 3 (\<lambda>cl. NewMCPEClient (handler st0) goodConn) st0"
  have "step sampleProto (st0, \<lambda>a. Idle) (?st1, ?cs)" by (rule step.connect) (simp_all add: goodConn_def)
  then have r1: "reach sampleProto sampleConfig None 1 (?st1, ?cs)"
    using reach.start [of sampleProto sampleConfig None] unfolding i One_nat_def by (blast intro: reach.next_step)
  note ops = HandlePacket_def dispatch_def handleRequestNetworkSettings_def handleClientToServerHandshake_def sendResourcePackInfo_def
    andThen_def ok_def reading_def WritePacket_def WritePacketUncompressed_def writeEvent_def writeConn_def update_def logConn_def setState_def
    setClient_def NewMCPEClient_def goodConn_def Let_def
  fix env :: env
  obtain st2 settings where h2: "HandlePacket sampleProto env 3 (RequestNetworkSettings (i32 (CurrentProtocol sampleProto))) ?st1 = (None, st2)"
    "connLog (conn (clients st2 3)) = [SentUncompressed settings, CompressionOn]" "\<And>n. \<not> connFails (conn (clients st2 3)) n"
    "state (clients st2 3) \<noteq> stateDisconnected" by (simp add: ops)
  have r2: "reach sampleProto sampleConfig None 2 (st2, ?cs)"
    using reach.next_step [OF r1 step.handled [OF _ h2(1), of ?cs]] by (simp add: numeral_2_eq_2)
  obtain st3 info where h3: "HandlePacket sampleProto env 3 ClientToServerHandshake st2 = (None, st3)"
    "connLog (conn (clients st3 3)) = [SentUncompressed settings, CompressionOn, Sent (PlayStatus LoginSuccess), Sent info]"
    using h2(2-4) by (simp add: ops)
  have "reach sampleProto sampleConfig None 3 (st3, ?cs)"
    using reach.next_step [OF r2 step.handled [OF _ h3(1), of ?cs]] by (simp add: numeral_3_eq_3 numeral_2_eq_2)
  then show ?thesis using h3(2) by blast
qed


end
