(* ===== verification/Serving.thy ===== *)
theory Serving
  imports Wire Lifecycle
begin

text \<open>
  Bytes to steps: serving the bytes of a connection (\<open>Serve\<close> of \<open>Wire\<close>, with the packet handlers of
  \<open>Session\<close>) does what the step relation of \<open>Reachable\<close> allows, so the invariants of the reachable states hold
  whatever bytes a client sends.
\<close>

text \<open>A handler of decoded packets that runs \<^verbatim>\<open>HandlePacket\<close> of client \<open>a\<close>, whatever it does to the session.\<close>

definition runs_client :: "proto \<Rightarrow> addr \<Rightarrow> (client_packet \<Rightarrow> session \<times> mcpe \<Rightarrow> server_error option \<times> session \<times> mcpe) \<Rightarrow> bool" where
  "runs_client P a hp \<longleftrightarrow> (\<forall>pk s st r s' st'. hp pk (s, st) = (r, s', st') \<longrightarrow> (\<exists>env. HandlePacket P env a pk st = (r, st')))"

lemma payload_steps:
  assumes "runs_client P a hp" and "reach P hc key n (st, cs)" and "cs a = Open"
    and "handlePayloads PL hp payloads (s, st) = (r, s', st')"
  shows "(r = None \<longrightarrow> (\<exists>m. reach P hc key m (st', cs))) \<and>
    (r \<noteq> None \<longrightarrow> (\<exists>m. reach P hc key m (OnDisconnect a st', cs(a := Closed))))"
  using assms(2,4)
proof (induction payloads arbitrary: n s st)
  case Nil
  then show ?case by auto
next
  case (Cons payload later)
  show ?case
  proof (cases "DecodePacket PL payload fromClient")
    case (Inl e)
    then have "r = Some (DecodePacketError e)" "st' = st" using Cons.prems(2) by simp_all
    then show ?thesis using reach.next_step [OF Cons.prems(1) step.disconnected [of cs a, OF assms(3)]] by blast
  next
    case (Inr pk)
    obtain r1 s1 st1 where h: "hp pk (s, st) = (r1, s1, st1)" by (metis prod_cases3)
    then obtain env where env: "HandlePacket P env a pk st = (r1, st1)" using assms(1) unfolding runs_client_def by blast
    show ?thesis
    proof (cases r1)
      case None
      have "reach P hc key (Suc n) (st1, cs)"
        using reach.next_step [OF Cons.prems(1) step.handled [of cs a, OF assms(3)]] env None by blast
      moreover have "handlePayloads PL hp later (s1, st1) = (r, s', st')" using Cons.prems(2) Inr h None by simp
      ultimately show ?thesis by (rule Cons.IH)
    next
      case (Some e)
      then have "r = Some (HandlerError e)" "st' = st1" using Cons.prems(2) Inr h by simp_all
      moreover have "reach P hc key (Suc n) (OnDisconnect a st1, cs(a := Closed))"
        using reach.next_step [OF Cons.prems(1) step.failed [of cs a, OF assms(3)]] env Some by blast
      ultimately show ?thesis by blast
    qed
  qed
qed

text \<open>
  C14. Serving bytes refines the steps of the server. Whatever bytes arrive on the connection of an open session, in
  whatever pieces, and however the connection ends, serving them leads from a reachable state to a
  reachable state: with the session still open while it waits for more, and closed after
  \<^verbatim>\<open>OnDisconnect\<close> once it has ended.
\<close>

theorem serve_refines_steps:
  assumes "runs_client P a hp" and "reach P hc key n (st, cs)" and "cs a = Open"
    and "Serve L PL hp (OnDisconnect a) outcomes s st = Some result"
  shows "\<exists>m. case result of
      Waiting s' st' \<Rightarrow> reach P hc key m (st', cs)
    | Ended err st' \<Rightarrow> reach P hc key m (st', cs(a := Closed))"
  using assms(2,4)
proof (induction outcomes arbitrary: n s st)
  case Nil
  then show ?case by auto
next
  case (Cons out outcomes)
  have d: "reach P hc key (Suc n) (OnDisconnect a st, cs(a := Closed))"
    using reach.next_step [OF Cons.prems(1) step.disconnected [of cs a, OF assms(3)]] .
  show ?case
  proof (cases out)
    case (ReadData data)
    show ?thesis
    proof (cases "data = []")
      case True
      then show ?thesis using Cons ReadData by simp
    next
      case False
      then obtain r s1 st1 where h: "handleBatch L PL hp data (s, st) = Some (r, s1, st1)"
        using Cons.prems(2) ReadData by (auto split: option.splits)
      then consider (decode) e where "r = Some (DecodeBatchError e)" "st1 = st"
        | (packets) s2 packets where "handlePayloads PL hp packets (s2, st) = (r, s1, st1)"
        by (auto simp: handleBatch_def split: prod.splits option.splits sum.splits)
      then show ?thesis
      proof cases
        case decode
        then show ?thesis using Cons.prems(2) ReadData False h d by auto
      next
        case packets
        note steps = payload_steps [OF assms(1) Cons.prems(1) assms(3) packets]
        show ?thesis
        proof (cases r)
          case None
          then show ?thesis using steps Cons.IH Cons.prems(2) ReadData False h by auto
        next
          case (Some e)
          then show ?thesis using steps Cons.prems(2) ReadData False h by auto
        qed
      qed
    qed
  qed (use Cons.prems(2) d in auto)
qed

text \<open>Witness of \<open>serve_refines_steps\<close>: a client sends rubbish and is disconnected.\<close>

definition samplePackets :: "client_packet packet_lib" where
  "samplePackets = \<lparr>packetID = (\<lambda>pk. 1), writeHeader = leBytes, readHeader = leWord, marshal = (\<lambda>pk. Some []),
     clientPool = (\<lambda>n. Some ClientToServerHandshake), serverPool = (\<lambda>n. None), unmarshal = (\<lambda>pk b. Some (pk, b))\<rparr>"

definition sampleHandling :: "client_packet \<Rightarrow> session \<times> mcpe \<Rightarrow> server_error option \<times> session \<times> mcpe" where
  "sampleHandling pk = (\<lambda>(s, st). let (r, st') = HandlePacket sampleProto sampleEnv 3 pk st in (r, s, st'))"

theorem serve_refines_steps_witness:
  "\<exists>st st' cs m. Serve sampleCodecLib samplePackets sampleHandling (OnDisconnect 3) [ReadData [], ReadData [1]] (newSession 1) st =
      Some (Ended (Some (DecodeBatchError (InvalidHeader 1))) st') \<and>
    reach sampleProto sampleConfig (Some (toyKey 1000)) m (st', cs) \<and> cs 3 = Closed"
proof -
  obtain st where st: "reach sampleProto sampleConfig (Some (toyKey 1000)) 7 (st, (\<lambda>a. Idle)(3 := Open))" by (rule sample_reach)
  have e: "Serve sampleCodecLib samplePackets sampleHandling (OnDisconnect 3) [ReadData [], ReadData [1]] (newSession 1) st =
      Some (Ended (Some (DecodeBatchError (InvalidHeader 1))) (OnDisconnect 3 st))"
    by (simp add: handleBatch_def decodeBatch_def DecodeBatch_def batchHeader_def split: prod.split)
  have "runs_client sampleProto 3 sampleHandling" by (auto simp: runs_client_def sampleHandling_def split: prod.splits)
  from serve_refines_steps [OF this st _ e] obtain m where
    "reach sampleProto sampleConfig (Some (toyKey 1000)) m (OnDisconnect 3 st, (\<lambda>a. Idle)(3 := Open, 3 := Closed))" by auto
  then show ?thesis using e by (intro exI [of _ st] exI [of _ "OnDisconnect 3 st"] exI [of _ "(\<lambda>a. Idle)(3 := Open, 3 := Closed)"] exI [of _ m]) simp
qed

end
