(* ===== verification/Config.thy ===== *)
theory Config
  imports Decimal
begin

text \<open>
  The configuration file (\<^verbatim>\<open>internal/config/config.go\<close>): loading a file of \<^verbatim>\<open>key=value\<close> lines over the
  defaults, printing a configuration, and validating it.

  The file system is what \<^verbatim>\<open>Load\<close> sees of it: whether the directory can be made, whether the file is
  missing, unreadable or has some contents, and whether writing it succeeds. \<^verbatim>\<open>bufio.Scanner\<close> splits the
  contents into lines, drops a carriage return at the end of a line and gives up at a line that does
  not fit its buffer of 64 KiB.
\<close>

record config =
  ServerName :: string
  Address :: string
  Port :: int
  MaxPlayers :: int
  ViewDistance :: int
  OnlineMode :: bool
  GameMode :: string
  LogLevel :: string
  LogFile :: string
  ColorLogs :: bool

definition DefaultConfig :: config where
  "DefaultConfig =
     \<lparr>ServerName = ''BetterAltay-Go Server'', Address = ''0.0.0.0'', Port = 19132, MaxPlayers = 20, ViewDistance = 8,
      OnlineMode = False, GameMode = ''Survival'', LogLevel = ''info'', LogFile = ''logs/server.log'', ColorLogs = True\<rparr>"

datatype config_error =
    CreateDirectory
  | StatFile
  | WriteDefault
  | OpenFile
  | ExpectedKeyValue nat
  | NotAnInteger nat string
  | NotABoolean nat string
  | UnknownKey nat string
  | ReadFile
  | EmptyServerName
  | PortRange
  | TooFewPlayers
  | ViewDistanceTooSmall
  | EmptyGameMode

section \<open>Printing\<close>

definition boolText :: "bool \<Rightarrow> string" where
  "boolText b = (if b then ''true'' else ''false'')"

definition newline :: char where
  "newline = CHR 0x0A"

definition propertyLines :: "config \<Rightarrow> string list" where
  "propertyLines cfg =
     [''# BetterAltay-Go server configuration'',
      ''server-name='' @ ServerName cfg,
      ''server-address='' @ Address cfg,
      ''server-port='' @ Itoa (Port cfg),
      ''max-players='' @ Itoa (MaxPlayers cfg),
      ''view-distance='' @ Itoa (ViewDistance cfg),
      ''online-mode='' @ boolText (OnlineMode cfg),
      ''gamemode='' @ GameMode cfg,
      ''log-level='' @ LogLevel cfg,
      ''log-file='' @ LogFile cfg,
      ''color-logs='' @ boolText (ColorLogs cfg)]"

definition MarshalProperties :: "config \<Rightarrow> string" where
  "MarshalProperties cfg = concat (map (\<lambda>line. line @ [newline]) (propertyLines cfg))"

section \<open>Parsing\<close>

definition ParseBool :: "string \<Rightarrow> bool option" where
  "ParseBool s =
     (if s \<in> {''1'', ''t'', ''T'', ''TRUE'', ''true'', ''True''} then Some True
      else if s \<in> {''0'', ''f'', ''F'', ''FALSE'', ''false'', ''False''} then Some False
      else None)"

definition Validate :: "config \<Rightarrow> config_error option" where
  "Validate cfg =
     (if ServerName cfg = [] then Some EmptyServerName
      else if Port cfg < 1 \<or> Port cfg > 65535 then Some PortRange
      else if MaxPlayers cfg < 1 then Some TooFewPlayers
      else if ViewDistance cfg < 2 then Some ViewDistanceTooSmall
      else if GameMode cfg = [] then Some EmptyGameMode
      else None)"

definition integerField :: "nat \<Rightarrow> string \<Rightarrow> string \<Rightarrow> (int \<Rightarrow> config) \<Rightarrow> config_error + config" where
  "integerField n key value put = (case Atoi value of None \<Rightarrow> Inl (NotAnInteger n key) | Some v \<Rightarrow> Inr (put v))"

definition booleanField :: "nat \<Rightarrow> string \<Rightarrow> string \<Rightarrow> (bool \<Rightarrow> config) \<Rightarrow> config_error + config" where
  "booleanField n key value put = (case ParseBool value of None \<Rightarrow> Inl (NotABoolean n key) | Some v \<Rightarrow> Inr (put v))"

text \<open>\<^verbatim>\<open>apply\<close>, with the line number that \<^verbatim>\<open>Load\<close> puts into the error.\<close>

definition applyKey :: "nat \<Rightarrow> string \<Rightarrow> string \<Rightarrow> config \<Rightarrow> config_error + config" where
  "applyKey n key value cfg =
     (if key = ''server-name'' then Inr (cfg\<lparr>ServerName := value\<rparr>)
      else if key = ''server-address'' then Inr (cfg\<lparr>Address := value\<rparr>)
      else if key = ''server-port'' then integerField n key value (\<lambda>v. cfg\<lparr>Port := v\<rparr>)
      else if key = ''max-players'' then integerField n key value (\<lambda>v. cfg\<lparr>MaxPlayers := v\<rparr>)
      else if key = ''view-distance'' then integerField n key value (\<lambda>v. cfg\<lparr>ViewDistance := v\<rparr>)
      else if key = ''online-mode'' then booleanField n key value (\<lambda>v. cfg\<lparr>OnlineMode := v\<rparr>)
      else if key = ''gamemode'' then Inr (cfg\<lparr>GameMode := value\<rparr>)
      else if key = ''log-level'' then Inr (cfg\<lparr>LogLevel := value\<rparr>)
      else if key = ''log-file'' then Inr (cfg\<lparr>LogFile := value\<rparr>)
      else if key = ''color-logs'' then booleanField n key value (\<lambda>v. cfg\<lparr>ColorLogs := v\<rparr>)
      else Inl (UnknownKey n key))"

definition MaxScanTokenSize :: nat where
  "MaxScanTokenSize = 65536"

definition dropCR :: "string \<Rightarrow> string" where
  "dropCR line = (if line \<noteq> [] \<and> last line = CHR 0x0D then butlast line else line)"

text \<open>The lines a scanner returns, and whether it stopped with an error.\<close>

function scanLines :: "string \<Rightarrow> string list \<times> bool" where
  "scanLines s =
     (if s = [] then ([], False)
      else
        let line = takeWhile (\<lambda>c. c \<noteq> newline) s in
        if MaxScanTokenSize \<le> length line then ([], True)
        else let (ls, failed) = scanLines (drop (length line + 1) s) in (dropCR line # ls, failed))"
  by pat_completeness auto
termination
  by (relation "measure length") auto

declare scanLines.simps [simp del]

definition configLine :: "nat \<Rightarrow> string \<Rightarrow> config \<Rightarrow> config_error + config" where
  "configLine n text cfg =
     (let line = TrimSpace text in
      if line = [] \<or> HasPrefix line ''#'' then Inr cfg
      else case Cut CHR ''='' line of
        None \<Rightarrow> Inl (ExpectedKeyValue n)
      | Some (key, value) \<Rightarrow> applyKey n (TrimSpace key) (TrimSpace value) cfg)"

definition parseConfig :: "string list \<Rightarrow> config_error + config" where
  "parseConfig ls = forE (\<lambda>(n, text). configLine n text) (enumerate 1 ls) DefaultConfig"

datatype file_state = FileMissing | StatFailed | OpenFailed | Contents string bool

record file_system =
  mkdirOK :: bool
  fileState :: file_state
  writeOK :: bool

text \<open>\<open>Contents s failed\<close>: reading returns \<open>s\<close> and then an error if \<open>failed\<close>. The result tells whether the file was created.\<close>

definition Load :: "file_system \<Rightarrow> config_error + config \<times> bool" where
  "Load fs =
     (if \<not> mkdirOK fs then Inl CreateDirectory
      else case fileState fs of
        StatFailed \<Rightarrow> Inl StatFile
      | FileMissing \<Rightarrow> if \<not> writeOK fs then Inl WriteDefault else Inr (DefaultConfig, True)
      | OpenFailed \<Rightarrow> Inl OpenFile
      | Contents s failed \<Rightarrow>
          (let (ls, tooLong) = scanLines s in
           case parseConfig ls of
             Inl e \<Rightarrow> Inl e
           | Inr cfg \<Rightarrow>
               if tooLong \<or> failed then Inl ReadFile
               else case Validate cfg of Some e \<Rightarrow> Inl e | None \<Rightarrow> Inr (cfg, False)))"

text \<open>The file after a call of \<^verbatim>\<open>Load\<close>, which writes the default configuration if there is none.\<close>

definition fileAfterLoad :: "file_system \<Rightarrow> file_system" where
  "fileAfterLoad fs =
     (if mkdirOK fs \<and> fileState fs = FileMissing \<and> writeOK fs
      then fs\<lparr>fileState := Contents (MarshalProperties DefaultConfig) False\<rparr> else fs)"

section \<open>Lines and their values\<close>

lemma scanLines_line:
  assumes "newline \<notin> set line" and "length line < MaxScanTokenSize"
  shows "scanLines (line @ newline # rest) = (let (ls, failed) = scanLines rest in (dropCR line # ls, failed))"
proof -
  have "takeWhile (\<lambda>c. c \<noteq> newline) (line @ newline # rest) = line" using assms(1) by (induction line) auto
  then show ?thesis using assms(2) by (subst scanLines.simps) simp
qed

lemma scanLines_concat:
  assumes "\<And>line. line \<in> set ls \<Longrightarrow> newline \<notin> set line \<and> length line < MaxScanTokenSize \<and> dropCR line = line"
  shows "scanLines (concat (map (\<lambda>line. line @ [newline]) ls)) = (ls, False)"
  using assms
proof (induction ls)
  case Nil
  then show ?case by (simp add: scanLines.simps)
next
  case (Cons line ls)
  then show ?case by (simp add: scanLines_line)
qed

lemma rune_no_eq: "w \<in> set spaceRunes \<Longrightarrow> CHR ''='' \<notin> set w"
  by (auto simp: spaceRunes_def)

text \<open>A line \<^verbatim>\<open>key=value\<close> is trimmed if its value is and its key starts with a printable character.\<close>

lemma trimmed_pair:
  assumes "trimmed value" and "key \<noteq> []" and "printable (hd key)"
  shows "trimmed (key @ CHR ''='' # value)"
  unfolding trimmed_def list_all_iff
proof
  fix w assume w: "w \<in> set spaceRunes"
  have "\<not> prefix w (key @ CHR ''='' # value)"
  proof -
    obtain c cs where "key = c # cs" "printable c" using assms(2,3) by (cases key) auto
    then show ?thesis using w by (auto simp: spaceRunes_def printable_def)
  qed
  moreover have "\<not> prefix (rev w) (rev (key @ CHR ''='' # value))"
  proof
    assume "prefix (rev w) (rev (key @ CHR ''='' # value))"
    then have p: "prefix (rev w) (rev value @ CHR ''='' # rev key)" by simp
    have "\<not> prefix (rev w) (rev value)" using assms(1) w by (auto simp: trimmed_def list_all_iff)
    then obtain ys where "rev w = rev value @ ys" "ys \<noteq> []" "prefix ys (CHR ''='' # rev key)"
      using p by (auto simp: prefix_append)
    then have "CHR ''='' \<in> set (rev w)" by (auto simp: prefix_Cons)
    then show False using rune_no_eq [OF w] by simp
  qed
  ultimately show "\<not> prefix w (key @ CHR ''='' # value) \<and> \<not> prefix (rev w) (rev (key @ CHR ''='' # value))" by blast
qed

text \<open>The keys of the file.\<close>

definition key_ok :: "string \<Rightarrow> bool" where
  "key_ok key \<longleftrightarrow> key \<noteq> [] \<and> printable (hd key) \<and> printable (last key) \<and> CHR ''='' \<notin> set key \<and> hd key \<noteq> CHR ''#''"

lemma configLine_pair:
  assumes "key_ok key" and "trimmed value"
  shows "configLine n (key @ CHR ''='' # value) cfg = applyKey n key value cfg"
proof -
  have t: "TrimSpace (key @ CHR ''='' # value) = key @ CHR ''='' # value" "TrimSpace key = key" "TrimSpace value = value"
    using assms trimmed_pair [of "value" key] trimmedI [of key] by (simp_all add: TrimSpace_trimmed key_ok_def)
  have "\<not> HasPrefix (key @ CHR ''='' # value) ''#''" using assms(1) by (cases key) (auto simp: HasPrefix_def key_ok_def)
  then show ?thesis using assms(1) t by (simp add: configLine_def Cut_append key_ok_def)
qed

lemma trimmed_dropCR: "trimmed s \<Longrightarrow> dropCR s = s"
proof -
  assume t: "trimmed s"
  have "last s \<noteq> CHR 0x0D" if "s \<noteq> []"
  proof
    assume "last s = CHR 0x0D"
    then have "prefix [CHR 0x0D] (rev s)" using that by (cases s rule: rev_cases) auto
    moreover have "[CHR 0x0D] \<in> set spaceRunes" by (simp add: spaceRunes_def)
    ultimately show False using t by (auto simp: trimmed_def list_all_iff)
  qed
  then show ?thesis by (auto simp: dropCR_def)
qed


section \<open>Round trip\<close>

text \<open>The texts that survive: no white space at the ends, no newline, and short enough for the scanner.\<close>

definition plain :: "string \<Rightarrow> bool" where
  "plain s \<longleftrightarrow> trimmed s \<and> newline \<notin> set s \<and> length s < 65000"

lemma printable_plain:
  assumes "\<And>c. c \<in> set s \<Longrightarrow> printable c" and "length s < 65000"
  shows "plain s"
proof -
  have "\<not> printable newline" by (simp add: printable_def newline_def)
  moreover have "trimmed s" using assms(1) by (intro trimmedI) simp
  ultimately show ?thesis using assms by (auto simp: plain_def)
qed

lemma plain_boolText: "plain (boolText b)"
  by (rule printable_plain) (auto simp: boolText_def printable_def split: if_splits)

lemma length_natDigits: "n < 10 ^ k \<Longrightarrow> 0 < k \<Longrightarrow> length (natDigits n) \<le> k"
proof (induction n arbitrary: k rule: natDigits.induct)
  case (1 n)
  show ?case
  proof (cases "n < 10")
    case True
    then show ?thesis using 1(3) by (subst natDigits.simps) simp
  next
    case False
    then obtain j where j: "k = Suc j" "0 < j" using 1(2,3) by (cases k; cases "k - 1") auto
    then have d: "n div 10 < 10 ^ j" using 1(2) by (simp add: less_mult_imp_div_less mult.commute)
    then show ?thesis using 1(1) [OF False d j(2)] False j(1) by (subst natDigits.simps) simp
  qed
qed

lemma plain_Itoa: "in_i64 n \<Longrightarrow> plain (Itoa n)"
proof (rule printable_plain)
  assume n: "in_i64 n"
  then have "nat n < 10 ^ 19" "nat (- n) < 10 ^ 19" by (cases "n < 0"; simp add: nat_less_iff)+
  then have "length (natDigits (nat n)) \<le> 19" "length (natDigits (nat (- n))) \<le> 19" by (auto intro: length_natDigits)
  then show "length (Itoa n) < 65000" by (auto simp: Itoa_def)
qed (rule Itoa_printable)

lemma ParseBool_boolText: "ParseBool (boolText b) = Some b"
  by (simp add: ParseBool_def boolText_def)

lemma plain_line:
  assumes "key_ok key" and "newline \<notin> set key" and "length key < 100" and "plain value"
  shows "newline \<notin> set (key @ CHR ''='' # value) \<and> length (key @ CHR ''='' # value) < MaxScanTokenSize \<and>
    dropCR (key @ CHR ''='' # value) = key @ CHR ''='' # value"
proof -
  have "trimmed (key @ CHR ''='' # value)" using assms trimmed_pair [of "value" key] by (simp add: key_ok_def plain_def)
  then show ?thesis using assms trimmed_dropCR by (simp add: plain_def newline_def MaxScanTokenSize_def)
qed

definition configValues :: "config \<Rightarrow> (string \<times> string) list" where
  "configValues cfg =
     [(''server-name'', ServerName cfg), (''server-address'', Address cfg), (''server-port'', Itoa (Port cfg)),
      (''max-players'', Itoa (MaxPlayers cfg)), (''view-distance'', Itoa (ViewDistance cfg)), (''online-mode'', boolText (OnlineMode cfg)),
      (''gamemode'', GameMode cfg), (''log-level'', LogLevel cfg), (''log-file'', LogFile cfg), (''color-logs'', boolText (ColorLogs cfg))]"

definition header_line :: string where
  "header_line = ''# BetterAltay-Go server configuration''"

lemma propertyLines_values:
  "propertyLines cfg = header_line # map (\<lambda>(key, v). key @ CHR ''='' # v) (configValues cfg)"
  by (simp add: propertyLines_def configValues_def header_line_def)

lemma configValues_keys: "(key, v) \<in> set (configValues cfg) \<Longrightarrow> key_ok key \<and> newline \<notin> set key \<and> length key < 100"
  by (auto simp: configValues_def key_ok_def printable_def newline_def)

definition config_plain :: "config \<Rightarrow> bool" where
  "config_plain cfg \<longleftrightarrow> plain (ServerName cfg) \<and> plain (Address cfg) \<and> plain (GameMode cfg) \<and> plain (LogLevel cfg) \<and> plain (LogFile cfg) \<and>
     in_i64 (Port cfg) \<and> in_i64 (MaxPlayers cfg) \<and> in_i64 (ViewDistance cfg)"

lemma configValues_plain: "config_plain cfg \<Longrightarrow> (key, v) \<in> set (configValues cfg) \<Longrightarrow> plain v"
  by (auto simp: configValues_def config_plain_def intro: plain_boolText plain_Itoa)

lemma scan_properties:
  assumes "config_plain cfg"
  shows "scanLines (MarshalProperties cfg) = (propertyLines cfg, False)"
  unfolding MarshalProperties_def
proof (rule scanLines_concat)
  fix line assume "line \<in> set (propertyLines cfg)"
  then consider "line = header_line" | key v where "(key, v) \<in> set (configValues cfg)" "line = key @ CHR ''='' # v"
    by (auto simp: propertyLines_values)
  then show "newline \<notin> set line \<and> length line < MaxScanTokenSize \<and> dropCR line = line"
  proof cases
    case 1
    then show ?thesis by (simp add: header_line_def newline_def MaxScanTokenSize_def dropCR_def)
  next
    case 2
    then show ?thesis using plain_line configValues_keys configValues_plain [OF assms] by blast
  qed
qed

lemma header_skipped: "configLine n header_line cfg = Inr cfg"
proof -
  have "TrimSpace header_line = header_line" by (rule TrimSpace_trimmed, rule trimmedI) (simp add: header_line_def printable_def)
  then show ?thesis by (simp add: configLine_def HasPrefix_def header_line_def)
qed

lemma forE_values:
  assumes "\<And>key v. (key, v) \<in> set kvs \<Longrightarrow> key_ok key \<and> trimmed v"
  shows "forE (\<lambda>(n, text). configLine n text) (enumerate m (map (\<lambda>(key, v). key @ CHR ''='' # v) kvs)) cfg =
    forE (\<lambda>(n, key, v). applyKey n key v) (enumerate m kvs) cfg"
  using assms
proof (induction kvs arbitrary: m cfg)
  case Nil
  then show ?case by simp
next
  case (Cons kv kvs)
  obtain key v where kv: "kv = (key, v)" by (cases kv)
  have "configLine m (key @ CHR ''='' # v) cfg = applyKey m key v cfg" using Cons.prems kv by (intro configLine_pair) auto
  moreover have "forE (\<lambda>(n, text). configLine n text) (enumerate (Suc m) (map (\<lambda>(key, v). key @ CHR ''='' # v) kvs)) c =
    forE (\<lambda>(n, key, v). applyKey n key v) (enumerate (Suc m) kvs) c" for c using Cons.IH Cons.prems by (meson list.set_intros(2))
  ultimately show ?case using kv by (simp split: sum.split)
qed

lemma Load_printed:
  assumes "Validate cfg = None" and "config_plain cfg"
  shows "Load \<lparr>mkdirOK = True, fileState = Contents (MarshalProperties cfg) False, writeOK = w\<rparr> = Inr (cfg, False)"
proof -
  have "forE (\<lambda>(n, text). configLine n text) (enumerate 2 (map (\<lambda>(key, v). key @ CHR ''='' # v) (configValues cfg))) DefaultConfig =
    forE (\<lambda>(n, key, v). applyKey n key v) (enumerate 2 (configValues cfg)) DefaultConfig"
    by (rule forE_values) (use configValues_keys configValues_plain [OF assms(2)] in \<open>auto simp: plain_def\<close>)
  moreover have "forE (\<lambda>(n, key, v). applyKey n key v) (enumerate 2 (configValues cfg)) DefaultConfig = Inr cfg"
    using assms(2) by (simp add: configValues_def applyKey_def integerField_def booleanField_def Atoi_Itoa ParseBool_boolText config_plain_def)
  ultimately have "parseConfig (propertyLines cfg) = Inr cfg"
    by (simp add: parseConfig_def propertyLines_values header_skipped numeral_2_eq_2)
  then show ?thesis using assms scan_properties by (simp add: Load_def)
qed

lemma DefaultConfig_plain: "config_plain DefaultConfig"
proof -
  have "plain ''BetterAltay-Go Server''"
    unfolding plain_def by (simp add: newline_def) (rule trimmedI, simp add: printable_def)
  then show ?thesis by (auto simp: config_plain_def DefaultConfig_def printable_def intro!: printable_plain)
qed

lemma DefaultConfig_valid: "Validate DefaultConfig = None"
  by (simp add: Validate_def DefaultConfig_def)

text \<open>
  C38. A printed configuration is read back. If a configuration is valid, its texts have no white space at their
  ends, no line breaks and fewer than 65000 bytes, and its numbers are Go integers, then loading a
  file with the output of \<^verbatim>\<open>MarshalProperties\<close> returns exactly that configuration.
\<close>

theorem config_round_trip:
  assumes "Validate cfg = None" and "config_plain cfg"
  shows "Load \<lparr>mkdirOK = True, fileState = Contents (MarshalProperties cfg) False, writeOK = w\<rparr> = Inr (cfg, False)"
  using assms by (rule Load_printed)

text \<open>Witness of \<open>config_round_trip\<close>: the default configuration, which \<^verbatim>\<open>Load\<close> writes when there is no file.\<close>

theorem config_round_trip_witness:
  "Load \<lparr>mkdirOK = True, fileState = FileMissing, writeOK = True\<rparr> = Inr (DefaultConfig, True) \<and>
   Load \<lparr>mkdirOK = True, fileState = Contents (MarshalProperties DefaultConfig) False, writeOK = True\<rparr> = Inr (DefaultConfig, False)"
  using config_round_trip [OF DefaultConfig_valid DefaultConfig_plain, of True] by (simp add: Load_def)

end
