(* ===== verification/Motd.thy ===== *)
theory Motd
  imports Decimal
begin

text \<open>
  The answer to server list pings (\<^verbatim>\<open>internal/network/raknet/motd.go\<close>): nine fields, each followed by a
  semicolon, with the semicolons inside the free texts escaped.
\<close>

record PongInfo =
  pongMOTD :: string
  pongProtocolVersion :: int
  pongMinecraftVersion :: string
  pongOnlinePlayers :: int
  pongMaxPlayers :: int
  pongServerID :: int
  pongServerName :: string
  pongGameMode :: string

definition backslash :: char where
  "backslash = CHR 0x5C"

text \<open>\<^verbatim>\<open>strings.ReplaceAll(value, ";", `\;`)\<close> and \<^verbatim>\<open>strings.TrimRight(value, `\`)\<close>.\<close>

definition escapeSemicolons :: "string \<Rightarrow> string" where
  "escapeSemicolons s = concat (map (\<lambda>c. if c = CHR '';'' then [backslash, c] else [c]) s)"

definition trimBackslashes :: "string \<Rightarrow> string" where
  "trimBackslashes s = rev (dropWhile (\<lambda>c. c = backslash) (rev s))"

definition escapePongField :: "string \<Rightarrow> string" where
  "escapePongField s = trimBackslashes (escapeSemicolons s)"

definition editionMinecraftBedrock :: string where
  "editionMinecraftBedrock = ''MCPE''"

definition pongFields :: "PongInfo \<Rightarrow> string list" where
  "pongFields info =
     [editionMinecraftBedrock, escapePongField (pongMOTD info), Itoa (pongProtocolVersion info), pongMinecraftVersion info,
      Itoa (pongOnlinePlayers info), Itoa (pongMaxPlayers info), Itoa (pongServerID info),
      escapePongField (pongServerName info), escapePongField (pongGameMode info)]"

definition PongData :: "PongInfo \<Rightarrow> string" where
  "PongData info = Join (pongFields info) '';'' @ '';''"

section \<open>Splitting\<close>

text \<open>
  A reader of the format: fields end at semicolons that do not follow a backslash. \<open>acc\<close> is the current field, reversed.
\<close>

fun splitPong :: "string \<Rightarrow> string \<Rightarrow> string list" where
  "splitPong acc [] = []"
| "splitPong acc (c # cs) =
     (if c = CHR '';'' \<and> \<not> (acc \<noteq> [] \<and> hd acc = backslash) then rev acc # splitPong [] cs else splitPong (c # acc) cs)"

text \<open>A field that a reader does not break: semicolons follow backslashes, and it does not end with one.\<close>

definition guarded :: "string \<Rightarrow> bool" where
  "guarded s \<longleftrightarrow> (\<forall>a b. s = a @ CHR '';'' # b \<longrightarrow> a \<noteq> [] \<and> last a = backslash) \<and> (s = [] \<or> last s \<noteq> backslash)"

lemma splitPong_guarded:
  assumes "\<And>a b. rev acc @ s = a @ CHR '';'' # b \<Longrightarrow> a \<noteq> [] \<and> last a = backslash"
    and "rev acc @ s = [] \<or> last (rev acc @ s) \<noteq> backslash"
  shows "splitPong acc (s @ CHR '';'' # rest) = (rev acc @ s) # splitPong [] rest"
  using assms
proof (induction s arbitrary: acc)
  case Nil
  then show ?case by (auto simp: last_rev)
next
  case (Cons c s)
  have "\<not> (c = CHR '';'' \<and> \<not> (acc \<noteq> [] \<and> hd acc = backslash))"
    using Cons.prems(1) [of "rev acc" s] by (auto simp: last_rev)
  then show ?case using Cons.IH [of "c # acc"] Cons.prems by simp
qed

lemma splitPong_field: "guarded s \<Longrightarrow> splitPong [] (s @ CHR '';'' # rest) = s # splitPong [] rest"
  using splitPong_guarded [of "[]" s rest] by (auto simp: guarded_def)

lemma splitPong_fields:
  assumes "\<And>f. f \<in> set fs \<Longrightarrow> guarded f" and "fs \<noteq> []"
  shows "splitPong [] (Join fs '';'' @ '';'') = fs"
  using assms
proof (induction fs rule: induct_list012)
  case (2 x)
  have "splitPong [] (x @ CHR '';'' # []) = x # splitPong [] []"
    using 2 by (intro splitPong_field) simp
  then show ?case by simp
next
  case (3 x y zs)
  have "splitPong [] (x @ CHR '';'' # (Join (y # zs) '';'' @ '';'')) = x # splitPong [] (Join (y # zs) '';'' @ '';'')"
    using 3 by (intro splitPong_field) simp
  then show ?case using 3 by simp
qed simp

lemma escapeSemicolons_split:
  "escapeSemicolons s = a @ CHR '';'' # b \<Longrightarrow> a \<noteq> [] \<and> last a = backslash"
proof (induction s arbitrary: a)
  case Nil
  then show ?case by (simp add: escapeSemicolons_def)
next
  case (Cons c s)
  show ?case
  proof (cases "c = CHR '';''")
    case True
    then have e: "backslash # CHR '';'' # escapeSemicolons s = a @ CHR '';'' # b" using Cons.prems by (simp add: escapeSemicolons_def)
    then obtain a' where a: "a = backslash # a'" by (cases a) (auto simp: backslash_def)
    show ?thesis
    proof (cases a')
      case Nil
      then show ?thesis using a by simp
    next
      case (Cons d a'')
      then have "escapeSemicolons s = a'' @ CHR '';'' # b" "d = CHR '';''" using e a by simp_all
      then show ?thesis using Cons.IH [of a''] a Cons by auto
    qed
  next
    case False
    then have "c # escapeSemicolons s = a @ CHR '';'' # b" using Cons.prems by (simp add: escapeSemicolons_def)
    then obtain a' where "a = c # a'" "escapeSemicolons s = a' @ CHR '';'' # b" using False by (cases a) auto
    then show ?thesis using Cons.IH by auto
  qed
qed

lemma trimBackslashes_prefix: "prefix (trimBackslashes s) s"
proof -
  have "suffix (dropWhile (\<lambda>c. c = backslash) (rev s)) (rev s)" by (rule suffix_dropWhile)
  then show ?thesis unfolding trimBackslashes_def by (metis suffix_to_prefix rev_rev_ident)
qed

lemma escapePongField_guarded: "guarded (escapePongField s)"
  unfolding guarded_def
proof (intro conjI allI impI)
  fix a b assume "escapePongField s = a @ CHR '';'' # b"
  moreover obtain r where "escapeSemicolons s = escapePongField s @ r"
    using trimBackslashes_prefix [of "escapeSemicolons s"] by (auto simp: escapePongField_def prefix_def)
  ultimately have "escapeSemicolons s = a @ CHR '';'' # (b @ r)" by simp
  then show "a \<noteq> []" "last a = backslash" using escapeSemicolons_split by blast+
next
  show "escapePongField s = [] \<or> last (escapePongField s) \<noteq> backslash"
  proof (cases "dropWhile (\<lambda>c. c = backslash) (rev (escapeSemicolons s))")
    case Nil
    then show ?thesis by (simp add: escapePongField_def trimBackslashes_def)
  next
    case (Cons c cs)
    then have "c \<noteq> backslash" by (metis (mono_tags, lifting) dropWhile_eq_Cons_conv)
    then show ?thesis using Cons by (simp add: escapePongField_def trimBackslashes_def)
  qed
qed

lemma guarded_no_semicolon: "CHR '';'' \<notin> set s \<Longrightarrow> (s = [] \<or> last s \<noteq> backslash) \<Longrightarrow> guarded s"
  by (auto simp: guarded_def)

lemma Itoa_guarded: "guarded (Itoa n)"
proof -
  have "c \<noteq> CHR '';'' \<and> c \<noteq> backslash" if "c \<in> set (Itoa n)" for c
  proof -
    have d: "digitChar d \<noteq> CHR '';'' \<and> digitChar d \<noteq> backslash" if "d < 10" for d
      using digitValue_digitChar [OF that] by (auto simp: digitValue_def backslash_def Let_def)
    have "c = CHR ''-'' \<or> (\<exists>d<10. c = digitChar d)"
      using that by (auto simp: Itoa_def dest: natDigits_digits split: if_splits)
    then show ?thesis using d by (auto simp: backslash_def)
  qed
  then show ?thesis by (intro guarded_no_semicolon) (auto dest: last_in_set)
qed

text \<open>
  Every ping answer has nine fields. Splitting the answer at the semicolons that do not follow a backslash
  gives back exactly the nine fields, with the escaped server name, brand and game mode in their places,
  whatever these texts contain, provided the version text of the protocol library is a plain text.
\<close>

lemma pong_data_splits:
  assumes "CHR '';'' \<notin> set (pongMinecraftVersion info)" and "backslash \<notin> set (pongMinecraftVersion info)"
  shows "splitPong [] (PongData info) = pongFields info"
  unfolding PongData_def
proof (rule splitPong_fields)
  fix f assume "f \<in> set (pongFields info)"
  moreover have "guarded editionMinecraftBedrock"
    by (rule guarded_no_semicolon) (simp_all add: editionMinecraftBedrock_def backslash_def)
  moreover have "guarded (pongMinecraftVersion info)"
    using assms by (intro guarded_no_semicolon) (auto dest: last_in_set)
  ultimately show "guarded f" using escapePongField_guarded Itoa_guarded by (auto simp: pongFields_def)
qed (simp add: pongFields_def)

end
