(* ===== verification/Float64.thy ===== *)
theory Float64
  imports Complex_Main "HOL-Library.Log_Nat"
begin

text \<open>
  The arithmetic of \<^verbatim>\<open>float64\<close> on rationals: the exact result of an operation is rounded to the
  nearest number with a significand of 53 bits, ties to the even one. Numbers below the
  smallest normal exponent lose bits; overflow to infinity is left out, because the only use
  (ticks per second) has values below \<open>2^63\<close>.
\<close>

section \<open>Rounding\<close>

definition halfEven :: "rat \<Rightarrow> int" where
  "halfEven x = (let n = \<lfloor>x\<rfloor>; d = x - of_int n in if d < 1 / 2 \<or> d = 1 / 2 \<and> even n then n else n + 1)"

definition exponent64 :: "rat \<Rightarrow> int" where
  "exponent64 q =
     (let (a, b) = quotient_of q; e = int (floorlog 2 (nat a)) - int (floorlog 2 (nat b));
          e' = (if 2 powi e \<le> q then e else e - 1)
      in max (- 1022) e')"

definition roundMag64 :: "rat \<Rightarrow> rat" where
  "roundMag64 q = (let k = 52 - exponent64 q in of_int (halfEven (q * 2 powi k)) / 2 powi k)"

definition round64 :: "rat \<Rightarrow> rat" where
  "round64 q = (if q = 0 then 0 else if q < 0 then - roundMag64 (- q) else roundMag64 q)"

section \<open>Bounds\<close>

lemma halfEven_le: "x \<le> of_int n \<Longrightarrow> halfEven x \<le> n"
proof (cases "x = of_int n")
  case False
  assume "x \<le> of_int n"
  then have "\<lfloor>x\<rfloor> < n" using False by (simp add: floor_less_iff)
  then show ?thesis by (simp add: halfEven_def Let_def)
qed (simp add: halfEven_def)

lemma halfEven_nonneg: "0 \<le> x \<Longrightarrow> 0 \<le> halfEven x"
  by (simp add: halfEven_def Let_def)

lemma halfEven_near: "of_int n \<le> x \<Longrightarrow> x < of_int n + 1 / 2 \<Longrightarrow> halfEven x = n"
proof -
  assume a: "of_int n \<le> x" "x < of_int n + 1 / 2"
  then have "\<lfloor>x\<rfloor> = n" by (simp add: floor_unique)
  then show ?thesis using a by (simp add: halfEven_def)
qed

lemma powi_floorlog:
  assumes "0 < (x :: nat)"
  shows "2 powi (int (floorlog 2 x) - 1) \<le> (of_nat x :: rat)" "(of_nat x :: rat) < 2 powi int (floorlog 2 x)"
proof -
  have b: "2 ^ (floorlog 2 x - 1) \<le> x" "x < 2 ^ floorlog 2 x" using floorlog_bounds [of x 2] assms by simp_all
  have "floorlog 2 x \<noteq> 0" using assms by (simp add: floorlog_def)
  then have "(2 :: rat) powi (int (floorlog 2 x) - 1) = of_nat (2 ^ (floorlog 2 x - 1))"
    by (metis One_nat_def Suc_leI int_ops(6) nat_neq_iff not_less0 of_nat_1 of_nat_diff of_nat_numeral of_nat_power power_int_of_nat)
  also have "\<dots> \<le> of_nat x" using b(1) by (rule of_nat_mono)
  finally show "2 powi (int (floorlog 2 x) - 1) \<le> (of_nat x :: rat)" .
  have "(of_nat x :: rat) < of_nat (2 ^ floorlog 2 x)" using b(2) by (rule less_imp_of_nat_less)
  then show "(of_nat x :: rat) < 2 powi int (floorlog 2 x)" by simp
qed

lemma exponent64_bounds:
  assumes "0 < q"
  shows "q < 2 powi (exponent64 q + 1)" and "exponent64 q = - 1022 \<or> 2 powi exponent64 q \<le> q"
proof -
  obtain a b where ab: "quotient_of q = (a, b)" by fastforce
  have b: "0 < b" and q: "q = of_int a / of_int b" using ab quotient_of_denom_pos quotient_of_div by blast+
  have a: "0 < a" using assms b by (simp add: q zero_less_divide_iff)
  define A B where "A = nat a" and "B = nat b"
  have AB: "0 < A" "0 < B" "q = of_nat A / of_nat B" using a b by (simp_all add: A_def B_def q)
  define m n where "m = int (floorlog 2 A)" and "n = int (floorlog 2 B)"
  have r: "2 powi (m - 1) \<le> (of_nat A :: rat)" "(of_nat A :: rat) < 2 powi m" "2 powi (n - 1) \<le> (of_nat B :: rat)" "(of_nat B :: rat) < 2 powi n"
    using powi_floorlog [OF AB(1)] powi_floorlog [OF AB(2)] by (simp_all add: m_def n_def)
  have u: "q < 2 powi (m - n + 1)"
  proof -
    have "q * 2 powi (n - 1) \<le> q * of_nat B" using r(3) assms by simp
    also have "\<dots> < 2 powi m" using r(2) AB by simp
    finally have "q < 2 powi m / 2 powi (n - 1)" by (simp add: pos_less_divide_eq)
    then show ?thesis by (simp flip: power_int_diff add: algebra_simps)
  qed
  have l: "2 powi (m - n - 1) \<le> q"
  proof -
    have "2 powi (m - 1) / 2 powi n \<le> of_nat A / (of_nat B :: rat)"
      using r AB by (intro frac_le) simp_all
    then show ?thesis using AB(3) by (simp flip: power_int_diff add: algebra_simps)
  qed
  have e: "exponent64 q = max (- 1022) (if 2 powi (m - n) \<le> q then m - n else m - n - 1)"
    by (simp add: exponent64_def ab m_def n_def A_def B_def Let_def)
  show "q < 2 powi (exponent64 q + 1)"
  proof -
    have "q < 2 powi ((if 2 powi (m - n) \<le> q then m - n else m - n - 1) + 1)" using u by simp
    also have "\<dots> \<le> 2 powi (exponent64 q + 1)" unfolding e by (intro power_int_increasing) simp_all
    finally show ?thesis .
  qed
  show "exponent64 q = - 1022 \<or> 2 powi exponent64 q \<le> q"
    using l unfolding e by (simp add: max_def)
qed

lemma exponent64_le:
  assumes "0 < q" and "q < 2 ^ Suc k"
  shows "exponent64 q \<le> int k"
proof (rule ccontr)
  assume "\<not> ?thesis"
  then have g: "int (Suc k) \<le> exponent64 q" by simp
  then have "2 powi exponent64 q \<le> q" using exponent64_bounds(2) [OF assms(1)] by auto
  moreover have "(2 :: rat) powi int (Suc k) \<le> 2 powi exponent64 q" using g by (intro power_int_increasing) simp_all
  ultimately show False using assms(2) by (simp del: power_Suc of_nat_Suc)
qed

lemma round64_nonneg: "0 \<le> q \<Longrightarrow> 0 \<le> round64 q"
  by (simp add: round64_def roundMag64_def Let_def halfEven_nonneg)

lemma round64_le_int:
  assumes "0 \<le> q" and "q \<le> of_int c" and "c < 2 ^ 53"
  shows "round64 q \<le> of_int c"
proof (cases "q = 0")
  case False
  then have q: "0 < q" using assms(1) by simp
  have "(of_int c :: rat) < of_int (2 ^ 53)" using assms(3) by (simp only: of_int_less_iff)
  then have "q < 2 ^ Suc 52" using assms(2) by simp
  then have "exponent64 q \<le> 52" using exponent64_le [OF q, of 52] by simp
  then obtain k where k: "52 - exponent64 q = int k" by (metis diff_ge_0_iff_ge nonneg_int_cases)
  have "q * 2 ^ k \<le> of_int (c * 2 ^ k)" using assms(2) by simp
  then have "halfEven (q * 2 ^ k) \<le> c * 2 ^ k" by (rule halfEven_le)
  then have "(of_int (halfEven (q * 2 ^ k)) :: rat) \<le> of_int c * 2 ^ k"
    by (metis of_int_le_iff of_int_mult of_int_numeral of_int_power)
  then show ?thesis using q k by (simp add: round64_def roundMag64_def Let_def divide_le_eq)
qed (use assms in \<open>simp add: round64_def\<close>)

lemma round64_above_one:
  assumes "1 \<le> q" and "q \<le> 1 + 1 / 2 ^ 54"
  shows "round64 q = 1"
proof -
  have "exponent64 q \<le> 0" using exponent64_le [of q 0] assms by simp
  moreover have "0 \<le> exponent64 q"
  proof (rule ccontr)
    assume "\<not> ?thesis"
    then have "(2 :: rat) powi (exponent64 q + 1) \<le> 2 powi 0" by (intro power_int_increasing) simp_all
    then show False using exponent64_bounds(1) [of q] assms by simp
  qed
  ultimately have e: "exponent64 q = 0" by simp
  have "halfEven (q * 2 ^ 52) = 2 ^ 52" using assms by (intro halfEven_near) simp_all
  then show ?thesis using assms by (simp add: round64_def roundMag64_def e)
qed

lemma round64_constants: "round64 (95 / 100) = 8556839292003942 / 2 ^ 53" "round64 (5 / 100) = 7205759403792794 / 2 ^ 57"
  by code_simp+

end
