(* ===== verification/Game_Server.thy ===== *)
theory Game_Server
  imports Config Motd Lifecycle Float64
begin

text \<open>
  The server process (\<^verbatim>\<open>internal/server/server.go\<close>, \<^verbatim>\<open>NewMCPEHandler\<close> of \<^verbatim>\<open>mcpe_session.go\<close>,
  \<^verbatim>\<open>internal/network/mcpe/server.go\<close>, the ping answer of \<^verbatim>\<open>internal/network/raknet/server.go\<close>):
  construction from options, the advertised player count, saved players, and the queue of tasks
  that the tick loop runs.

  A task is a value of some type; \<open>exec\<close> gives what running it does, panics included, since
  \<^verbatim>\<open>runTask\<close> recovers from them. Times are nanoseconds given by the clock; ticks per second are \<^verbatim>\<open>float64\<close>,
  rounded after each operation by \<open>round64\<close>. Of a network listener its ID and its address are used.
\<close>

section \<open>Creating the handler\<close>

record MCPEOptions =
  optServerName :: string
  optServerBrand :: string
  optGameMode :: string
  optMaxPlayers :: int
  optViewDistance :: int
  optOnlineMode :: bool
  optWorld :: "ChunkProvider option"
  optResourcePacks :: "Pack list"
  optTexturePacksRequired :: bool
  optShutdown :: bool

datatype new_error =
    InvalidConfig config_error
  | EmptyHandlerName
  | WorldError flat_error
  | PackError nat
  | CommandsPanic
  | KeyError
  | EmptyListenAddress
  | NilClientFactory
  | ListenFailed

definition NewMCPEHandler :: "proto \<Rightarrow> nbt_encoder \<Rightarrow> PrivateKey option \<Rightarrow> MCPEOptions \<Rightarrow> new_error + MCPEHandler" where
  "NewMCPEHandler P enc generated options =
     (if optServerName options = [] then Inl EmptyHandlerName
      else
        let brand = (if optServerBrand options = [] then ''BetterAltay-Go'' else optServerBrand options);
            maxPl = (if optMaxPlayers options < 1 then 1 else optMaxPlayers options);
            mode = (if optGameMode options = [] then ''Survival'' else optGameMode options)
        in case (case optWorld options of Some w \<Rightarrow> Inr w | None \<Rightarrow> map_sum id (flatProvider enc) NewFlatGenerator) of
             Inl e \<Rightarrow> Inl (WorldError e)
           | Inr source \<Rightarrow>
           (case Normalize (uuidString (loginLib P)) (protoPackTypes P) (optResourcePacks options) of
              Inl i \<Rightarrow> Inl (PackError i)
            | Inr packs \<Rightarrow>
              if newDefaultCommands P = None then Inl CommandsPanic
              else case generated of
                None \<Rightarrow> Inl KeyError
              | Some key \<Rightarrow>
                  Inr \<lparr>config =
                      \<lparr>serverName = optServerName options, serverBrand = brand, gameMode = mode, maxPlayers = maxPl,
                       viewDistance = optViewDistance options, onlineMode = optOnlineMode options, world = source,
                       chunks = newChunkPublisher source (i32 (optViewDistance options)), resourcePacks = packs,
                       texturePacksRequired = optTexturePacksRequired options, hasShutdown = optShutdown options\<rparr>,
                     privateKey = Some key, players = [], nextID = 0, operators = [], callbacks = []\<rparr>))"

section \<open>The network server\<close>

record net_server =
  pongInfo :: PongInfo
  listenerID :: int
  listenerAddr :: string
  netClosed :: bool
  raknetPong :: PongInfo
  pongData :: string

definition SetPongInfo :: "PongInfo \<Rightarrow> net_server \<Rightarrow> net_server" where
  "SetPongInfo info net =
     (let info = (if pongServerID info = 0 then info\<lparr>pongServerID := listenerID net\<rparr> else info) in
      net\<lparr>raknetPong := info, pongData := PongData info\<rparr>)"

text \<open>\<open>listening\<close> gives the ID and the address of the listener, if listening on the address succeeds.\<close>

definition Listen :: "proto \<Rightarrow> (int \<times> string) option \<Rightarrow> string \<Rightarrow> bool \<Rightarrow> string \<Rightarrow> string \<Rightarrow> string \<Rightarrow> int \<Rightarrow> int \<Rightarrow> new_error + net_server" where
  "Listen P listening address hasFactory name brand0 mode0 maxPl0 online =
     (if address = [] then Inl EmptyListenAddress
      else if name = [] then Inl EmptyHandlerName
      else
        let brand = (if brand0 = [] then ''BetterAltay-Go'' else brand0);
            maxPl = (if maxPl0 < 1 then 1 else maxPl0);
            mode = (if mode0 = [] then ''Survival'' else mode0)
        in if \<not> hasFactory then Inl NilClientFactory
           else
             let info = \<lparr>pongMOTD = name, pongProtocolVersion = CurrentProtocol P, pongMinecraftVersion = CurrentVersion P,
               pongOnlinePlayers = online, pongMaxPlayers = maxPl, pongServerID = 0, pongServerName = brand, pongGameMode = mode\<rparr>
             in case listening of
                  None \<Rightarrow> Inl ListenFailed
                | Some (n, bound) \<Rightarrow> Inr (SetPongInfo info \<lparr>pongInfo = info, listenerID = n, listenerAddr = bound, netClosed = False, raknetPong = info, pongData = []\<rparr>))"

definition UpdateOnlinePlayers :: "int \<Rightarrow> net_server \<Rightarrow> net_server" where
  "UpdateOnlinePlayers online0 net =
     (let online = (if online0 < 0 then 0 else online0); info = (pongInfo net)\<lparr>pongOnlinePlayers := online\<rparr>
      in SetPongInfo info (net\<lparr>pongInfo := info\<rparr>))"

definition CloseNet :: "net_server \<Rightarrow> net_server" where
  "CloseNet net = net\<lparr>netClosed := True\<rparr>"

section \<open>The server\<close>

record PlayerSnapshot =
  snapUUID :: string
  snapName :: string
  snapXUID :: string
  snapRuntimeID :: u64
  snapMotion :: Motion

record 't game_server =
  sConfig :: config
  sBrand :: string
  sVersion :: string
  hasPlayerStore :: bool
  started :: bool
  running :: bool
  stopped :: bool
  cancelled :: bool
  startedAt :: "int option"
  mcpeState :: mcpe
  mcpeServer :: "net_server option"
  taskQueue :: "'t list"
  tickCount :: u64
  lastTickTime :: int
  tps :: rat
  snapshots :: "PlayerSnapshot list"

definition tickRate :: int where
  "tickRate = 20"

definition taskQueueCap :: nat where
  "taskQueueCap = 128"

text \<open>Clients are created on connection; before that their addresses hold a new client of the handler.\<close>

definition newServer :: "proto \<Rightarrow> nbt_encoder \<Rightarrow> PrivateKey option \<Rightarrow> config \<Rightarrow> string \<Rightarrow> string \<Rightarrow> ChunkProvider option \<Rightarrow> bool
    \<Rightarrow> new_error + 't game_server" where
  "newServer P enc generated conf brand0 version0 source store =
     (let brand = (if brand0 = [] then ''BetterAltay-Go'' else brand0);
          version = (if version0 = [] then brand else version0)
      in case Validate conf of
           Some e \<Rightarrow> Inl (InvalidConfig e)
         | None \<Rightarrow>
         (case NewMCPEHandler P enc generated
             \<lparr>optServerName = ServerName conf, optServerBrand = brand, optGameMode = GameMode conf, optMaxPlayers = MaxPlayers conf,
              optViewDistance = ViewDistance conf, optOnlineMode = OnlineMode conf, optWorld = source, optResourcePacks = [],
              optTexturePacksRequired = False, optShutdown = True\<rparr> of
            Inl e \<Rightarrow> Inl e
          | Inr h \<Rightarrow> Inr \<lparr>sConfig = conf, sBrand = brand, sVersion = version, hasPlayerStore = store, started = False,
              running = False, stopped = False, cancelled = False, startedAt = None,
              mcpeState = \<lparr>handler = h, clients = (\<lambda>a. NewMCPEClient h goodConn)\<rparr>, mcpeServer = None, taskQueue = [], tickCount = 0,
              lastTickTime = 0, tps = of_int tickRate, snapshots = []\<rparr>))"

definition OnlinePlayers :: "'t game_server \<Rightarrow> int" where
  "OnlinePlayers srv = int (length (allPlayers (mcpeState srv)))"

text \<open>\<^verbatim>\<open>net.JoinHostPort\<close> puts hosts with a colon into brackets.\<close>

definition JoinHostPort :: "string \<Rightarrow> string \<Rightarrow> string" where
  "JoinHostPort host port = (if CHR '':'' \<in> set host then ''['' @ host @ '']:'' @ port else host @ '':'' @ port)"

definition startNetwork :: "proto \<Rightarrow> (int \<times> string) option \<Rightarrow> 't game_server \<Rightarrow> new_error + 't game_server" where
  "startNetwork P listening srv =
     (let listenAddress = JoinHostPort (Address (sConfig srv)) (Itoa (Port (sConfig srv))) in
      case Listen P listening listenAddress True (ServerName (sConfig srv)) (sBrand srv) (GameMode (sConfig srv))
          (MaxPlayers (sConfig srv)) (OnlinePlayers srv) of
        Inl e \<Rightarrow> Inl e
      | Inr net \<Rightarrow> Inr (srv\<lparr>mcpeServer := Some net\<rparr>))"

definition Stop :: "'t game_server \<Rightarrow> 't game_server" where
  "Stop srv = srv\<lparr>cancelled := True\<rparr>"

text \<open>\<open>online\<close> is what \<^verbatim>\<open>OnlinePlayers\<close> returned, before the lock of \<^verbatim>\<open>UpdateOnlinePlayers\<close> is taken.\<close>

definition updateMOTD :: "int \<Rightarrow> 't game_server \<Rightarrow> 't game_server" where
  "updateMOTD online srv = srv\<lparr>mcpeServer := map_option (UpdateOnlinePlayers online) (mcpeServer srv)\<rparr>"

definition playerSnapshot :: "proto \<Rightarrow> MCPEClient \<Rightarrow> PlayerSnapshot" where
  "playerSnapshot P cl =
     \<lparr>snapUUID = uuidString (loginLib P) (playerUUID (player cl)), snapName = DisplayName (loginIdentity (login cl)),
      snapXUID = XUID (loginIdentity (login cl)), snapRuntimeID = runtimeID cl, snapMotion = playerMotion (player cl)\<rparr>"

text \<open>An error of the store is only logged; \<open>snapshots\<close> are the calls of \<^verbatim>\<open>SavePlayer\<close>.\<close>

definition savePlayer :: "proto \<Rightarrow> addr \<Rightarrow> 't game_server \<Rightarrow> 't game_server" where
  "savePlayer P a srv =
     (let cl = clients (mcpeState srv) a in
      if \<not> hasPlayerStore srv \<or> runtimeID cl = 0 then srv
      else srv\<lparr>snapshots := snapshots srv @ [playerSnapshot P cl]\<rparr>)"

text \<open>
  The callbacks that \<^verbatim>\<open>New\<close> gives to the handler. The number in an event is the size of the player table when the handler
  called back, so it is what \<^verbatim>\<open>OnlinePlayers\<close> returns in the callback if no other join or leave comes between.
\<close>

fun runCallback :: "proto \<Rightarrow> handler_event \<Rightarrow> 't game_server \<Rightarrow> 't game_server" where
  "runCallback P (PlayerJoined a n) srv = updateMOTD (int n) srv"
| "runCallback P (PlayerLeft a n) srv = updateMOTD (int n) (savePlayer P a srv)"
| "runCallback P ShutdownCalled srv = Stop srv"

section \<open>Tasks and ticks\<close>

datatype submit_error = ContextCanceled | QueueFull

text \<open>\<open>preferDone\<close> is the choice of \<^verbatim>\<open>select\<close> when the context is done and the queue has room.\<close>

definition Submit :: "bool \<Rightarrow> 't option \<Rightarrow> 't game_server \<Rightarrow> submit_error option \<times> 't game_server" where
  "Submit preferDone task srv =
     (case task of
        None \<Rightarrow> (None, srv)
      | Some t \<Rightarrow>
          let room = (length (taskQueue srv) < taskQueueCap) in
          if cancelled srv \<and> (\<not> room \<or> preferDone) then (Some ContextCanceled, srv)
          else if room then (None, srv\<lparr>taskQueue := taskQueue srv @ [t]\<rparr>)
          else (Some QueueFull, srv))"

definition runTask :: "('t \<Rightarrow> 't game_server \<Rightarrow> 't game_server) \<Rightarrow> 't \<Rightarrow> 't game_server \<Rightarrow> 't game_server" where
  "runTask exec t srv = exec t srv"

partial_function (option) drainTasks :: "('t \<Rightarrow> 't game_server \<Rightarrow> 't game_server) \<Rightarrow> 't game_server \<Rightarrow> 't game_server option" where
  "drainTasks exec srv =
     (case taskQueue srv of
        [] \<Rightarrow> Some srv
      | t # ts \<Rightarrow> drainTasks exec (runTask exec t (srv\<lparr>taskQueue := ts\<rparr>)))"

definition tickTPS :: "int \<Rightarrow> rat \<Rightarrow> rat" where
  "tickTPS elapsed old =
     (if elapsed \<le> 0 then of_int tickRate
      else
        let instant = round64 (10 ^ 9 / round64 (of_int elapsed));
            instant = (if instant > of_int tickRate then of_int tickRate else instant)
        in round64 (round64 (old * round64 (95 / 100)) + round64 (instant * round64 (5 / 100))))"

definition tickOnce :: "('t \<Rightarrow> 't game_server \<Rightarrow> 't game_server) \<Rightarrow> int \<Rightarrow> 't game_server \<Rightarrow> 't game_server option" where
  "tickOnce exec elapsed srv =
     map_option (\<lambda>srv. srv\<lparr>tickCount := tickCount srv + 1, lastTickTime := elapsed, tps := tickTPS elapsed (tps srv)\<rparr>)
       (drainTasks exec srv)"

definition Start :: "proto \<Rightarrow> int \<Rightarrow> (int \<times> string) option \<Rightarrow> 't game_server \<Rightarrow> new_error option \<times> 't game_server" where
  "Start P now listening srv =
     (if started srv then (None, srv)
      else
        let srv = srv\<lparr>started := True, startedAt := Some now\<rparr> in
        case startNetwork P listening srv of
          Inl e \<Rightarrow> (Some e, srv\<lparr>cancelled := True, stopped := True\<rparr>)
        | Inr srv \<Rightarrow> (None, srv\<lparr>running := True\<rparr>))"

text \<open>The deferred calls of \<^verbatim>\<open>run\<close>, last one first: the network is closed, a panic cancels the context, \<^verbatim>\<open>done\<close> is closed.\<close>

definition logCrash :: "bool \<Rightarrow> 't game_server \<Rightarrow> 't game_server" where
  "logCrash panicked srv = (if panicked then srv\<lparr>cancelled := True\<rparr> else srv)"

definition runExit :: "bool \<Rightarrow> 't game_server \<Rightarrow> 't game_server" where
  "runExit panicked srv =
     (logCrash panicked (srv\<lparr>mcpeServer := map_option CloseNet (mcpeServer srv)\<rparr>))\<lparr>running := False, stopped := True\<rparr>"

text \<open>
  One round of the loop in \<^verbatim>\<open>run\<close>: any ready case may be taken. Only the case of the done context ends the loop.
\<close>

inductive loop_step :: "('t \<Rightarrow> 't game_server \<Rightarrow> 't game_server) \<Rightarrow> 't game_server \<Rightarrow> 't game_server \<Rightarrow> bool"
  for exec where
  run_task: "running srv \<Longrightarrow> taskQueue srv = t # ts \<Longrightarrow> loop_step exec srv (runTask exec t (srv\<lparr>taskQueue := ts\<rparr>))"
| run_tick: "running srv \<Longrightarrow> tickOnce exec elapsed srv = Some srv' \<Longrightarrow> loop_step exec srv srv'"
| run_exit: "running srv \<Longrightarrow> cancelled srv \<Longrightarrow> loop_step exec srv (runExit False srv)"

text \<open>
  \<^verbatim>\<open>run\<close> as a whole: rounds of the loop, or a panic that nothing recovered. Tasks recover from their panics, so no modelled code
  causes such a panic; it is allowed for statements about every way in which the server ends.
\<close>

inductive run_step :: "('t \<Rightarrow> 't game_server \<Rightarrow> 't game_server) \<Rightarrow> 't game_server \<Rightarrow> 't game_server \<Rightarrow> bool"
  for exec where
  run_round: "loop_step exec srv srv' \<Longrightarrow> run_step exec srv srv'"
| run_panic: "running srv \<Longrightarrow> run_step exec srv (runExit True srv)"

text \<open>\<^verbatim>\<open>Run\<close>: while the loop runs, the caller's context may end at any time; then the server is stopped.\<close>

inductive run_call :: "proto \<Rightarrow> int \<Rightarrow> (int \<times> string) option \<Rightarrow> ('t \<Rightarrow> 't game_server \<Rightarrow> 't game_server) \<Rightarrow> 't game_server
    \<Rightarrow> new_error option \<Rightarrow> 't game_server \<Rightarrow> bool" for P now listening exec where
  start_failed: "Start P now listening srv = (Some e, srv') \<Longrightarrow> run_call P now listening exec srv (Some e) srv'"
| ended: "Start P now listening srv = (None, srv1) \<Longrightarrow> (run_step exec)\<^sup>*\<^sup>* srv1 srv' \<Longrightarrow> stopped srv' \<Longrightarrow>
    run_call P now listening exec srv None srv'"
| interrupted: "Start P now listening srv = (None, srv1) \<Longrightarrow> (run_step exec)\<^sup>*\<^sup>* srv1 srv2 \<Longrightarrow>
    (run_step exec)\<^sup>*\<^sup>* (Stop srv2) srv' \<Longrightarrow> stopped srv' \<Longrightarrow> run_call P now listening exec srv None srv'"

text \<open>
  What the server tells about itself. \<open>measured\<close> are the number of goroutines and the two memory sizes
  that the Go runtime reports, \<open>now\<close> is the clock.
\<close>

record Stats =
  StartedAt :: "int option"
  Uptime :: int
  Tick :: u64
  LastTickTime :: int
  TPS :: rat
  Online :: int
  StatsMaxPlayers :: int
  Goroutines :: int
  MemoryAlloc :: u64
  HeapInUse :: u64
  TaskQueueLen :: nat
  TaskQueueCap :: nat

definition serverStats :: "int \<times> u64 \<times> u64 \<Rightarrow> int \<Rightarrow> 't game_server \<Rightarrow> Stats" where
  "serverStats measured now srv =
     (case measured of (goroutines, alloc, inUse) \<Rightarrow>
        \<lparr>StartedAt = startedAt srv, Uptime = (case startedAt srv of None \<Rightarrow> 0 | Some t \<Rightarrow> now - t), Tick = tickCount srv,
         LastTickTime = lastTickTime srv, TPS = tps srv, Online = OnlinePlayers srv, StatsMaxPlayers = MaxPlayers (sConfig srv),
         Goroutines = goroutines, MemoryAlloc = alloc, HeapInUse = inUse, TaskQueueLen = length (taskQueue srv),
         TaskQueueCap = taskQueueCap\<rparr>)"

record Info =
  InfoServerName :: string
  InfoBrand :: string
  InfoProtocolVersion :: int
  InfoMinecraftVersion :: string
  InfoGameMode :: string
  InfoOnlinePlayers :: int
  InfoMaxPlayers :: int
  InfoAddress :: "string option"

definition serverAddr :: "'t game_server \<Rightarrow> string option" where
  "serverAddr srv = map_option listenerAddr (mcpeServer srv)"

definition serverInfo :: "proto \<Rightarrow> 't game_server \<Rightarrow> Info" where
  "serverInfo P srv =
     \<lparr>InfoServerName = ServerName (sConfig srv), InfoBrand = sBrand srv, InfoProtocolVersion = CurrentProtocol P,
      InfoMinecraftVersion = CurrentVersion P, InfoGameMode = GameMode (sConfig srv), InfoOnlinePlayers = OnlinePlayers srv,
      InfoMaxPlayers = MaxPlayers (sConfig srv), InfoAddress = serverAddr srv\<rparr>"

lemma Submit_bounded:
  "length (taskQueue srv) \<le> taskQueueCap \<Longrightarrow> length (taskQueue (snd (Submit preferDone task srv))) \<le> taskQueueCap"
  by (auto simp: Submit_def Let_def split: option.split)

text \<open>Tasks that submit nothing are all run, in the order of submission.\<close>

lemma drainTasks_order:
  assumes "\<And>t srv. taskQueue (exec t srv) = taskQueue srv"
  shows "drainTasks exec srv = Some (fold (\<lambda>t srv. exec t (srv\<lparr>taskQueue := tl (taskQueue srv)\<rparr>)) (taskQueue srv) srv)"
proof (induction "taskQueue srv" arbitrary: srv)
  case Nil
  then show ?case by (subst drainTasks.simps) simp
next
  case (Cons t ts)
  let ?srv = "exec t (srv\<lparr>taskQueue := ts\<rparr>)"
  have q: "taskQueue srv = t # ts" "taskQueue ?srv = ts" using Cons(2) assms by simp_all
  then have "drainTasks exec ?srv = Some (fold (\<lambda>t srv. exec t (srv\<lparr>taskQueue := tl (taskQueue srv)\<rparr>)) ts ?srv)"
    using Cons(1) [of ?srv] by simp
  then show ?case using q by (subst drainTasks.simps) (simp add: runTask_def)
qed

text \<open>What neither tasks nor the queue change is the same after the queue was drained.\<close>

lemma drainTasks_keeps:
  assumes "drainTasks exec srv = Some srv'" and "\<And>s ts. Q s \<Longrightarrow> Q (s\<lparr>taskQueue := ts\<rparr>)" and "\<And>t s. Q s \<Longrightarrow> Q (exec t s)" and "Q srv"
  shows "Q srv'"
proof -
  let ?P = "\<lambda>exec srv srv'. (\<forall>t s. Q s \<longrightarrow> Q (exec t s)) \<longrightarrow> Q srv \<longrightarrow> Q srv'"
  have "?P exec srv srv'"
  proof (rule drainTasks.raw_induct [where P = ?P, OF _ assms(1)])
    fix drain and exec :: "'a \<Rightarrow> 'a game_server \<Rightarrow> 'a game_server" and srv srv'
    assume ih: "\<And>exec srv srv'. drain exec srv = Some srv' \<Longrightarrow> ?P exec srv srv'"
      and d: "(case taskQueue srv of [] \<Rightarrow> Some srv | t # ts \<Rightarrow> drain exec (runTask exec t (srv\<lparr>taskQueue := ts\<rparr>))) = Some srv'"
    show "?P exec srv srv'" using d assms(2) by (auto simp: runTask_def dest: ih split: list.splits)
  qed
  then show ?thesis using assms(3,4) by blast
qed

section \<open>The advertised player count\<close>

text \<open>
  A step of the session layer, together with the callbacks that it made, each with the count that the handler's call
  let it read. In \<open>serving_run\<close> the callbacks of a step have finished before the next step: joins and leaves of different sessions do not overlap. What
  happens when they do is the subject of theory \<open>Player_Count\<close>.
\<close>

definition served :: "proto \<Rightarrow> 't game_server \<Rightarrow> mcpe \<Rightarrow> 't game_server" where
  "served P srv st' =
     fold (runCallback P) (drop (length (callbacks (handler (mcpeState srv)))) (callbacks (handler st'))) (srv\<lparr>mcpeState := st'\<rparr>)"

inductive serving_run :: "proto \<Rightarrow> 't game_server \<Rightarrow> nat \<Rightarrow> 't game_server \<Rightarrow> (addr \<Rightarrow> conn_status) \<Rightarrow> bool" for P srv0 where
  started: "serving_run P srv0 0 srv0 (\<lambda>a. Idle)"
| session_step: "serving_run P srv0 n srv cs \<Longrightarrow> step P (mcpeState srv, cs) (st', cs') \<Longrightarrow> serving_run P srv0 (Suc n) (served P srv st') cs'"


text \<open>The count that the last join or leave read.\<close>

fun countAfter :: "handler_event \<Rightarrow> nat \<Rightarrow> nat" where
  "countAfter (PlayerJoined a k) n = k"
| "countAfter (PlayerLeft a k) n = k"
| "countAfter ShutdownCalled n = n"

definition lastCount :: "handler_event list \<Rightarrow> nat" where
  "lastCount evs = fold countAfter evs 0"

lemma lastCount_tableEvents: "lastCount evs = lastCount (tableEvents evs)"
proof -
  have "fold countAfter evs n = fold countAfter (tableEvents evs) n" for n
    by (induction evs arbitrary: n) (auto simp: tableEvents_def)
  then show ?thesis by (simp add: lastCount_def)
qed

definition counted :: "mcpe \<Rightarrow> bool" where
  "counted st \<longleftrightarrow> lastCount (callbacks (handler st)) = length (players (handler st))"

text \<open>Callbacks are only added, and the last join or leave has read the size of the table.\<close>

definition grows :: "mcpe \<Rightarrow> mcpe \<Rightarrow> bool" where
  "grows st st' \<longleftrightarrow> prefix (callbacks (handler st)) (callbacks (handler st')) \<and> (counted st \<longrightarrow> counted st')"

interpretation grows: framed grows
proof
  show "grows st1 st3" if "grows st1 st2" "grows st2 st3" for st1 st2 st3
    using that unfolding grows_def by (meson prefix_order.trans)
  show "grows st (snd (writeEvent a ev st))" for st a ev
    using writeEvent_grown [of st a ev] by (simp add: grows_def only_logs_def counted_def)
qed (simp add: grows_def)

lemma quiet_grows: "quiet st st' \<Longrightarrow> grows st st'"
  using lastCount_tableEvents [of "callbacks (handler st)"] lastCount_tableEvents [of "callbacks (handler st')"]
  by (simp add: quiet_def grows_def counted_def)

lemma frames_quiet_grows: "frames quiet act \<Longrightarrow> frames grows act"
  by (simp add: frames_def quiet_grows)

lemma grows_login: "frames grows (handleLogin P env a n request)"
  unfolding frames_def
proof
  fix st
  obtain r st' where h: "handleLogin P env a n request st = (r, st')" by fastforce
  from handleLogin_effect [OF h] have "quiet st st' \<or> (\<exists>data. quiet (setClient a (\<lambda>cl. cl\<lparr>login := data\<rparr>) st) st')" by blast
  then have "grows st st'" by (auto dest!: quiet_grows simp: grows_def counted_def setClient_def)
  then show "grows st (snd (handleLogin P env a n request st))" using h by simp
qed

lemma grows_startGame: "frames grows (startGame P env a)"
  unfolding frames_def
proof
  fix st
  obtain r st' where h: "startGame P env a st = (r, st')" by fastforce
  have "grows st (takeID a st)" "grows st (register a pl (takeID a st))" for pl
    by (simp_all add: grows_def counted_def lastCount_def takeID_fields register_fields)
  then have "grows st st'" using startGame_effect [OF h] quiet_grows grows.trans by meson
  then show "grows st (snd (startGame P env a st))" using h by simp
qed

lemma grows_finish: "frames grows (finishResourcePackFlow P env a)"
  unfolding finishResourcePackFlow_def
  using frames_quiet_grows [OF quiet_packs(1)] grows_startGame by (auto intro!: grows.combinators)

lemma grows_dispatch: "frames grows (dispatch P env a pk)"
proof (cases pk)
  case (ResourcePackClientResponse resp ps)
  then show ?thesis
    by (auto simp: dispatch_def handleResourcePackClientResponse_def grows_finish intro!: frames_quiet_grows split: pack_response.split)
next
  case ResourcePacksReadyForValidation
  then show ?thesis
    by (auto simp: dispatch_def handleResourcePacksReadyForValidation_def grows_finish intro!: grows.combinators)
qed (auto simp: dispatch_def grows_login intro!: frames_quiet_grows)

lemma grows_HandlePacket: "HandlePacket P env a pk st = (r, st') \<Longrightarrow> grows st st'"
proof -
  assume h: "HandlePacket P env a pk st = (r, st')"
  obtain r0 st0 where d: "dispatch P env a pk st = (r0, st0)" by fastforce
  have "grows st st0" using grows_dispatch [of P env a pk] d by (metis frames_def snd_conv)
  then show "grows st st'"
    using h d by (auto simp: HandlePacket_def grows.refl split: if_splits option.splits server_error.splits)
qed

lemma grows_OnDisconnect: "grows st (OnDisconnect a st)"
  using removePlayer_effect [of a st] quiet_grows [of "leave a st"]
  by (auto simp: OnDisconnect_def grows_def counted_def lastCount_def leave_fields dest: append_prefixD)

lemma step_grows:
  assumes "step P (st, cs) (st', cs')"
  shows "grows st st'"
  using assms
proof (cases rule: step_cases)
  case (console line r)
  then have "quiet st st'" by (auto simp: ExecuteConsoleCommand_def newDefaultCommands_builtin intro: quiet_dispatch)
  then show ?thesis by (rule quiet_grows)
next
  case (failed a env pk e st1)
  then show ?thesis using grows_HandlePacket grows_OnDisconnect grows.trans by blast
next
  case (connect a c)
  then show ?thesis by (simp add: grows_def counted_def setClient_def)
qed (auto simp: grows_OnDisconnect grows_HandlePacket)


section \<open>The count in the ping answer\<close>

lemma length_allPlayers: "length (allPlayers st) = length (players (handler st))"
  by (simp add: allPlayers_def sortClientsByRuntimeID_def)

text \<open>The ping answer shows the count \<open>n\<close>.\<close>

definition advertises :: "nat \<Rightarrow> 't game_server \<Rightarrow> bool" where
  "advertises n srv \<longleftrightarrow> (\<exists>net. mcpeServer srv = Some net \<and> pongOnlinePlayers (pongInfo net) = int n \<and>
     pongOnlinePlayers (raknetPong net) = int n \<and> pongData net = PongData (raknetPong net))"

lemma UpdateOnlinePlayers_fields:
  "pongOnlinePlayers (pongInfo (UpdateOnlinePlayers n net)) = max 0 n" "pongOnlinePlayers (raknetPong (UpdateOnlinePlayers n net)) = max 0 n"
  "pongData (UpdateOnlinePlayers n net) = PongData (raknetPong (UpdateOnlinePlayers n net))"
  by (simp_all add: UpdateOnlinePlayers_def SetPongInfo_def Let_def)

lemma runCallback_fields: "mcpeState (runCallback P ev srv) = mcpeState srv"
  by (cases ev) (simp_all add: updateMOTD_def savePlayer_def Stop_def Let_def)

lemma runCallback_advertises:
  assumes "advertises n srv"
  shows "advertises (countAfter ev n) (runCallback P ev srv)"
proof -
  obtain net where "mcpeServer srv = Some net" using assms by (auto simp: advertises_def)
  then have "advertises k (updateMOTD (int k) srv)" "advertises k (updateMOTD (int k) (savePlayer P a srv))" for k a
    using UpdateOnlinePlayers_fields(3) [of "int k" net] by (auto simp: advertises_def updateMOTD_def savePlayer_def Let_def UpdateOnlinePlayers_fields(1,2))
  then show ?thesis using assms by (cases ev) (simp_all add: advertises_def Stop_def)
qed

lemma callbacks_advertise:
  "advertises n srv \<Longrightarrow> advertises (fold countAfter evs n) (fold (runCallback P) evs srv) \<and> mcpeState (fold (runCallback P) evs srv) = mcpeState srv"
proof (induction evs arbitrary: n srv)
  case (Cons ev evs)
  from Cons.IH [OF runCallback_advertises [OF Cons.prems, of ev P]] show ?case by (simp add: runCallback_fields)
qed simp

lemma served_advertises:
  assumes "advertises (lastCount (callbacks (handler (mcpeState srv)))) srv" and "step P (mcpeState srv, cs) (st', cs')"
  shows "advertises (lastCount (callbacks (handler st'))) (served P srv st') \<and> mcpeState (served P srv st') = st'"
proof -
  let ?old = "callbacks (handler (mcpeState srv))"
  obtain evs where e: "callbacks (handler st') = ?old @ evs"
    using step_grows [OF assms(2)] by (auto simp: grows_def prefix_def)
  have "advertises (lastCount ?old) (srv\<lparr>mcpeState := st'\<rparr>)" using assms(1) by (simp add: advertises_def)
  from callbacks_advertise [OF this, of evs P] show ?thesis by (simp add: served_def e lastCount_def)
qed


text \<open>Every run of the session layer is part of a run of the server.\<close>

lemma served_state: "mcpeState (served P srv st') = st'"
proof -
  have "mcpeState (fold (runCallback P) evs srv0) = mcpeState srv0" for evs and srv0 :: "'a game_server"
    by (induction evs arbitrary: srv0) (simp_all add: runCallback_fields)
  then show ?thesis by (simp add: served_def)
qed

lemma reach_serving_run:
  assumes "reach P hc key n s" and "initialServer hc key = (mcpeState srv0, \<lambda>a. Idle)"
  shows "\<exists>srv'. serving_run P srv0 n srv' (snd s) \<and> mcpeState srv' = fst s"
  using assms
proof (induction rule: reach.induct)
  case start
  then show ?case using serving_run.started [of P srv0] by auto
next
  case (next_step n s s')
  then obtain srv1 where "serving_run P srv0 n srv1 (snd s)" "mcpeState srv1 = fst s" by blast
  then show ?case
    using serving_run.session_step [of P srv0 n srv1 "snd s" "fst s'" "snd s'"] next_step.hyps(2)
    by (intro exI [of _ "served P srv1 (fst s')"]) (simp add: served_state)
qed

definition sampleProperties :: Config.config where
  "sampleProperties = DefaultConfig\<lparr>ServerName := ''bds'', GameMode := ''survival'', OnlineMode := True\<rparr>"

lemma sample_newServer:
  "\<exists>srv :: nat game_server. newServer sampleProto sampleEncoder (Some (toyKey 1000)) sampleProperties [] [] None False = Inr srv \<and>
     mcpeState srv = startedServer \<and> sConfig srv = sampleProperties"
proof -
  have "Validate sampleProperties = None" by (simp add: Validate_def sampleProperties_def DefaultConfig_def)
  then show ?thesis
    by (simp add: newServer_def NewMCPEHandler_def Let_def sampleProperties_def DefaultConfig_def NewFlatGenerator_eq Normalize_def
        newDefaultCommands_builtin startedServer_def initialServer_def sampleConfig_def)
qed


end
