(* ===== verification/Player_Count.thy ===== *)
theory Player_Count
  imports Game_Server
begin

text \<open>
  Joins and leaves that overlap. The player table is changed under the lock of the handler (\<^verbatim>\<open>addPlayer\<close>, \<^verbatim>\<open>removePlayer\<close> of
  \<^verbatim>\<open>mcpe_player_sync.go\<close>), then the callback reads the number of players (\<^verbatim>\<open>updateMOTD\<close> of \<^verbatim>\<open>server.go\<close>), and then
  \<^verbatim>\<open>UpdateOnlinePlayers\<close> publishes it under another lock (\<^verbatim>\<open>network/mcpe/server.go\<close>). Each of these is one step of the
  session's goroutine, and the goroutines of different sessions interleave.

  The published count is right whenever no update is under way, provided that no count was out of date when it was
  published; two sessions that join at the same time can violate this and leave a wrong count behind.
\<close>

section \<open>Steps\<close>

text \<open>Where a session is: outside of a join or leave, in its callback, or about to publish the number it has read.\<close>

datatype updater = Outside | InCallback | Publishing int

record count_state =
  playerTable :: "(u64, addr) gomap"
  pingServer :: net_server
  updaters :: "addr \<Rightarrow> updater"

definition enterPhase :: "addr \<Rightarrow> updater \<Rightarrow> count_state \<Rightarrow> count_state" where
  "enterPhase a u st = st\<lparr>updaters := (updaters st)(a := u)\<rparr>"

definition changeTable :: "addr \<Rightarrow> (u64, addr) gomap \<Rightarrow> count_state \<Rightarrow> count_state" where
  "changeTable a m st = enterPhase a InCallback (st\<lparr>playerTable := m\<rparr>)"

definition readCount :: "addr \<Rightarrow> count_state \<Rightarrow> count_state" where
  "readCount a st = enterPhase a (Publishing (int (length (playerTable st)))) st"

definition publishCount :: "addr \<Rightarrow> int \<Rightarrow> count_state \<Rightarrow> count_state" where
  "publishCount a n st = enterPhase a Outside (st\<lparr>pingServer := UpdateOnlinePlayers n (pingServer st)\<rparr>)"

inductive count_step :: "count_state \<Rightarrow> count_state \<Rightarrow> bool" where
  join: "updaters st a = Outside \<Longrightarrow> count_step st (changeTable a (AList.update n a (playerTable st)) st)"
| leave: "updaters st a = Outside \<Longrightarrow> map_of (playerTable st) n = Some a \<Longrightarrow>
    count_step st (changeTable a (AList.delete n (playerTable st)) st)"
| read: "updaters st a = InCallback \<Longrightarrow> count_step st (readCount a st)"
| publish: "updaters st a = Publishing n \<Longrightarrow> count_step st (publishCount a n st)"

inductive_cases count_step_cases [consumes 1, case_names join leave read publish]: "count_step st st'"

section \<open>When the count is right\<close>

definition idle :: "count_state \<Rightarrow> bool" where
  "idle st \<longleftrightarrow> (\<forall>a. updaters st a = Outside)"

definition exact :: "count_state \<Rightarrow> bool" where
  "exact st \<longleftrightarrow> pongOnlinePlayers (raknetPong (pingServer st)) = int (length (playerTable st))"

text \<open>A step that does not publish an outdated number.\<close>

definition timely_step :: "count_state \<Rightarrow> count_state \<Rightarrow> bool" where
  "timely_step st st' \<longleftrightarrow> count_step st st' \<and>
     (\<forall>a n. updaters st a = Publishing n \<and> updaters st' a = Outside \<longrightarrow> n = int (length (playerTable st)))"

lemmas count_ops = changeTable_def readCount_def publishCount_def enterPhase_def

lemma timely_step_exact:
  assumes "timely_step st st'"
  shows "exact st' \<or> \<not> idle st'"
proof -
  have s: "count_step st st'"
    and t: "\<And>a n. updaters st a = Publishing n \<Longrightarrow> updaters st' a = Outside \<Longrightarrow> n = int (length (playerTable st))"
    using assms by (simp_all add: timely_step_def)
  have busy: "\<not> idle (enterPhase a u st1)" if "u \<noteq> Outside" for a u st1
    using that by (auto simp: idle_def enterPhase_def)
  from s show ?thesis
  proof (cases rule: count_step_cases)
    case (publish a n)
    then have "n = int (length (playerTable st))" using t [of a n] by (simp add: count_ops)
    then show ?thesis using publish by (simp add: exact_def count_ops UpdateOnlinePlayers_fields)
  qed (simp_all add: changeTable_def readCount_def busy)
qed

text \<open>The answer counts the table in every state in which no update is under way.\<close>

lemma timely_updates_exact:
  assumes "timely_step\<^sup>*\<^sup>* st st'" and "exact st" and "idle st'"
  shows "exact st'"
  using assms by (cases rule: rtranclp.cases) (auto dest: timely_step_exact)

text \<open>An update that runs alone repairs a wrong count.\<close>

lemma lone_join_exact:
  assumes "idle st" and "st1 = changeTable a (AList.update n a (playerTable st)) st" and "st2 = readCount a st1"
    and "st3 = publishCount a (int (length (playerTable st1))) st2"
  shows "count_step\<^sup>*\<^sup>* st st3 \<and> idle st3 \<and> exact st3"
proof -
  have "count_step st st1" using assms(1,2) count_step.join by (simp add: idle_def)
  moreover have "count_step st1 st2" unfolding assms(3) by (rule count_step.read) (simp add: assms(2) count_ops)
  moreover have "count_step st2 st3" unfolding assms(4) by (rule count_step.publish) (simp add: assms(3) count_ops)
  ultimately have "count_step\<^sup>*\<^sup>* st st3" by (meson rtranclp.rtrancl_into_rtrancl rtranclp.rtrancl_refl)
  moreover have "idle st3" "exact st3"
    using assms by (auto simp: idle_def exact_def count_ops UpdateOnlinePlayers_fields)
  ultimately show ?thesis by simp
qed

section \<open>The race\<close>

text \<open>
  Two players join a server without players. The first one reads one player, then the second one joins, reads two and publishes
  two, and then the first one publishes one: no update is under way, the table has two players and the answer says one.
\<close>

lemma stale_player_count:
  assumes "idle st" and "playerTable st = []"
  shows "\<exists>st'. count_step\<^sup>*\<^sup>* st st' \<and> idle st' \<and> length (playerTable st') = 2 \<and> pongOnlinePlayers (raknetPong (pingServer st')) = 1"
proof -
  let ?st1 = "changeTable 3 (AList.update 1 3 (playerTable st)) st"
  let ?st2 = "readCount 3 ?st1"
  let ?st3 = "changeTable 4 (AList.update 2 4 (playerTable ?st2)) ?st2"
  let ?st4 = "readCount 4 ?st3"
  let ?st5 = "publishCount 4 2 ?st4"
  let ?st6 = "publishCount 3 1 ?st5"
  have o: "updaters st a = Outside" for a using assms(1) by (simp add: idle_def)
  have "count_step st ?st1" by (rule count_step.join [OF o])
  moreover have "count_step ?st1 ?st2" by (rule count_step.read) (simp add: count_ops)
  moreover have "count_step ?st2 ?st3" by (rule count_step.join) (simp add: count_ops o)
  moreover have "count_step ?st3 ?st4" by (rule count_step.read) (simp add: count_ops)
  moreover have "count_step ?st4 ?st5" by (rule count_step.publish) (simp add: count_ops assms(2))
  moreover have "count_step ?st5 ?st6" by (rule count_step.publish) (simp add: count_ops assms(2))
  ultimately have "count_step\<^sup>*\<^sup>* st ?st6" by (meson rtranclp.rtrancl_into_rtrancl rtranclp.rtrancl_refl)
  then show ?thesis
    using o assms(2) by (intro exI [of _ ?st6]) (simp add: idle_def count_ops UpdateOnlinePlayers_fields)
qed

end
