(* ===== verification/Transport.thy ===== *)
theory Transport
  imports Prelude
begin

text \<open>
  The transport server (\<^verbatim>\<open>internal/network/raknet/server.go\<close>): the loop that accepts connections, one
  goroutine per session, and callers of \<^verbatim>\<open>Close\<close>, interleaved in any order.

  The critical sections of the code are functions on the shared state. The program counter of each
  goroutine is a value of a datatype, and one step of one goroutine is one rule of the relation
  \<open>tstep\<close>. Connections are numbers, since the code compares them by identity. The listener belongs
  to a library: it may return a connection or an error at any time, and it returns \<^verbatim>\<open>ErrListenerClosed\<close>
  only when it was closed.

  A session handler waits in a read on its connection. It returns when the connection is closed; whether it may also
  return on its own, because the client left or an error occurred, is given per connection by \<open>ends\<close>. A
  handler that is running closes its connection once the context is cancelled (the watching goroutine of
  \<^verbatim>\<open>session.Serve\<close>).
\<close>

section \<open>State\<close>

datatype accept_loop = AtAccept | Accepted nat | Refused nat | Registered nat | Stopped

datatype session_thread = NotStarted | Running | Ending | Gone

text \<open>
  \<open>WaitDone first e\<close> and \<open>Returned first e\<close>: \<open>first\<close> tells whether this call closed the server, \<open>e\<close> is the
  error that it returns.
\<close>

datatype closer =
    NotCalled
  | Closing "nat list"
  | WaitSessions "string option"
  | WaitDone bool "string option"
  | Returned bool "string option"

record transport =
  tClosed :: bool
  tSessions :: "nat list"
  tWaitGroup :: int
  tDone :: bool
  tCancelled :: bool
  tListening :: bool
  tLoop :: accept_loop
  tThread :: "nat \<Rightarrow> session_thread"
  tCloser :: "nat \<Rightarrow> closer"
  tSeen :: "nat list"
  tShut :: "nat list"

definition newTransport :: transport where
  "newTransport =
     \<lparr>tClosed = False, tSessions = [], tWaitGroup = 0, tDone = False, tCancelled = False, tListening = True, tLoop = AtAccept,
      tThread = (\<lambda>c. NotStarted), tCloser = (\<lambda>k. NotCalled), tSeen = [], tShut = []\<rparr>"

section \<open>Operations\<close>

definition registerConn :: "nat \<Rightarrow> transport \<Rightarrow> bool \<times> transport" where
  "registerConn c st =
     (if tClosed st then (False, st)
      else (True, st\<lparr>tSessions := List.insert c (tSessions st), tWaitGroup := tWaitGroup st + 1\<rparr>))"

definition unregisterConn :: "nat \<Rightarrow> transport \<Rightarrow> transport" where
  "unregisterConn c st = st\<lparr>tSessions := removeAll c (tSessions st), tWaitGroup := tWaitGroup st - 1\<rparr>"

definition closeConn :: "nat \<Rightarrow> transport \<Rightarrow> transport" where
  "closeConn c st = st\<lparr>tShut := c # tShut st\<rparr>"

text \<open>The part of \<^verbatim>\<open>Close\<close> that holds the lock, and the part after it; \<open>e\<close> is the result of closing the listener.\<close>

definition closeBegin :: "nat \<Rightarrow> transport \<Rightarrow> transport" where
  "closeBegin k st =
     (if tClosed st then st\<lparr>tCloser := (tCloser st)(k := WaitDone False None)\<rparr>
      else st\<lparr>tClosed := True, tCloser := (tCloser st)(k := Closing (tSessions st))\<rparr>)"

definition closeAll :: "nat \<Rightarrow> string option \<Rightarrow> nat list \<Rightarrow> transport \<Rightarrow> transport" where
  "closeAll k e cs st =
     fold closeConn cs (st\<lparr>tCancelled := True, tListening := False, tCloser := (tCloser st)(k := WaitSessions e)\<rparr>)"

inductive tstep :: "(nat \<Rightarrow> bool) \<Rightarrow> transport \<Rightarrow> transport \<Rightarrow> bool" for ends where
  accept: "tLoop st = AtAccept \<Longrightarrow> c \<notin> set (tSeen st) \<Longrightarrow> tstep ends st (st\<lparr>tLoop := Accepted c, tSeen := c # tSeen st\<rparr>)"
| foreign: "tLoop st = AtAccept \<Longrightarrow> c \<notin> set (tSeen st) \<Longrightarrow> tstep ends st (closeConn c (st\<lparr>tSeen := c # tSeen st\<rparr>))"
| accept_failed: "tLoop st = AtAccept \<Longrightarrow> tstep ends st st"
| listener_closed: "tLoop st = AtAccept \<Longrightarrow> \<not> tListening st \<Longrightarrow> tstep ends st (st\<lparr>tLoop := Stopped, tDone := True\<rparr>)"
| registered: "tLoop st = Accepted c \<Longrightarrow> registerConn c st = (True, st') \<Longrightarrow> tstep ends st (st'\<lparr>tLoop := Registered c\<rparr>)"
| refused: "tLoop st = Accepted c \<Longrightarrow> registerConn c st = (False, st') \<Longrightarrow> tstep ends st (st'\<lparr>tLoop := Refused c\<rparr>)"
| refused_close: "tLoop st = Refused c \<Longrightarrow> tstep ends st (closeConn c (st\<lparr>tLoop := AtAccept\<rparr>))"
| spawn: "tLoop st = Registered c \<Longrightarrow> tstep ends st (st\<lparr>tLoop := AtAccept, tThread := (tThread st)(c := Running)\<rparr>)"
| watcher: "tThread st c = Running \<Longrightarrow> tCancelled st \<Longrightarrow> tstep ends st (closeConn c st)"
| handler_returned: "tThread st c = Running \<Longrightarrow> ends c \<or> c \<in> set (tShut st) \<Longrightarrow>
    tstep ends st (closeConn c (st\<lparr>tThread := (tThread st)(c := Ending)\<rparr>))"
| unregistered: "tThread st c = Ending \<Longrightarrow> tstep ends st (unregisterConn c (st\<lparr>tThread := (tThread st)(c := Gone)\<rparr>))"
| close_begin: "tCloser st k = NotCalled \<Longrightarrow> tstep ends st (closeBegin k st)"
| close_all: "tCloser st k = Closing cs \<Longrightarrow> tstep ends st (closeAll k e cs st)"
| sessions_gone: "tCloser st k = WaitSessions e \<Longrightarrow> tWaitGroup st = 0 \<Longrightarrow> tstep ends st (st\<lparr>tCloser := (tCloser st)(k := WaitDone True e)\<rparr>)"
| loop_gone: "tCloser st k = WaitDone first e \<Longrightarrow> tDone st \<Longrightarrow> tstep ends st (st\<lparr>tCloser := (tCloser st)(k := Returned first e)\<rparr>)"

abbreviation transport_reach :: "(nat \<Rightarrow> bool) \<Rightarrow> transport \<Rightarrow> bool" where
  "transport_reach ends \<equiv> (tstep ends)\<^sup>*\<^sup>* newTransport"

section \<open>Invariant\<close>

lemma fold_closeConn: "fold closeConn cs st = st\<lparr>tShut := rev cs @ tShut st\<rparr>"
  by (induction cs arbitrary: st) (simp_all add: closeConn_def)

definition threads_ok :: "transport \<Rightarrow> bool" where
  "threads_ok st \<longleftrightarrow> distinct (tSessions st) \<and> tWaitGroup st = int (length (tSessions st)) \<and>
     (\<forall>c. c \<in> set (tSessions st) \<longleftrightarrow> tThread st c = Running \<or> tThread st c = Ending \<or> tLoop st = Registered c) \<and>
     (\<forall>c. tLoop st = Accepted c \<or> tLoop st = Refused c \<or> tLoop st = Registered c \<longrightarrow> tThread st c = NotStarted \<and> c \<in> set (tSeen st)) \<and>
     (\<forall>c. tThread st c \<noteq> NotStarted \<longrightarrow> c \<in> set (tSeen st)) \<and> (tDone st \<longleftrightarrow> tLoop st = Stopped)"

definition conns_ok :: "transport \<Rightarrow> bool" where
  "conns_ok st \<longleftrightarrow> (\<forall>c. tThread st c = Ending \<or> tThread st c = Gone \<longrightarrow> c \<in> set (tShut st)) \<and>
     (\<forall>c \<in> set (tSeen st). c \<in> set (tShut st) \<or> c \<in> set (tSessions st) \<or> tLoop st = Accepted c \<or> tLoop st = Refused c)"

definition closers_ok :: "transport \<Rightarrow> bool" where
  "closers_ok st \<longleftrightarrow> (\<forall>k. tCloser st k \<noteq> NotCalled \<longrightarrow> tClosed st) \<and> (\<not> tListening st \<longrightarrow> tClosed st) \<and>
     (\<forall>k e. tCloser st k = WaitDone True e \<or> tCloser st k = Returned True e \<longrightarrow> tSessions st = []) \<and>
     (\<forall>k first e. tCloser st k = Returned first e \<longrightarrow> tDone st)"

text \<open>A server that is closed while its listener is open has a caller that will close the listener.\<close>

definition closing_ok :: "transport \<Rightarrow> bool" where
  "closing_ok st \<longleftrightarrow> (tClosed st \<and> tListening st \<longrightarrow> (\<exists>k cs. tCloser st k = Closing cs))"

text \<open>A call that closes the server will close, or has closed, the connections of all sessions.\<close>

definition shut_ok :: "transport \<Rightarrow> bool" where
  "shut_ok st \<longleftrightarrow> (\<forall>k cs. tCloser st k = Closing cs \<longrightarrow> set (tSessions st) \<subseteq> set cs) \<and>
     (\<not> tListening st \<longrightarrow> set (tSessions st) \<subseteq> set (tShut st))"

lemmas transport_ops = registerConn_def unregisterConn_def closeConn_def closeBegin_def closeAll_def fold_closeConn

lemma tstep_threads_ok: "tstep ends st st' \<Longrightarrow> threads_ok st \<Longrightarrow> threads_ok st'"
proof (induction rule: tstep.induct)
  case (unregistered st c)
  then have "c \<in> set (tSessions st)" "distinct (tSessions st)" by (auto simp: threads_ok_def)
  then have "int (length (removeAll c (tSessions st))) = int (length (tSessions st)) - 1"
    by (metis distinct_remove1_removeAll length_pos_if_in_set length_remove1 of_nat_1 of_nat_diff Suc_leI One_nat_def)
  with unregistered show ?case by (auto simp: threads_ok_def unregisterConn_def distinct_removeAll)
qed (auto simp: threads_ok_def transport_ops split: if_splits)

lemma tstep_conns_ok: "tstep ends st st' \<Longrightarrow> threads_ok st \<Longrightarrow> conns_ok st \<Longrightarrow> conns_ok st'"
  by (induction rule: tstep.induct) (auto simp: threads_ok_def conns_ok_def transport_ops split: if_splits)

lemma tstep_closers_ok: "tstep ends st st' \<Longrightarrow> threads_ok st \<Longrightarrow> closers_ok st \<Longrightarrow> closers_ok st'"
  by (induction rule: tstep.induct) (auto simp: threads_ok_def closers_ok_def transport_ops split: if_splits)

lemma tstep_shut_ok: "tstep ends st st' \<Longrightarrow> closers_ok st \<Longrightarrow> shut_ok st \<Longrightarrow> shut_ok st'"
proof (induction rule: tstep.induct)
  case (registered st c st')
  then show ?case by (fastforce simp: shut_ok_def closers_ok_def registerConn_def split: if_splits)
qed (auto simp: shut_ok_def closers_ok_def transport_ops split: if_splits)

lemma closing_upd: "\<exists>k cs. f k = Closing cs \<Longrightarrow> \<forall>cs. f k1 \<noteq> Closing cs \<Longrightarrow> \<exists>k cs. (f(k1 := x)) k = Closing cs"
  by (metis fun_upd_other)

lemma tstep_closing_ok: "tstep ends st st' \<Longrightarrow> closing_ok st \<Longrightarrow> closing_ok st'"
proof (induction rule: tstep.induct)
  case (close_begin st k)
  then show ?case
    using closing_upd [of "tCloser st" k] by (auto simp: closing_ok_def closeBegin_def)
next
  case (registered st c st')
  then show ?case by (auto simp: closing_ok_def registerConn_def split: if_splits)
next
  case (sessions_gone st k e)
  then show ?case using closing_upd [of "tCloser st" k] by (simp add: closing_ok_def)
next
  case (loop_gone st k first e)
  then show ?case using closing_upd [of "tCloser st" k] by (simp add: closing_ok_def)
qed (simp_all add: closing_ok_def closeConn_def registerConn_def unregisterConn_def closeAll_def fold_closeConn split: if_splits)

definition transport_ok :: "transport \<Rightarrow> bool" where
  "transport_ok st \<longleftrightarrow> threads_ok st \<and> conns_ok st \<and> closers_ok st \<and> closing_ok st \<and> shut_ok st"

lemma tsteps_ok: "(tstep ends)\<^sup>*\<^sup>* st st' \<Longrightarrow> transport_ok st \<Longrightarrow> transport_ok st'"
  by (induction rule: rtranclp_induct) (auto simp: transport_ok_def intro: tstep_threads_ok tstep_conns_ok tstep_closers_ok tstep_closing_ok tstep_shut_ok)

lemma transport_reach_ok: "transport_reach ends st \<Longrightarrow> transport_ok st"
  by (erule tsteps_ok) (simp add: transport_ok_def threads_ok_def conns_ok_def closers_ok_def closing_ok_def shut_ok_def newTransport_def)

section \<open>Closing\<close>

lemma tstep_after_return:
  assumes "tstep ends st st'" and "tCloser st k = Returned first e" and "tLoop st = Stopped"
  shows "tCloser st' k = Returned first e \<and> tLoop st' = Stopped \<and> tSeen st' = tSeen st"
  using assms by (induction rule: tstep.induct) (auto simp: transport_ops)

lemma tsteps_after_return:
  assumes "(tstep ends)\<^sup>*\<^sup>* st st'" and "tCloser st k = Returned first e" and "tLoop st = Stopped"
  shows "tCloser st' k = Returned first e \<and> tLoop st' = Stopped \<and> tSeen st' = tSeen st"
  using assms by (induction rule: rtranclp_induct) (auto dest: tstep_after_return)

text \<open>
  C17. What a return of \<^verbatim>\<open>Close\<close> guarantees, then and in every later state. After any call has returned, the accept loop has ended
  and no connection is accepted any more. After the call that closed the server has returned, moreover no session goroutine
  runs, the session table and the wait group are empty, and every connection that was ever accepted was closed. (A further
  call waits for the accept loop only, and may return while sessions still run.)
\<close>

theorem close_stops_everything:
  assumes "transport_reach ends st" and "tCloser st k = Returned first e" and "(tstep ends)\<^sup>*\<^sup>* st st'"
  shows "tDone st' \<and> tLoop st' = Stopped \<and> tSeen st' = tSeen st \<and> (first \<longrightarrow> tSessions st' = [] \<and> tWaitGroup st' = 0 \<and>
    (\<forall>c. tThread st' c = NotStarted \<or> tThread st' c = Gone) \<and> set (tSeen st') \<subseteq> set (tShut st'))"
proof -
  have "transport_ok st" using assms(1) by (rule transport_reach_ok)
  then have "tLoop st = Stopped" using assms(2) by (auto simp: transport_ok_def closers_ok_def threads_ok_def)
  from tsteps_after_return [OF assms(3,2) this] have a: "tCloser st' k = Returned first e" "tLoop st' = Stopped" "tSeen st' = tSeen st" by auto
  have ok: "transport_ok st'" using tsteps_ok [OF assms(3)] \<open>transport_ok st\<close> .
  then have t: "threads_ok st'" "conns_ok st'" by (simp_all add: transport_ok_def)
  have "tSessions st' = [] \<and> tWaitGroup st' = 0 \<and> (\<forall>c. tThread st' c = NotStarted \<or> tThread st' c = Gone) \<and>
    set (tSeen st') \<subseteq> set (tShut st')" if "first"
  proof -
    have s: "tSessions st' = []" using ok a(1) that by (auto simp: transport_ok_def closers_ok_def)
    have "tThread st' c = NotStarted \<or> tThread st' c = Gone" for c
      using t(1) s by (cases "tThread st' c") (auto simp: threads_ok_def)
    then show ?thesis using t a s by (auto simp: threads_ok_def conns_ok_def)
  qed
  then show ?thesis using a t(1) by (auto simp: threads_ok_def)
qed

section \<open>Progress of a call of Close\<close>

text \<open>Facts that no step undoes.\<close>

lemma tstep_stable:
  assumes "tstep (\<lambda>c. False) st st'"
  shows "tLoop st = Stopped \<Longrightarrow> tLoop st' = Stopped" and "\<not> tListening st \<Longrightarrow> \<not> tListening st'"
    and "tCloser st k \<noteq> NotCalled \<Longrightarrow> tCloser st' k \<noteq> NotCalled"
  using assms by (induction rule: tstep.induct) (auto simp: transport_ops split: if_splits)

definition winds :: "transport \<Rightarrow> transport \<Rightarrow> bool" where
  "winds st st' \<longleftrightarrow> (tstep (\<lambda>c. False))\<^sup>*\<^sup>* st st' \<and> tSeen st' = tSeen st"

lemma winds_refl: "winds st st"
  by (simp add: winds_def)

lemma winds_trans: "winds st st' \<Longrightarrow> winds st' st'' \<Longrightarrow> winds st st''"
  by (auto simp: winds_def)

lemma winds_step: "tstep (\<lambda>c. False) st st' \<Longrightarrow> tSeen st' = tSeen st \<Longrightarrow> winds st st'"
  by (simp add: winds_def)

lemma winds_stable:
  assumes "winds st st'"
  shows "tLoop st = Stopped \<Longrightarrow> tLoop st' = Stopped" and "\<not> tListening st \<Longrightarrow> \<not> tListening st'"
    and "tCloser st k \<noteq> NotCalled \<Longrightarrow> tCloser st' k \<noteq> NotCalled" and "transport_ok st \<Longrightarrow> transport_ok st'"
proof -
  have s: "(tstep (\<lambda>c. False))\<^sup>*\<^sup>* st st'" using assms by (simp add: winds_def)
  show "tLoop st = Stopped \<Longrightarrow> tLoop st' = Stopped" "\<not> tListening st \<Longrightarrow> \<not> tListening st'"
    "tCloser st k \<noteq> NotCalled \<Longrightarrow> tCloser st' k \<noteq> NotCalled"
    using s by (induction rule: rtranclp_induct) (blast dest: tstep_stable)+
  show "transport_ok st \<Longrightarrow> transport_ok st'" using s by (rule tsteps_ok)
qed

lemma called_closed: "transport_ok st \<Longrightarrow> tCloser st k \<noteq> NotCalled \<Longrightarrow> tClosed st"
  by (auto simp: transport_ok_def closers_ok_def)

lemma listener_closes:
  assumes "transport_ok st" and "tClosed st"
  shows "\<exists>st'. winds st st' \<and> \<not> tListening st'"
proof (cases "tListening st")
  case True
  then obtain k0 cs where "tCloser st k0 = Closing cs" using assms by (auto simp: transport_ok_def closing_ok_def)
  from tstep.close_all [OF this, of _ None] show ?thesis
    by (intro exI [of _ "closeAll k0 None cs st"]) (simp add: winds_step closeAll_def fold_closeConn)
qed (use winds_refl in blast)

lemma loop_returns_to_accept:
  assumes "tClosed st"
  shows "\<exists>st'. winds st st' \<and> (tLoop st' = AtAccept \<or> tLoop st' = Stopped)"
proof -
  have refuse: "\<exists>st'. winds st st' \<and> tLoop st' = AtAccept" if "tLoop st = Refused c" for st c
    using tstep.refused_close [OF that]
    by (intro exI [of _ "closeConn c (st\<lparr>tLoop := AtAccept\<rparr>)"]) (simp add: winds_step closeConn_def)
  show ?thesis
  proof (cases "tLoop st")
    case (Accepted c)
    have "winds st (st\<lparr>tLoop := Refused c\<rparr>)"
      using tstep.refused [OF Accepted, of st] assms by (simp add: registerConn_def winds_step)
    then show ?thesis using refuse [of "st\<lparr>tLoop := Refused c\<rparr>" c] winds_trans by fastforce
  next
    case (Registered c)
    from tstep.spawn [OF this] show ?thesis
      by (intro exI [of _ "st\<lparr>tLoop := AtAccept, tThread := (tThread st)(c := Running)\<rparr>"]) (simp add: winds_step)
  qed (use refuse winds_refl in blast)+
qed

lemma loop_stops:
  assumes "transport_ok st" and "tCloser st k \<noteq> NotCalled"
  shows "\<exists>st'. winds st st' \<and> tLoop st' = Stopped \<and> \<not> tListening st'"
proof -
  obtain st1 where 1: "winds st st1" "\<not> tListening st1"
    using listener_closes [OF assms(1) called_closed [OF assms]] by blast
  have "tClosed st1" using called_closed winds_stable(3,4) [OF 1(1)] assms by blast
  then obtain st2 where 2: "winds st1 st2" "tLoop st2 = AtAccept \<or> tLoop st2 = Stopped" using loop_returns_to_accept by blast
  have w: "winds st st2" using 1(1) 2(1) by (rule winds_trans)
  show ?thesis
  proof (cases "tLoop st2 = Stopped")
    case False
    then have l: "tLoop st2 = AtAccept" using 2(2) by simp
    let ?st = "st2\<lparr>tLoop := Stopped, tDone := True\<rparr>"
    have "winds st2 ?st" using tstep.listener_closed [OF l winds_stable(2) [OF 2(1) 1(2)]] by (simp add: winds_step)
    from winds_trans [OF w this] show ?thesis using winds_stable(2) [OF 2(1) 1(2)] by (intro exI [of _ ?st]) simp
  qed (use w winds_stable(2) [OF 2(1) 1(2)] in blast)
qed

lemma session_ends:
  assumes "threads_ok st" and "tLoop st = Stopped" and "c \<in> set (tSessions st)" and "c \<in> set (tShut st)"
  shows "\<exists>st'. winds st st' \<and> tSessions st' = removeAll c (tSessions st)"
proof -
  have ending: "\<exists>st'. winds st st' \<and> tSessions st' = removeAll c (tSessions st)" if "tThread st c = Ending" for st
    using tstep.unregistered [OF that]
    by (intro exI [of _ "unregisterConn c (st\<lparr>tThread := (tThread st)(c := Gone)\<rparr>)"]) (simp add: winds_step unregisterConn_def)
  consider "tThread st c = Ending" | "tThread st c = Running" using assms by (auto simp: threads_ok_def)
  then show ?thesis
  proof cases
    case 2
    let ?st = "closeConn c (st\<lparr>tThread := (tThread st)(c := Ending)\<rparr>)"
    have "winds st ?st" using tstep.handler_returned [OF 2] assms(4) by (simp add: winds_step closeConn_def)
    then show ?thesis using ending [of ?st] winds_trans by (fastforce simp: closeConn_def)
  qed (rule ending)
qed

lemma sessions_end:
  assumes "transport_ok st" and "tLoop st = Stopped" and "\<not> tListening st"
  shows "\<exists>st'. winds st st' \<and> tSessions st' = []"
  using assms
proof (induction "length (tSessions st)" arbitrary: st rule: less_induct)
  case less
  show ?case
  proof (cases "tSessions st")
    case Nil
    then show ?thesis using winds_refl by blast
  next
    case (Cons c cs)
    then obtain st1 where 1: "winds st st1" "tSessions st1 = removeAll c (tSessions st)"
      using session_ends [of st c] less.prems by (auto simp: transport_ok_def shut_ok_def)
    have "length (tSessions st1) < length (tSessions st)" using 1(2) Cons by (simp add: le_imp_less_Suc)
    from less.hyps [OF this winds_stable(4) [OF 1(1) less.prems(1)] winds_stable(1) [OF 1(1) less.prems(2)] winds_stable(2) [OF 1(1) less.prems(3)]]
    show ?thesis using winds_trans [OF 1(1)] by blast
  qed
qed

lemma stopped_returns:
  assumes "transport_ok st" and "tLoop st = Stopped" and "tSessions st = []" and "tCloser st k \<noteq> NotCalled"
  shows "\<exists>st' first e. winds st st' \<and> tCloser st' k = Returned first e"
proof -
  have t: "tWaitGroup st = 0" "tDone st" using assms by (auto simp: transport_ok_def threads_ok_def)
  have done_waiting: "\<exists>st' first e. winds st st' \<and> tCloser st' k = Returned first e" if "tCloser st k = WaitDone b e" "tDone st" for st b e
    using tstep.loop_gone [OF that] by (intro exI [of _ "st\<lparr>tCloser := (tCloser st)(k := Returned b e)\<rparr>"]) (simp add: winds_step)
  have waiting: "\<exists>st' first e. winds st st' \<and> tCloser st' k = Returned first e"
    if "tCloser st k = WaitSessions e" "tWaitGroup st = 0" "tDone st" for st e
    using winds_trans [OF winds_step [OF tstep.sessions_gone [OF that(1,2)]]]
      done_waiting [of "st\<lparr>tCloser := (tCloser st)(k := WaitDone True e)\<rparr>" True e] that(3) by fastforce
  show ?thesis
  proof (cases "tCloser st k")
    case (Closing cs)
    let ?st = "closeAll k None cs st"
    have "winds st ?st" using tstep.close_all [OF Closing] by (simp add: winds_step closeAll_def fold_closeConn)
    then show ?thesis using waiting [of ?st None] t winds_trans by (fastforce simp: closeAll_def fold_closeConn)
  qed (use assms(4) t waiting done_waiting winds_refl in blast)+
qed

text \<open>
  C39. A call of \<^verbatim>\<open>Close\<close> is never stuck on sessions that are waiting for data: from every reachable state in which \<^verbatim>\<open>Close\<close> was called,
  whatever the accept loop, the sessions and other callers were doing, there is a continuation in which
  the call returns, although no handler returns unless its connection has been closed (\<open>ends\<close> is
  false everywhere) and no further connection is accepted. So \<^verbatim>\<open>Close\<close> reaches every session, also one that was registered
  while \<^verbatim>\<open>Close\<close> began.
\<close>

theorem close_can_return:
  assumes "transport_reach ends st" and "tCloser st k \<noteq> NotCalled"
  shows "\<exists>st' first e. (tstep (\<lambda>c. False))\<^sup>*\<^sup>* st st' \<and> tCloser st' k = Returned first e \<and> tSeen st' = tSeen st"
proof -
  have i: "transport_ok st" using assms(1) by (rule transport_reach_ok)
  obtain st1 where 1: "winds st st1" "tLoop st1 = Stopped" "\<not> tListening st1" using loop_stops [OF i assms(2)] by blast
  obtain st2 where 2: "winds st1 st2" "tSessions st2 = []" using sessions_end [OF winds_stable(4) [OF 1(1) i] 1(2,3)] by blast
  have "winds st st2" using winds_trans 1(1) 2(1) .
  from stopped_returns [OF winds_stable(4) [OF this i] winds_stable(1) [OF 2(1) 1(2)] 2(2) winds_stable(3) [OF this assms(2)]]
  obtain st' first e where "winds st2 st'" "tCloser st' k = Returned first e" by blast
  then show ?thesis using winds_trans [OF \<open>winds st st2\<close>] by (auto simp: winds_def)
qed

text \<open>A run of the witnesses: connection 7 is served while call 0 of \<^verbatim>\<open>Close\<close> begins.\<close>

definition sampleTransport :: transport where
  "sampleTransport = newTransport\<lparr>tClosed := True, tSessions := [7], tWaitGroup := 1, tThread := (\<lambda>c. NotStarted)(7 := Running),
     tCloser := (\<lambda>k. NotCalled)(0 := Closing [7]), tSeen := [7]\<rparr>"

lemma sampleTransport_reach: "transport_reach (\<lambda>c. False) sampleTransport"
proof -
  let ?st1 = "newTransport\<lparr>tLoop := Accepted 7, tSeen := [7]\<rparr>"
  let ?st2 = "?st1\<lparr>tSessions := [7], tWaitGroup := 1, tLoop := Registered 7\<rparr>"
  let ?st3 = "?st2\<lparr>tLoop := AtAccept, tThread := (\<lambda>c. NotStarted)(7 := Running)\<rparr>"
  have "tstep (\<lambda>c. False) newTransport ?st1" using tstep.accept [of newTransport 7] by (simp add: newTransport_def)
  moreover have "tstep (\<lambda>c. False) ?st1 ?st2" using tstep.registered [of ?st1 7 _ "\<lambda>c. False"] by (simp add: registerConn_def newTransport_def)
  moreover have "tstep (\<lambda>c. False) ?st2 ?st3" using tstep.spawn [of ?st2 7] by (simp add: newTransport_def)
  moreover have "tstep (\<lambda>c. False) ?st3 sampleTransport"
    using tstep.close_begin [of ?st3 0] by (simp add: closeBegin_def newTransport_def sampleTransport_def)
  ultimately show ?thesis by (meson converse_rtranclp_into_rtranclp rtranclp.rtrancl_refl)
qed

text \<open>Witness of \<open>close_can_return\<close>.\<close>

theorem close_can_return_witness:
  "\<exists>st' first e. (tstep (\<lambda>c. False))\<^sup>*\<^sup>* sampleTransport st' \<and> tCloser st' 0 = Returned first e \<and> tSeen st' = [7]"
  using close_can_return [OF sampleTransport_reach, of 0] by (simp add: sampleTransport_def)

text \<open>Witness of \<open>close_stops_everything\<close>: the call returned, and connection 7 was closed.\<close>

definition stoppedTransport :: transport where
  "stoppedTransport = sampleTransport\<lparr>tSessions := [], tWaitGroup := 0, tDone := True, tCancelled := True, tListening := False,
     tLoop := Stopped, tThread := (\<lambda>c. NotStarted)(7 := Gone), tCloser := (\<lambda>k. NotCalled)(0 := Returned True None), tShut := [7, 7]\<rparr>"

lemma stoppedTransport_reach: "transport_reach (\<lambda>c. False) stoppedTransport"
proof -
  let ?st1 = "sampleTransport\<lparr>tCancelled := True, tListening := False, tShut := [7], tCloser := (\<lambda>k. NotCalled)(0 := WaitSessions None)\<rparr>"
  let ?st2 = "?st1\<lparr>tThread := (\<lambda>c. NotStarted)(7 := Ending), tShut := [7, 7]\<rparr>"
  let ?st3 = "?st2\<lparr>tThread := (\<lambda>c. NotStarted)(7 := Gone), tSessions := [], tWaitGroup := 0\<rparr>"
  let ?st4 = "?st3\<lparr>tCloser := (\<lambda>k. NotCalled)(0 := WaitDone True None)\<rparr>"
  let ?st5 = "?st4\<lparr>tLoop := Stopped, tDone := True\<rparr>"
  have "tstep (\<lambda>c. False) sampleTransport ?st1"
    using tstep.close_all [of sampleTransport 0 "[7]" _ None] by (simp add: closeAll_def closeConn_def sampleTransport_def newTransport_def)
  moreover have "tstep (\<lambda>c. False) ?st1 ?st2" using tstep.handler_returned [of ?st1 7] by (simp add: closeConn_def sampleTransport_def)
  moreover have "tstep (\<lambda>c. False) ?st2 ?st3" using tstep.unregistered [of ?st2 7] by (simp add: unregisterConn_def sampleTransport_def)
  moreover have "tstep (\<lambda>c. False) ?st3 ?st4" using tstep.sessions_gone [of ?st3 0 None] by simp
  moreover have "tstep (\<lambda>c. False) ?st4 ?st5" using tstep.listener_closed [of ?st4] by (simp add: sampleTransport_def newTransport_def)
  moreover have "tstep (\<lambda>c. False) ?st5 stoppedTransport" using tstep.loop_gone [of ?st5 0 True None] by (simp add: stoppedTransport_def sampleTransport_def newTransport_def)
  ultimately show ?thesis using sampleTransport_reach by (meson rtranclp.rtrancl_into_rtrancl)
qed

theorem close_stops_everything_witness:
  "tCloser stoppedTransport 0 = Returned True None \<and> tSeen stoppedTransport = [7] \<and> 7 \<in> set (tShut stoppedTransport) \<and> tDone stoppedTransport"
  using close_stops_everything [OF stoppedTransport_reach, of 0 True None stoppedTransport]
  by (simp add: stoppedTransport_def sampleTransport_def)

end
