(* ===== verification/Console.thy ===== *)
theory Console
  imports Game_Server
begin

text \<open>
  The console reader of the server (\<^verbatim>\<open>runConsoleInput\<close> of \<^verbatim>\<open>internal/server/server.go\<close>): lines are trimmed, empty ones
  skipped, every other one is run as a command of the console until the server is stopped.
\<close>

text \<open>
  The results of the commands are what is logged. \<open>None\<close> is a panic. The callbacks of a command run
  before the command returns, so \<open>served\<close> gives the state after it.
\<close>

fun consoleLines :: "proto \<Rightarrow> string list \<Rightarrow> 't game_server \<Rightarrow> (result list \<times> 't game_server) option" where
  "consoleLines P [] srv = Some ([], srv)"
| "consoleLines P (text # rest) srv =
     (let line = TrimSpace text in
      if line = [] then consoleLines P rest srv
      else case ExecuteConsoleCommand P line (mcpeState srv) of
        None \<Rightarrow> None
      | Some (r, st') \<Rightarrow>
          let srv' = served P srv st' in
          if cancelled srv' then Some ([r], srv')
          else map_option (apfst ((#) r)) (consoleLines P rest srv'))"

definition runConsoleInput :: "proto \<Rightarrow> string \<Rightarrow> 't game_server \<Rightarrow> (result list \<times> 't game_server) option" where
  "runConsoleInput P input srv = consoleLines P (fst (scanLines input)) srv"

section \<open>Commands of the console\<close>

lemma builtin_registry_ok: "registry_ok (builtinRegistry P (executors P))"
  by (auto simp: registry_ok_def builtinRegistry_def commandList_def defaultCommand_def builtinNames_def)

lemma console_command_returns:
  "\<exists>r st'. ExecuteConsoleCommand P line st = Some (r, st') \<and> quiet st st' \<and> resMessages r \<noteq> []"
  using dispatch_answers [OF builtin_registry_ok, of "unicodeLower P" P consoleCommandSender line st]
  by (auto simp: ExecuteConsoleCommand_def newDefaultCommands_builtin intro: quiet_dispatch)

lemma splitArgs_Nil: "splitArgs [] = Inr []"
  by (simp add: splitArgs_def splitEnd_def splitInit_def)

lemma ParseLine_stop:
  assumes "TrimSpace line = ''stop'' \<or> TrimSpace line = ''/stop''"
  shows "ParseLine ul line = Inr (''stop'', [], [])"
proof -
  have l: "TrimSpace (TrimPrefix (TrimSpace line) ''/'') = ''stop''"
    using assms by (auto simp: TrimPrefix_def TrimSpace_trimmed trimmedI printable_def)
  have w: "takeWhile (\<lambda>c. c \<noteq> CHR 0x20 \<and> c \<noteq> CHR 0x09) ''stop'' = ''stop''" "dropWhile (\<lambda>c. c \<noteq> CHR 0x20 \<and> c \<noteq> CHR 0x09) ''stop'' = []"
    by code_simp+
  have "normaliseName ul ''stop'' = ''stop''" by (rule lowerName_normal) (simp_all add: lowerName_def)
  then show ?thesis unfolding ParseLine_def l Let_def w by (simp add: splitArgs_Nil)
qed

lemma stop_command:
  assumes "TrimSpace line = ''stop'' \<or> TrimSpace line = ''/stop''" and "hasShutdown (cfg st)"
  shows "\<exists>r st'. ExecuteConsoleCommand P line st = Some (r, st') \<and> callbacks (handler st') = callbacks (handler st) @ [ShutdownCalled]"
proof -
  have "normaliseName (unicodeLower P) ''stop'' = ''stop''" by (rule lowerName_normal) (simp_all add: lowerName_def)
  then have "Lookup (unicodeLower P) (builtinRegistry P (executors P)) ''stop'' =
      Some (defaultCommand ''stop'' ''Stops the server'' ''/stop'' permissionCommandStop [] (executors P ''stop''))"
    by (simp add: Lookup_def Let_def builtinRegistry_def commandList_def defaultCommand_def)
  moreover have "handler (snd (broadcastSystemText m st)) = handler st" for m
    using logs.sends(5) by (simp add: frames_def only_logs_def)
  ultimately show ?thesis
    using assms(2)
    by (simp add: ExecuteConsoleCommand_def newDefaultCommands_builtin Dispatch_def ParseLine_stop [OF assms(1)] defaultCommand_def
        consoleCommandSender_def executors_def runStop_def Let_def setHandler_def split: prod.split)
qed

section \<open>Stopping\<close>

lemma cancelled_callbacks:
  "cancelled (fold (runCallback P) evs srv) \<longleftrightarrow> cancelled srv \<or> ShutdownCalled \<in> set evs"
proof (induction evs arbitrary: srv)
  case (Cons ev evs)
  have "cancelled (runCallback P ev srv) \<longleftrightarrow> cancelled srv \<or> ev = ShutdownCalled"
    by (cases ev) (simp_all add: updateMOTD_def savePlayer_def Stop_def Let_def)
  then show ?case using Cons.IH by auto
qed simp

lemma console_input_returns:
  "\<exists>rs srv'. consoleLines P ls srv = Some (rs, srv') \<and> length rs \<le> length ls \<and> (\<forall>r \<in> set rs. resMessages r \<noteq> [])"
proof (induction ls arbitrary: srv)
  case (Cons entry rest)
  obtain r st' where c: "ExecuteConsoleCommand P (TrimSpace entry) (mcpeState srv) = Some (r, st')" "resMessages r \<noteq> []"
    using console_command_returns by blast
  from Cons.IH [of srv] Cons.IH [of "served P srv st'"] show ?case using c by (auto simp: Let_def)
qed simp

lemma served_running: "running (served P srv st') = running srv"
proof -
  have one: "running (runCallback P ev srv) = running srv" for ev and srv :: "'a game_server"
    by (cases ev) (simp_all add: updateMOTD_def savePlayer_def Stop_def Let_def)
  have "running (fold (runCallback P) evs srv) = running srv" for evs and srv :: "'a game_server"
    by (induction evs arbitrary: srv) (simp_all add: one)
  then show ?thesis by (simp add: served_def)
qed

lemma consoleLines_running: "consoleLines P ls srv = Some (rs, srv') \<Longrightarrow> running srv' = running srv"
proof (induction ls arbitrary: srv rs)
  case (Cons entry rest)
  obtain r st' where c: "ExecuteConsoleCommand P (TrimSpace entry) (mcpeState srv) = Some (r, st')"
    using console_command_returns by blast
  show ?case
    using Cons.prems Cons.IH [of srv] Cons.IH [of "served P srv st'"] served_running [of P srv st'] c
    by (auto simp: Let_def split: if_splits)
qed simp

lemma console_stop:
  assumes "TrimSpace line = ''stop'' \<or> TrimSpace line = ''/stop''" and "hasShutdown (cfg (mcpeState srv))"
  shows "\<exists>rs srv'. consoleLines P (pre @ line # post) srv = Some (rs, srv') \<and> cancelled srv' \<and>
    consoleLines P (pre @ [line]) srv = Some (rs, srv')"
  using assms(2)
proof (induction pre arbitrary: srv)
  case Nil
  obtain r st' where c: "ExecuteConsoleCommand P (TrimSpace line) (mcpeState srv) = Some (r, st')"
    "callbacks (handler st') = callbacks (handler (mcpeState srv)) @ [ShutdownCalled]"
    using stop_command [of "TrimSpace line" "mcpeState srv" P] assms(1) Nil by auto
  then have "cancelled (served P srv st')" by (simp add: served_def cancelled_callbacks Stop_def)
  moreover have "TrimSpace line \<noteq> []" using assms(1) by auto
  ultimately show ?case using c(1) by (simp add: Let_def)
next
  case (Cons entry pre)
  obtain r st' where c: "ExecuteConsoleCommand P (TrimSpace entry) (mcpeState srv) = Some (r, st')" "quiet (mcpeState srv) st'"
    using console_command_returns by blast
  then have "hasShutdown (cfg (mcpeState (served P srv st')))" using Cons.prems by (simp add: served_state quiet_def)
  from Cons.IH [OF this] Cons.IH [OF Cons.prems] show ?case using c by (auto simp: Let_def)
qed

lemma newServer_hasShutdown:
  assumes "newServer P enc generated conf brand version source store = Inr srv"
  shows "hasShutdown (cfg (mcpeState srv))"
  using assms unfolding newServer_def NewMCPEHandler_def
  by (auto simp: Let_def split: option.splits sum.splits if_splits)

text \<open>After the context is done, the loop runs until it takes the case that ends it.\<close>

definition stopping :: "'t game_server \<Rightarrow> bool" where
  "stopping srv \<longleftrightarrow> running srv \<and> cancelled srv \<or>
     \<not> running srv \<and> stopped srv \<and> (\<forall>net. mcpeServer srv = Some net \<longrightarrow> netClosed net)"

lemma runExit_stopped:
  "stopped (runExit b srv)" "\<not> running (runExit b srv)" "mcpeServer (runExit b srv) = Some net \<Longrightarrow> netClosed net"
  by (cases b; auto simp: runExit_def logCrash_def CloseNet_def)+

lemma loop_stopping:
  assumes "(loop_step exec)\<^sup>*\<^sup>* srv srv'" and "stopping srv"
    and "\<forall>t s. running (exec t s) = running s \<and> (cancelled s \<longrightarrow> cancelled (exec t s))"
  shows "stopping srv'"
  using assms(1,2)
proof (induction rule: rtranclp_induct)
  case (step srv1 srv2)
  from step.hyps(2) show ?case
  proof cases
    case (run_tick elapsed)
    then obtain srv3 where d: "drainTasks exec srv1 = Some srv3" "running srv2 = running srv3" "cancelled srv2 = cancelled srv3"
      by (auto simp: tickOnce_def)
    have "running srv1 \<and> cancelled srv1" using step run_tick(1) by (simp add: stopping_def)
    then have "running srv3 \<and> cancelled srv3"
      by (intro drainTasks_keeps [OF d(1), of "\<lambda>s. running s \<and> cancelled s"]) (simp_all add: assms(3))
    then show ?thesis using d by (simp add: stopping_def)
  qed (use step assms(3) in \<open>auto simp: stopping_def runTask_def runExit_stopped\<close>)
qed

text \<open>
  C40. A line with \<^verbatim>\<open>stop\<close> or \<^verbatim>\<open>/stop\<close> on the console stops the server. Reading the console returns, having run exactly
  the lines up to that one, or fewer if an earlier line stopped the server, each answered with at least one message; no later line
  is run, and the context of the server is done. From then on, however many tasks and ticks its loop still takes, in each round the case that
  ends the loop is ready, and when the loop has ended, the server is stopped and its network closed. (Tasks cannot undo the end of
  the context.)
\<close>

theorem console_stop_stops_server:
  assumes "fst (scanLines input) = pre @ line # post" and "TrimSpace line = ''stop'' \<or> TrimSpace line = ''/stop''"
    and "hasShutdown (cfg (mcpeState srv))" and "running srv"
    and "\<forall>t s. running (exec t s) = running s \<and> (cancelled s \<longrightarrow> cancelled (exec t s))"
  shows "\<exists>rs srv'. runConsoleInput P input srv = Some (rs, srv') \<and> consoleLines P (pre @ [line]) srv = Some (rs, srv') \<and>
    length rs \<le> Suc (length pre) \<and> (\<forall>r \<in> set rs. resMessages r \<noteq> []) \<and> cancelled srv' \<and>
    (\<forall>later. (loop_step exec)\<^sup>*\<^sup>* srv' later \<longrightarrow>
       (running later \<longrightarrow> loop_step exec later (runExit False later) \<and> stopped (runExit False later)) \<and>
       (\<not> running later \<longrightarrow> stopped later \<and> (\<forall>net. mcpeServer later = Some net \<longrightarrow> netClosed net)))"
proof -
  obtain rs srv' where c: "consoleLines P (pre @ line # post) srv = Some (rs, srv')" "cancelled srv'"
    "consoleLines P (pre @ [line]) srv = Some (rs, srv')" using console_stop [OF assms(2,3)] by blast
  have l: "length rs \<le> Suc (length pre)" "\<forall>r \<in> set rs. resMessages r \<noteq> []"
    using console_input_returns [of P "pre @ [line]" srv] c(3) by auto
  have "running srv'" using consoleLines_running [OF c(1)] assms(4) by simp
  then have s: "stopping srv'" using c(2) by (simp add: stopping_def)
  have "(running later \<longrightarrow> loop_step exec later (runExit False later) \<and> stopped (runExit False later)) \<and>
       (\<not> running later \<longrightarrow> stopped later \<and> (\<forall>net. mcpeServer later = Some net \<longrightarrow> netClosed net))"
    if "(loop_step exec)\<^sup>*\<^sup>* srv' later" for later
    using loop_stopping [OF that s assms(5)] runExit_stopped(1) loop_step.run_exit [of later exec] by (auto simp: stopping_def)
  then show ?thesis using c l assms(1) by (auto simp: runConsoleInput_def)
qed

text \<open>Witness of \<open>console_stop_stops_server\<close>: three lines for a new server that is running.\<close>

theorem console_stop_stops_server_witness:
  "\<exists>srv rs srv'. newServer sampleProto sampleEncoder (Some (toyKey 1000)) sampleProperties [] [] None False = Inr (srv :: nat game_server) \<and>
     runConsoleInput sampleProto (''list'' @ [newline] @ '' /stop'' @ [newline] @ ''say hi'' @ [newline]) (srv\<lparr>running := True\<rparr>) = Some (rs, srv') \<and>
     length rs \<le> 2 \<and> cancelled srv' \<and> (running srv' \<longrightarrow> loop_step (\<lambda>t s. s) srv' (runExit False srv'))"
proof -
  obtain srv :: "nat game_server" where srv: "newServer sampleProto sampleEncoder (Some (toyKey 1000)) sampleProperties [] [] None False = Inr srv"
    using sample_newServer by blast
  let ?ls = "[''list'', '' /stop'', ''say hi'']"
  have l: "fst (scanLines (concat (map (\<lambda>l. l @ [newline]) ?ls))) = [''list''] @ '' /stop'' # [''say hi'']"
    by (subst scanLines_concat) (auto simp: newline_def MaxScanTokenSize_def dropCR_def)
  have t: "TrimSpace '' /stop'' = ''stop'' \<or> TrimSpace '' /stop'' = ''/stop''" by code_simp
  have h: "hasShutdown (cfg (mcpeState (srv\<lparr>running := True\<rparr>)))" using newServer_hasShutdown [OF srv] by simp
  obtain rs srv' where r: "runConsoleInput sampleProto (concat (map (\<lambda>l. l @ [newline]) ?ls)) (srv\<lparr>running := True\<rparr>) = Some (rs, srv')"
    "length rs \<le> 2" "cancelled srv'" "\<forall>later. (loop_step (\<lambda>t s. s))\<^sup>*\<^sup>* srv' later \<longrightarrow> running later \<longrightarrow> loop_step (\<lambda>t s. s) later (runExit False later)"
    using console_stop_stops_server [OF l t h, of "\<lambda>t s. s" sampleProto] by auto
  show ?thesis using srv r(1-3) r(4) [rule_format, of srv'] by (intro exI [of _ srv] exI [of _ rs] exI [of _ srv']) simp
qed

end
