(* ===== verification/Ticks.thy ===== *)
theory Ticks
  imports Game_Server
begin

text \<open>
  The tick statistics of the server (\<^verbatim>\<open>tickOnce\<close> of \<^verbatim>\<open>internal/server/server.go\<close>): the moving average of ticks per
  second, computed in \<^verbatim>\<open>float64\<close>, stays within its range in spite of the rounding of every operation.
\<close>

lemma weighted_old:
  assumes "0 \<le> old" and "old \<le> 20"
  shows "0 \<le> round64 (old * round64 (95 / 100))" and "round64 (old * round64 (95 / 100)) \<le> 19"
proof -
  have p: "0 \<le> old * round64 (95 / 100)" "old * round64 (95 / 100) \<le> of_int 19"
    using assms unfolding round64_constants by simp_all
  show "0 \<le> round64 (old * round64 (95 / 100))" by (rule round64_nonneg [OF p(1)])
  show "round64 (old * round64 (95 / 100)) \<le> 19" using round64_le_int [OF p] by simp
qed

text \<open>The factor \<open>0.05\<close> is rounded up, so the exact product may exceed one; the rounding of the product corrects this.\<close>

lemma weighted_instant:
  assumes "0 \<le> instant" and "instant \<le> 20"
  shows "0 \<le> round64 (instant * round64 (5 / 100))" and "round64 (instant * round64 (5 / 100)) \<le> 1"
proof -
  let ?q = "instant * round64 (5 / 100)"
  have p: "0 \<le> ?q" "?q \<le> 1 + 1 / 2 ^ 54" using assms unfolding round64_constants by simp_all
  show "0 \<le> round64 ?q" by (rule round64_nonneg [OF p(1)])
  show "round64 ?q \<le> 1"
  proof (cases "?q \<le> 1")
    case True
    then show ?thesis using round64_le_int [OF p(1), of 1] by simp
  next
    case False
    then show ?thesis using round64_above_one [OF _ p(2)] by simp
  qed
qed

lemma tickTPS_range:
  assumes "0 \<le> old" and "old \<le> 20"
  shows "0 \<le> tickTPS elapsed old \<and> tickTPS elapsed old \<le> 20"
proof (cases "elapsed \<le> 0")
  case False
  define instant where "instant = (let i = round64 (10 ^ 9 / round64 (of_int elapsed)) in if i > of_int tickRate then of_int tickRate else i)"
  have i: "0 \<le> instant" "instant \<le> 20"
    using False by (simp_all add: instant_def Let_def tickRate_def round64_nonneg)
  let ?a = "round64 (old * round64 (95 / 100))" and ?b = "round64 (instant * round64 (5 / 100))"
  have "0 \<le> ?a + ?b" "?a + ?b \<le> of_int 20" using weighted_old [OF assms] weighted_instant [OF i] by simp_all
  then have "0 \<le> round64 (?a + ?b)" "round64 (?a + ?b) \<le> 20" using round64_nonneg round64_le_int [of "?a + ?b" 20] by simp_all
  then show ?thesis using False by (simp add: tickTPS_def instant_def Let_def)
qed (simp add: tickTPS_def tickRate_def)

text \<open>
  C23. The ticks per second that the server reports are always between 0 and 20. From a new server that was
  started, whatever tasks run and however long ticks take, and with every operation of the moving average rounded to \<^verbatim>\<open>float64\<close>,
  the reported value stays in this range; tasks cannot change it.
\<close>

theorem reported_tps_in_range:
  assumes "newServer P enc generated conf brand version source store = Inr srv0" and "Start P now listening srv0 = (None, srv)"
    and "\<forall>t s. tps (exec t s) = tps s" and "(run_step exec)\<^sup>*\<^sup>* srv srv'"
  shows "0 \<le> TPS (serverStats measured later srv') \<and> TPS (serverStats measured later srv') \<le> 20"
proof -
  have "tps srv0 = 20" using assms(1) unfolding newServer_def
    by (auto simp: Let_def tickRate_def split: option.splits sum.splits)
  then have "tps srv = 20" using assms(2) unfolding Start_def startNetwork_def
    by (auto simp: Let_def split: if_splits sum.splits)
  from assms(4) have "0 \<le> tps srv' \<and> tps srv' \<le> 20"
  proof (induction rule: rtranclp_induct)
    case base
    show ?case by (simp add: \<open>tps srv = 20\<close>)
  next
    case (step srv1 srv2)
    have round: "0 \<le> tps srv2 \<and> tps srv2 \<le> 20" if "loop_step exec srv1 srv2"
      using that
    proof cases
      case (run_tick elapsed)
      then obtain srv3 where d: "drainTasks exec srv1 = Some srv3" "tps srv2 = tickTPS elapsed (tps srv3)" by (auto simp: tickOnce_def)
      have "tps srv3 = tps srv1" by (rule drainTasks_keeps [OF d(1)]) (simp_all add: assms(3))
      then show ?thesis using d(2) tickTPS_range [of "tps srv3" elapsed] step.IH by simp
    qed (use step.IH assms(3) in \<open>simp_all add: runTask_def runExit_def logCrash_def\<close>)
    from step.hyps(2) show ?case
      by cases (use round step.IH in \<open>simp_all add: runExit_def logCrash_def\<close>)
  qed
  then show ?thesis by (simp add: serverStats_def split: prod.split)
qed

text \<open>Witness of \<open>reported_tps_in_range\<close>: a tick of 80 ms after the start.\<close>

theorem reported_tps_in_range_witness:
  "\<exists>srv0 srv srv'. newServer sampleProto sampleEncoder (Some (toyKey 1000)) sampleProperties [] [] None False = Inr (srv0 :: nat game_server) \<and>
     Start sampleProto 7 (Some (5, ''[::]:19132'')) srv0 = (None, srv) \<and> run_step (\<lambda>t s. s) srv srv' \<and> tickCount srv' = 1 \<and>
     0 \<le> TPS (serverStats (3, 4, 5) 90000007 srv') \<and> TPS (serverStats (3, 4, 5) 90000007 srv') \<le> 20"
proof -
  obtain srv0 :: "nat game_server" where srv0: "newServer sampleProto sampleEncoder (Some (toyKey 1000)) sampleProperties [] [] None False = Inr srv0"
    "sConfig srv0 = sampleProperties" using sample_newServer by blast
  have new: "started srv0 = False" "taskQueue srv0 = []" "tickCount srv0 = 0"
    using srv0(1) unfolding newServer_def by (auto simp: Let_def split: option.splits sum.splits)
  obtain srv where srv: "Start sampleProto 7 (Some (5, ''[::]:19132'')) srv0 = (None, srv)" "taskQueue srv = []" "tickCount srv = 0" "running srv"
    using new by (simp add: Start_def startNetwork_def srv0(2) Listen_def Let_def sampleProperties_def DefaultConfig_def JoinHostPort_def)
  have d: "drainTasks (\<lambda>t s. s) srv = Some srv" using srv(2) by (subst drainTasks.simps) simp
  let ?srv = "srv\<lparr>tickCount := 1, lastTickTime := 80000000, tps := tickTPS 80000000 (tps srv)\<rparr>"
  have "tickOnce (\<lambda>t s. s) 80000000 srv = Some ?srv" using d srv(3) by (simp add: tickOnce_def)
  then have s: "run_step (\<lambda>t s. s) srv ?srv" using srv(4) by (rule run_step.run_round [OF loop_step.run_tick, rotated])
  then have "(run_step (\<lambda>t s. s))\<^sup>*\<^sup>* srv ?srv" by (rule r_into_rtranclp)
  from reported_tps_in_range [OF srv0(1) srv(1) _ this, of "(3, 4, 5)" 90000007] show ?thesis
    using srv0(1) srv(1) s by (intro exI [of _ srv0] exI [of _ srv] exI [of _ ?srv]) simp
qed

end
