(* ===== verification/Flags.thy ===== *)
theory Flags
  imports Config
begin

text \<open>
  Command line flags and file paths as the programs in \<^verbatim>\<open>cmd\<close> and \<^verbatim>\<open>internal/bootstrap\<close> use them:
  \<^verbatim>\<open>flag.FlagSet.Parse\<close> for boolean and string flags, and \<^verbatim>\<open>filepath.IsAbs\<close>, \<^verbatim>\<open>Clean\<close> and \<^verbatim>\<open>Join\<close> with
  slashes as separators.
\<close>

section \<open>Flags\<close>

datatype flag_kind = BoolFlag | StringFlag

datatype flag_error =
    BadFlagSyntax string
  | HelpRequested
  | FlagNotDefined string
  | FlagNeedsArgument string
  | InvalidBoolFlag string string

text \<open>A value after an equals sign that is not the first character.\<close>

definition splitFlag :: "string \<Rightarrow> string \<times> string option" where
  "splitFlag name =
     (case dropWhile (\<lambda>c. c \<noteq> CHR ''='') (tl name) of
        [] \<Rightarrow> (name, None)
      | _ # v \<Rightarrow> (hd name # takeWhile (\<lambda>c. c \<noteq> CHR ''='') (tl name), Some v))"

text \<open>Setting a flag; the result is the list of settings in order, and the arguments that remain.\<close>

definition setBoolFlag :: "string \<Rightarrow> string \<Rightarrow> flag_error + (string \<times> string)" where
  "setBoolFlag name v = (if ParseBool v = None then Inl (InvalidBoolFlag name v) else Inr (name, v))"

text \<open>
  One flag that starts with a dash: its settings and the arguments after it. A boolean flag takes a
  value only after an equals sign, a string flag otherwise takes the next argument.
\<close>

definition flagParseOne :: "(string \<Rightarrow> flag_kind option) \<Rightarrow> string \<Rightarrow> string list \<Rightarrow> flag_error + (string \<times> string) \<times> string list" where
  "flagParseOne kinds name args =
     (if name = [] \<or> hd name = CHR ''-'' \<or> hd name = CHR ''='' then Inl (BadFlagSyntax name)
      else
        let (name, v) = splitFlag name in
        case kinds name of
          None \<Rightarrow> Inl (if name = ''help'' \<or> name = ''h'' then HelpRequested else FlagNotDefined name)
        | Some BoolFlag \<Rightarrow>
            map_sum id (\<lambda>s. (s, args)) (setBoolFlag name (case v of None \<Rightarrow> ''true'' | Some v \<Rightarrow> v))
        | Some StringFlag \<Rightarrow>
            (case v of
               Some v \<Rightarrow> Inr ((name, v), args)
             | None \<Rightarrow> (case args of [] \<Rightarrow> Inl (FlagNeedsArgument name) | a # as \<Rightarrow> Inr ((name, a), as))))"

lemma flagParseOne_shorter: "flagParseOne kinds name args = Inr (s, rest) \<Longrightarrow> length rest \<le> length args"
  by (auto simp: flagParseOne_def Let_def setBoolFlag_def split: if_splits prod.splits option.splits flag_kind.splits list.splits)

function flagParse :: "(string \<Rightarrow> flag_kind option) \<Rightarrow> string list \<Rightarrow> flag_error + (string \<times> string) list \<times> string list" where
  "flagParse kinds args =
     (case args of
        [] \<Rightarrow> Inr ([], [])
      | s # rest \<Rightarrow>
          if length s < 2 \<or> hd s \<noteq> CHR ''-'' then Inr ([], args)
          else if s = ''--'' then Inr ([], rest)
          else
            case flagParseOne kinds (if s ! 1 = CHR ''-'' then drop 2 s else drop 1 s) rest of
              Inl e \<Rightarrow> Inl e
            | Inr (setting, rest') \<Rightarrow> map_sum id (apfst ((#) setting)) (flagParse kinds rest'))"
  by pat_completeness auto
termination
  by (relation "measure (\<lambda>(kinds, args). length args)") (auto dest!: flagParseOne_shorter)

declare flagParse.simps [simp del]

text \<open>The last setting of a flag counts.\<close>

definition flagValue :: "(string \<times> string) list \<Rightarrow> string \<Rightarrow> string \<Rightarrow> string" where
  "flagValue settings name dflt = (case map_of (rev settings) name of Some v \<Rightarrow> v | None \<Rightarrow> dflt)"

section \<open>Settings survive parsing\<close>

definition settable :: "(string \<Rightarrow> flag_kind option) \<Rightarrow> string \<times> string \<Rightarrow> bool" where
  "settable kinds = (\<lambda>(n, v). n \<noteq> [] \<and> hd n \<noteq> CHR ''-'' \<and> CHR ''='' \<notin> set n \<and>
     (kinds n = Some StringFlag \<or> kinds n = Some BoolFlag \<and> ParseBool v \<noteq> None))"

lemma splitFlag_setting:
  assumes "n \<noteq> []" and "CHR ''='' \<notin> set n"
  shows "splitFlag (n @ ''='' @ v) = (n, Some v)"
proof -
  obtain c cs where n: "n = c # cs" using assms(1) by (cases n) auto
  then have "CHR ''='' \<notin> set cs" using assms(2) by simp
  then have "takeWhile (\<lambda>c. c \<noteq> CHR ''='') (cs @ ''='' @ v) = cs" "dropWhile (\<lambda>c. c \<noteq> CHR ''='') (cs @ ''='' @ v) = ''='' @ v"
    by (induction cs) auto
  then show ?thesis by (simp add: splitFlag_def n)
qed

lemma flagParse_settings:
  assumes "\<forall>s \<in> set settings. settable kinds s"
  shows "flagParse kinds (map (\<lambda>(n, v). ''-'' @ n @ ''='' @ v) settings) = Inr (settings, [])"
  using assms
proof (induction settings)
  case Nil
  then show ?case by (simp add: flagParse.simps)
next
  case (Cons s settings)
  obtain n v where s: "s = (n, v)" by (cases s)
  have n: "n \<noteq> []" "hd n \<noteq> CHR ''-''" "CHR ''='' \<notin> set n" "kinds n = Some StringFlag \<or> kinds n = Some BoolFlag \<and> ParseBool v \<noteq> None"
    using Cons.prems s by (auto simp: settable_def)
  have "hd n \<noteq> CHR ''=''" using n(1,3) by (cases n) auto
  then have "flagParseOne kinds (n @ ''='' @ v) rest = Inr ((n, v), rest)" for rest
    using n splitFlag_setting [OF n(1,3)] by (auto simp: flagParseOne_def setBoolFlag_def)
  moreover have "(n @ ''='' @ v) ! 0 \<noteq> CHR ''-''" "n @ ''='' @ v \<noteq> ''-''" using n(1,2) by (cases n; auto)+
  ultimately show ?case using Cons n(1)
    by (subst flagParse.simps) (auto simp: s nth_append)
qed

section \<open>Paths\<close>

definition IsAbs :: "string \<Rightarrow> bool" where
  "IsAbs path \<longleftrightarrow> prefix ''/'' path"

fun pathElements :: "string \<Rightarrow> string list" where
  "pathElements [] = [[]]"
| "pathElements (c # cs) =
     (if c = CHR ''/'' then [] # pathElements cs
      else case pathElements cs of e # es \<Rightarrow> (c # e) # es | [] \<Rightarrow> [[c]])"

text \<open>The elements kept so far, last one first: a double dot removes the element before it, if there is one.\<close>

definition cleanStep :: "bool \<Rightarrow> string \<Rightarrow> string list \<Rightarrow> string list" where
  "cleanStep rooted e out =
     (if e = [] \<or> e = ''.'' then out
      else if e = ''..'' then
        (case out of
           [] \<Rightarrow> if rooted then [] else [''..'']
         | l # ls \<Rightarrow> if l = ''..'' then ''..'' # out else ls)
      else e # out)"

fun joinElements :: "string list \<Rightarrow> string" where
  "joinElements [] = []"
| "joinElements [e] = e"
| "joinElements (e # es) = e @ ''/'' @ joinElements es"

definition Clean :: "string \<Rightarrow> string" where
  "Clean path =
     (let rooted = IsAbs path; es = rev (fold (cleanStep rooted) (pathElements path) []);
          s = (if rooted then ''/'' else []) @ joinElements es
      in if s = [] then ''.'' else s)"

definition JoinPath :: "string \<Rightarrow> string \<Rightarrow> string" where
  "JoinPath a b = (if a \<noteq> [] then Clean (a @ ''/'' @ b) else if b \<noteq> [] then Clean b else [])"

lemma Clean_examples:
  "JoinPath ''.'' ''server.properties'' = ''server.properties''" "JoinPath ''data/'' ''../logs//server.log'' = ''logs/server.log''"
  "JoinPath ''/srv'' ''./a/../../..'' = ''/''" "JoinPath ''a'' ''../../b'' = ''../b''" "JoinPath [] [] = []"
  by code_simp+

end
