(* ===== verification/Logging.thy ===== *)
theory Logging
  imports Prelude
begin

text \<open>
  The logger (\<^verbatim>\<open>internal/logging/logger.go\<close>): the level, the writer that colours lines for the console,
  and the log file. Formatting belongs to the \<^verbatim>\<open>slog\<close> library; a formatted line is given.
\<close>

section \<open>Creating a logger\<close>

datatype log_level = LevelDebug | LevelInfo | LevelWarn | LevelError

record log_options =
  logLevel :: string
  logColor :: bool
  logFilePath :: string

datatype log_error = UnknownLevel string | CreateLogDirectory | OpenLogFile

record logger =
  loggerLevel :: log_level
  loggerColor :: bool
  loggerFile :: bool

definition parseLevel :: "(string \<Rightarrow> string) \<Rightarrow> string \<Rightarrow> log_level option" where
  "parseLevel ul s =
     (let l = ToLower ul (TrimSpace s) in
      if l = ''debug'' then Some LevelDebug
      else if l = [] \<or> l = ''info'' then Some LevelInfo
      else if l = ''warn'' \<or> l = ''warning'' then Some LevelWarn
      else if l = ''error'' then Some LevelError
      else None)"

text \<open>\<open>mkdirOK\<close> and \<open>openOK\<close> tell whether the directory can be made and the file opened.\<close>

definition newLogger :: "(string \<Rightarrow> string) \<Rightarrow> bool \<Rightarrow> bool \<Rightarrow> log_options \<Rightarrow> log_error + logger" where
  "newLogger ul mkdirOK openOK options =
     (case parseLevel ul (logLevel options) of
        None \<Rightarrow> Inl (UnknownLevel (logLevel options))
      | Some level \<Rightarrow>
          if logFilePath options = [] then Inr \<lparr>loggerLevel = level, loggerColor = logColor options, loggerFile = False\<rparr>
          else if \<not> mkdirOK then Inl CreateLogDirectory
          else if \<not> openOK then Inl OpenLogFile
          else Inr \<lparr>loggerLevel = level, loggerColor = logColor options, loggerFile = True\<rparr>)"

section \<open>Writing\<close>

definition escape :: "string \<Rightarrow> string" where
  "escape code = CHR 0x1B # ''['' @ code @ ''m''"

definition lineColor :: "string \<Rightarrow> string" where
  "lineColor message =
     (if sublist ''level=DEBUG'' message then escape ''36''
      else if sublist ''level=INFO'' message then escape ''32''
      else if sublist ''level=WARN'' message then escape ''33''
      else if sublist ''level=ERROR'' message then escape ''31''
      else [])"

text \<open>
  What \<^verbatim>\<open>colorWriter.Write\<close> hands to its output, and its result: the number of bytes of the message, or 0 and an error, since
  \<^verbatim>\<open>MultiWriter\<close> takes any other number for a short write.
\<close>

definition coloredLine :: "string \<Rightarrow> string" where
  "coloredLine message =
     (let color = lineColor message in if color = [] then message else color @ message @ escape ''0'')"

definition colorWrite :: "bool \<Rightarrow> string \<Rightarrow> nat \<times> bool" where
  "colorWrite outputOK message = (if outputOK then (length message, True) else (0, False))"

text \<open>
  One line through the writer that \<^verbatim>\<open>New\<close> builds: first the console, then the file unless the console failed or
  took too few bytes. The results are what the console and the file received.
\<close>

definition writeLine :: "bool \<Rightarrow> bool \<Rightarrow> logger \<Rightarrow> string \<Rightarrow> string \<times> string" where
  "writeLine consoleOK fileOK lg message =
     (let out = (if loggerColor lg then coloredLine message else message);
          (n, good) = (if loggerColor lg then colorWrite consoleOK message else (if consoleOK then length message else 0, consoleOK))
      in (if consoleOK then out else [],
          if loggerFile lg \<and> good \<and> n = length message \<and> fileOK then message else []))"

section \<open>Colours only reach the console\<close>

definition uncolored :: "string \<Rightarrow> string" where
  "uncolored line = (if prefix [CHR 0x1B] line then take (length line - 9) (drop 5 line) else line)"

lemma lineColor_cases: "lineColor m = [] \<or> (\<exists>d. lineColor m = escape [CHR ''3'', d])"
  by (simp add: lineColor_def escape_def)

text \<open>
  With a console and a file that accept writes, the file receives exactly the line, and the console receives it between two
  escape sequences that can be removed again.
\<close>

lemma log_file_is_plain:
  assumes "loggerFile lg" and "\<not> prefix [CHR 0x1B] message"
  shows "snd (writeLine True True lg message) = message \<and> uncolored (fst (writeLine True True lg message)) = message"
  using lineColor_cases [of message] assms
  by (auto simp: writeLine_def colorWrite_def coloredLine_def uncolored_def escape_def)

lemma parseLevel_level:
  "parseLevel ul ''info'' = Some LevelInfo"
  by (simp add: parseLevel_def Let_def TrimSpace_trimmed trimmedI printable_def ToLower_def isASCII_def asciiLower_def)

end
