(* ===== verification/Startup.thy ===== *)
theory Startup
  imports Console Logging Flags
begin

text \<open>
  Starting the server (\<^verbatim>\<open>cmd/bds/main.go\<close>, \<^verbatim>\<open>internal/bootstrap\<close>): flags, configuration, logger, server.

  What the program finds outside is the record \<open>boot_env\<close>: the state of files, whether the context is
  already done, a generated key, the listener and the clock.
\<close>

section \<open>Version\<close>

record VersionInfo =
  vName :: string
  vSourceName :: string
  vSourceBaseVersion :: string
  vSourceForkVersion :: string
  vMinecraftVersion :: string
  vProtocolVersion :: int
  vBuildChannel :: string

definition programVersion :: VersionInfo where
  "programVersion =
     \<lparr>vName = ''BetterAltay-Go'', vSourceName = ''BetterAltay'', vSourceBaseVersion = ''3.28.0'', vSourceForkVersion = ''1.39.3'',
      vMinecraftVersion = ''1.26.20'', vProtocolVersion = 975, vBuildChannel = ''master''\<rparr>"

definition versionString :: "VersionInfo \<Rightarrow> string" where
  "versionString info =
     vName info @ '' protocol='' @ Itoa (vProtocolVersion info) @ '' minecraft='' @ vMinecraftVersion info @ '' source='' @
     vSourceName info @ ''/'' @ vSourceBaseVersion info @ '' fork='' @ vSourceForkVersion info @ '' channel='' @ vBuildChannel info"

section \<open>Options\<close>

record boot_options =
  ShowVersion :: bool
  DataPath :: string
  ConfigPath :: string
  CheckOnly :: bool

definition bootFlags :: "string \<Rightarrow> flag_kind option" where
  "bootFlags name =
     (if name = ''version'' \<or> name = ''check'' then Some BoolFlag
      else if name = ''data-path'' \<or> name = ''config'' then Some StringFlag
      else None)"

definition bootOptions :: "string list \<Rightarrow> flag_error + boot_options" where
  "bootOptions args =
     (case flagParse bootFlags args of
        Inl e \<Rightarrow> Inl e
      | Inr (settings, rest) \<Rightarrow>
          Inr \<lparr>ShowVersion = ParseBool (flagValue settings ''version'' ''false'') = Some True,
               DataPath = flagValue settings ''data-path'' ''.'',
               ConfigPath = flagValue settings ''config'' ''server.properties'',
               CheckOnly = ParseBool (flagValue settings ''check'' ''false'') = Some True\<rparr>)"

definition configPath :: "boot_options \<Rightarrow> string" where
  "configPath options = (if IsAbs (ConfigPath options) then ConfigPath options else JoinPath (DataPath options) (ConfigPath options))"

definition logPath :: "boot_options \<Rightarrow> config \<Rightarrow> string" where
  "logPath options conf =
     (if LogFile conf \<noteq> [] \<and> \<not> IsAbs (LogFile conf) then JoinPath (DataPath options) (LogFile conf) else LogFile conf)"

section \<open>Running\<close>

record boot_env =
  configFile :: "string \<Rightarrow> file_system"
  logDirOK :: "string \<Rightarrow> bool"
  logOpenOK :: "string \<Rightarrow> bool"
  bootCtxDone :: bool
  bootKey :: "PrivateKey option"
  bootListening :: "(int \<times> string) option"
  bootNow :: int

datatype boot_error = BootFlags flag_error | BootConfig config_error | BootLogger log_error | BootServer new_error

datatype 't boot = BootFailed boot_error | VersionPrinted | ConfigChecked | StoppedEarly | Booted logger "'t game_server"

definition RunContext :: "proto \<Rightarrow> nbt_encoder \<Rightarrow> boot_env \<Rightarrow> string list \<Rightarrow> 't boot" where
  "RunContext P enc env args =
     (case bootOptions args of
        Inl e \<Rightarrow> BootFailed (BootFlags e)
      | Inr options \<Rightarrow>
          if ShowVersion options then VersionPrinted
          else case Load (configFile env (configPath options)) of
            Inl e \<Rightarrow> BootFailed (BootConfig e)
          | Inr (conf, created) \<Rightarrow>
              let file = logPath options conf in
              case newLogger (unicodeLower P) (logDirOK env file) (logOpenOK env file)
                  \<lparr>logLevel = LogLevel conf, logColor = ColorLogs conf, logFilePath = file\<rparr> of
                Inl e \<Rightarrow> BootFailed (BootLogger e)
              | Inr lg \<Rightarrow>
                  if CheckOnly options then ConfigChecked
                  else if bootCtxDone env then StoppedEarly
                  else case newServer P enc (bootKey env) conf (vName programVersion) (versionString programVersion) None False of
                    Inl e \<Rightarrow> BootFailed (BootServer e)
                  | Inr srv \<Rightarrow>
                      (case Start P (bootNow env) (bootListening env) srv of
                         (Some e, srv') \<Rightarrow> BootFailed (BootServer e)
                       | (None, srv') \<Rightarrow> Booted lg srv'))"

text \<open>\<^verbatim>\<open>RunContext\<close> then waits for the context or for the server to end, stops the server and waits for its loop.\<close>

inductive boot_run :: "proto \<Rightarrow> nbt_encoder \<Rightarrow> boot_env \<Rightarrow> ('t \<Rightarrow> 't game_server \<Rightarrow> 't game_server) \<Rightarrow> string list \<Rightarrow> 't game_server \<Rightarrow> bool"
  for P enc env exec args where
  "RunContext P enc env args = Booted lg srv \<Longrightarrow> (run_step exec)\<^sup>*\<^sup>* srv srv1 \<Longrightarrow> (run_step exec)\<^sup>*\<^sup>* (Stop srv1) srv' \<Longrightarrow>
    stopped srv' \<Longrightarrow> boot_run P enc env exec args srv'"

text \<open>The exit code of \<^verbatim>\<open>main\<close>.\<close>

fun exitCode :: "'t boot \<Rightarrow> int" where
  "exitCode (BootFailed e) = 1"
| "exitCode _ = 0"

section \<open>The first and the second start\<close>

lemma Load_valid: "Load fs = Inr (conf, created) \<Longrightarrow> Validate conf = None"
  by (auto simp: Load_def DefaultConfig_valid split: if_splits file_state.splits prod.splits sum.splits option.splits)

text \<open>Loading again after the default configuration was written gives the same configuration.\<close>

lemma Load_again:
  assumes "Load fs = Inr (conf, created)"
  shows "Load (fileAfterLoad fs) = Inr (conf, False)"
proof (cases "fileState fs = FileMissing")
  case True
  then have c: "conf = DefaultConfig" "mkdirOK fs" "writeOK fs" using assms by (auto simp: Load_def split: if_splits)
  have "fileAfterLoad fs = \<lparr>mkdirOK = True, fileState = Contents (MarshalProperties DefaultConfig) False, writeOK = True\<rparr>"
    using True c by (simp add: fileAfterLoad_def)
  then show ?thesis using Load_printed [OF DefaultConfig_valid DefaultConfig_plain, of True] c(1) by simp
next
  case False
  then show ?thesis
    using assms by (auto simp: fileAfterLoad_def Load_def split: if_splits file_state.splits prod.splits sum.splits option.splits)
qed

text \<open>The configuration that the packet handlers see.\<close>

definition configured :: "config \<Rightarrow> handler_config \<Rightarrow> bool" where
  "configured conf hc \<longleftrightarrow> serverName hc = ServerName conf \<and> gameMode hc = GameMode conf \<and> maxPlayers hc = MaxPlayers conf \<and>
     viewDistance hc = ViewDistance conf \<and> onlineMode hc = OnlineMode conf \<and> resourcePacks hc = [] \<and> hasShutdown hc"

lemma newServer_total:
  assumes "Validate conf = None"
  shows "\<exists>srv. newServer P enc (Some key) conf brand version None store = Inr (srv :: 't game_server) \<and> sConfig srv = conf \<and>
     started srv = False \<and> players (handler (mcpeState srv)) = [] \<and> sBrand srv = (if brand = [] then ''BetterAltay-Go'' else brand) \<and>
     configured conf (cfg (mcpeState srv))"
proof -
  have "ServerName conf \<noteq> []" "\<not> MaxPlayers conf < 1" "GameMode conf \<noteq> []" using assms by (auto simp: Validate_def split: if_splits)
  then show ?thesis using assms
    by (simp add: newServer_def NewMCPEHandler_def Let_def NewFlatGenerator_eq Normalize_def newDefaultCommands_builtin configured_def)
qed

definition advertised :: "proto \<Rightarrow> config \<Rightarrow> int \<Rightarrow> PongInfo" where
  "advertised P conf n =
     \<lparr>pongMOTD = ServerName conf, pongProtocolVersion = CurrentProtocol P, pongMinecraftVersion = CurrentVersion P, pongOnlinePlayers = 0,
      pongMaxPlayers = MaxPlayers conf, pongServerID = n, pongServerName = ''BetterAltay-Go'', pongGameMode = GameMode conf\<rparr>"

lemma Start_total:
  assumes "Validate (sConfig srv) = None" and "started srv = False" and "players (handler (mcpeState srv)) = []"
    and "sBrand srv = ''BetterAltay-Go''"
  shows "\<exists>srv' net. Start P now (Some (n, address)) srv = (None, srv') \<and> sConfig srv' = sConfig srv \<and> mcpeState srv' = mcpeState srv \<and> running srv' \<and>
    OnlinePlayers srv' = 0 \<and> mcpeServer srv' = Some net \<and> listenerAddr net = address \<and> pongData net = PongData (advertised P (sConfig srv) n)"
proof -
  have v: "ServerName (sConfig srv) \<noteq> []" "\<not> MaxPlayers (sConfig srv) < 1" "GameMode (sConfig srv) \<noteq> []"
    using assms(1) by (auto simp: Validate_def split: if_splits)
  have "OnlinePlayers (srv\<lparr>started := True, startedAt := t\<rparr>) = 0" for t
    using assms(3) by (simp add: OnlinePlayers_def length_allPlayers)
  moreover have "JoinHostPort host port \<noteq> []" for host port by (simp add: JoinHostPort_def)
  ultimately show ?thesis using assms(2,4) v
    by (simp add: Start_def startNetwork_def Listen_def Let_def SetPongInfo_def advertised_def OnlinePlayers_def)
qed

text \<open>
  C20. A server that is set up correctly starts, and starts the same way again. If the flags ask for no more than a start, the
  configuration loads (or is missing and can be written), its log level is known, the log file opens, the context is not done, and
  a key and a listener are obtained, then the server and its packet handlers run under exactly the loaded configuration, with no players, and the server
  answers pings with its name, limits and game mode; and a second start, which finds the configuration file that the first
  one left behind, ends in exactly the same state.
\<close>

theorem start_and_restart:
  assumes "bootOptions args = Inr options" and "\<not> ShowVersion options" and "\<not> CheckOnly options"
    and "Load (configFile env (configPath options)) = Inr (conf, created)"
    and "parseLevel (unicodeLower P) (LogLevel conf) \<noteq> None"
    and "logPath options conf = [] \<or> logDirOK env (logPath options conf) \<and> logOpenOK env (logPath options conf)"
    and "\<not> bootCtxDone env" and "bootKey env = Some key" and "bootListening env = Some (n, address)"
    and "env' = env\<lparr>configFile := (configFile env)(configPath options := fileAfterLoad (configFile env (configPath options)))\<rparr>"
  shows "\<exists>lg srv net. RunContext P enc env args = Booted lg (srv :: 't game_server) \<and> RunContext P enc env' args = Booted lg srv \<and>
    sConfig srv = conf \<and> configured conf (cfg (mcpeState srv)) \<and> running srv \<and> OnlinePlayers srv = 0 \<and>
    mcpeServer srv = Some net \<and> listenerAddr net = address \<and> pongData net = PongData (advertised P conf n)"
proof -
  have v: "Validate conf = None" by (rule Load_valid [OF assms(4)])
  obtain srv :: "'t game_server" where
    srv: "newServer P enc (Some key) conf (vName programVersion) (versionString programVersion) None False = Inr srv"
      "sConfig srv = conf" "started srv = False" "players (handler (mcpeState srv)) = []" "sBrand srv = ''BetterAltay-Go''" "configured conf (cfg (mcpeState srv))"
    using newServer_total [OF v, of P enc key "vName programVersion"] by (auto simp: programVersion_def)
  obtain srv' net where
    srv': "Start P (bootNow env) (Some (n, address)) srv = (None, srv')" "sConfig srv' = conf" "mcpeState srv' = mcpeState srv" "running srv'" "OnlinePlayers srv' = 0"
      "mcpeServer srv' = Some net" "listenerAddr net = address" "pongData net = PongData (advertised P conf n)"
    using Start_total [of srv P "bootNow env" n address] srv v by auto
  obtain lg where lg: "newLogger (unicodeLower P) (logDirOK env (logPath options conf)) (logOpenOK env (logPath options conf))
      \<lparr>logLevel = LogLevel conf, logColor = ColorLogs conf, logFilePath = logPath options conf\<rparr> = Inr lg"
    using assms(5,6) by (cases "logPath options conf = []") (auto simp: newLogger_def)
  have "RunContext P enc e args = Booted lg srv'"
    if "Load (configFile e (configPath options)) = Inr (conf, c)" "logDirOK e = logDirOK env" "logOpenOK e = logOpenOK env"
      "bootCtxDone e = bootCtxDone env" "bootKey e = bootKey env" "bootListening e = bootListening env" "bootNow e = bootNow env" for e c
    using that assms(1-3,7-9) srv(1) srv'(1) lg by (simp add: RunContext_def Let_def)
  from this [OF assms(4)] this [of env', OF _ _ _ _ _ _ _] show ?thesis
    using srv' srv(6) assms(10) Load_again [OF assms(4)] by (intro exI [of _ lg] exI [of _ srv'] exI [of _ net]) auto
qed

text \<open>Witness of \<open>start_and_restart\<close>: a first start without arguments in an empty directory.\<close>

definition freshEnv :: boot_env where
  "freshEnv = \<lparr>configFile = (\<lambda>path. \<lparr>mkdirOK = True, fileState = FileMissing, writeOK = True\<rparr>), logDirOK = (\<lambda>path. True),
     logOpenOK = (\<lambda>path. True), bootCtxDone = False, bootKey = Some (toyKey 1000), bootListening = Some (5, ''[::]:19132''), bootNow = 0\<rparr>"

theorem start_and_restart_witness:
  "\<exists>lg srv net. RunContext sampleProto sampleEncoder freshEnv [] = Booted lg (srv :: nat game_server) \<and>
     RunContext sampleProto sampleEncoder
       (freshEnv\<lparr>configFile := (configFile freshEnv)(''server.properties'' := fileAfterLoad (configFile freshEnv ''server.properties''))\<rparr>) [] = Booted lg srv \<and>
     mcpeServer srv = Some net \<and> pongData net = ''MCPE;BetterAltay-Go Server;800;1.21;0;20;5;BetterAltay-Go;Survival;''"
proof -
  have o: "bootOptions [] = Inr \<lparr>ShowVersion = False, DataPath = ''.'', ConfigPath = ''server.properties'', CheckOnly = False\<rparr>"
    by code_simp
  let ?o = "\<lparr>ShowVersion = False, DataPath = ''.'', ConfigPath = ''server.properties'', CheckOnly = False\<rparr>"
  have p: "configPath ?o = ''server.properties''" by code_simp
  have l: "Load (configFile freshEnv (configPath ?o)) = Inr (DefaultConfig, True)" by (simp add: freshEnv_def Load_def)
  have d: "PongData (advertised sampleProto DefaultConfig 5) = ''MCPE;BetterAltay-Go Server;800;1.21;0;20;5;BetterAltay-Go;Survival;''"
    by code_simp
  have "\<exists>lg srv net. RunContext sampleProto sampleEncoder freshEnv [] = Booted lg (srv :: nat game_server) \<and>
     RunContext sampleProto sampleEncoder
       (freshEnv\<lparr>configFile := (configFile freshEnv)(configPath ?o := fileAfterLoad (configFile freshEnv (configPath ?o)))\<rparr>) [] = Booted lg srv \<and>
     sConfig srv = DefaultConfig \<and> configured DefaultConfig (cfg (mcpeState srv)) \<and> running srv \<and> OnlinePlayers srv = 0 \<and> mcpeServer srv = Some net \<and> listenerAddr net = ''[::]:19132'' \<and>
     pongData net = PongData (advertised sampleProto DefaultConfig 5)"
    by (rule start_and_restart [OF o _ _ l]) (simp_all add: freshEnv_def DefaultConfig_def parseLevel_level)
  then show ?thesis unfolding p d by blast
qed

end
