(* ===== verification/Relay.thy ===== *)
theory Relay
  imports Flags
begin

text \<open>
  The inspection proxy (\<^verbatim>\<open>cmd/mcpe-mitm/main.go\<close>): it accepts connections, dials the upstream server for each, copies
  the bytes of both directions and logs every payload. The goroutines of all connections are
  interleaved; one step of one goroutine is one rule of the relation \<open>mstep\<close>.

  Connections are numbers in the order in which they were accepted. Reads and writes may return what \<^verbatim>\<open>net.Conn\<close> allows: a read
  some bytes and possibly an error, a write a number of bytes that were taken and possibly an error. Log entries have no time.
\<close>

section \<open>Options and output\<close>

record mitm_options =
  optListen :: string
  optUpstream :: string
  optOutput :: string

definition mitmFlags :: "string \<Rightarrow> flag_kind option" where
  "mitmFlags name = (if name = ''listen'' \<or> name = ''upstream'' \<or> name = ''out'' then Some StringFlag else None)"

definition mitmOptions :: "string list \<Rightarrow> flag_error + mitm_options" where
  "mitmOptions args =
     (case flagParse mitmFlags args of
        Inl e \<Rightarrow> Inl e
      | Inr (settings, rest) \<Rightarrow>
          Inr \<lparr>optListen = flagValue settings ''listen'' ''0.0.0.0:19133'', optUpstream = flagValue settings ''upstream'' ''127.0.0.1:19132'',
               optOutput = flagValue settings ''out'' ''logs/mcpe-mitm.ndjson''\<rparr>)"

datatype output_error = CreateOutputDirectory | CreateOutputLog

datatype log_output = Stdout | LogFileAt string

definition openOutput :: "bool \<Rightarrow> bool \<Rightarrow> string \<Rightarrow> output_error + log_output" where
  "openOutput dirOK createOK path =
     (if path = ''-'' then Inr Stdout
      else if \<not> dirOK then Inl CreateOutputDirectory
      else if \<not> createOK then Inl CreateOutputLog
      else Inr (LogFileAt path))"

section \<open>State\<close>

datatype io_error = EOF | NetClosed | ContextDone | OtherError string

datatype direction = ToUpstream | ToClient

datatype event_data = NoData | StreamData bytes | ListenData string string

record event =
  evSession :: u64
  evPhase :: string
  evDirection :: "direction option"
  evBytes :: nat
  evSrc :: string
  evDst :: string
  evData :: event_data
  evMessage :: string
  evError :: "io_error option"

text \<open>
  Where a copying goroutine is: at the poll of the context, at the read, writing the rest of a payload that came with a read error or none, or
  finished, with the error it sent.
\<close>

datatype relay_pc = AtPoll | AtRead | Writing bytes "io_error option" | Finished io_error

record relay =
  relPC :: relay_pc
  relRead :: "bytes list"
  relTaken :: bytes

datatype conn_phase = Unknown | Dialing | DialFailed | Relaying | RelayEnded

record relay_conn =
  phase :: conn_phase
  connID :: u64
  clientAddr :: string
  upstreamAddr :: string
  toUpstream :: relay
  toClient :: relay
  doneErrors :: "io_error list"

record mitm =
  ctxDone :: bool
  nextSessionID :: u64
  logBroken :: bool
  eventLog :: "event list"
  relayConns :: "nat \<Rightarrow> relay_conn"
  acceptedConns :: nat

definition plainEvent :: event where
  "plainEvent = \<lparr>evSession = 0, evPhase = ''event'', evDirection = None, evBytes = 0, evSrc = [], evDst = [], evData = NoData,
     evMessage = [], evError = None\<rparr>"

text \<open>
  The error of a log write is discarded, and forwarding goes on. The encoder remembers the first error of its output and writes
  nothing from then on: \<open>logBroken\<close>. The output may break before any write.
\<close>

definition logEvent :: "event \<Rightarrow> mitm \<Rightarrow> mitm" where
  "logEvent ev st = (if logBroken st then st else st\<lparr>eventLog := eventLog st @ [ev]\<rparr>)"

definition newRelay :: relay where
  "newRelay = \<lparr>relPC = AtPoll, relRead = [], relTaken = []\<rparr>"

definition unknownConn :: relay_conn where
  "unknownConn = \<lparr>phase = Unknown, connID = 0, clientAddr = [], upstreamAddr = [], toUpstream = newRelay, toClient = newRelay, doneErrors = []\<rparr>"

text \<open>
  Up to the accept loop of \<^verbatim>\<open>main\<close>: an exit code, or the state in which connections are accepted. \<open>opened\<close> tells whether the directory
  and the file of the log can be created, \<open>works\<close> whether the log can be written before each of the two entries, \<open>listening\<close>
  whether the listener starts, \<open>ping\<close> the error of the upstream ping, if any.
\<close>

definition mitmMain :: "bool \<times> bool \<Rightarrow> bool \<times> bool \<Rightarrow> bool \<Rightarrow> io_error option \<Rightarrow> string list \<Rightarrow> int + mitm" where
  "mitmMain opened works listening ping args =
     (case mitmOptions args of
        Inl HelpRequested \<Rightarrow> Inl 0
      | Inl e \<Rightarrow> Inl 2
      | Inr opts \<Rightarrow>
          if optUpstream opts = [] then Inl 2
          else case openOutput (fst opened) (snd opened) (optOutput opts) of
            Inl e \<Rightarrow> Inl 1
          | Inr out \<Rightarrow>
              if \<not> listening then Inl 1
              else
                let st = \<lparr>ctxDone = False, nextSessionID = 0, logBroken = \<not> fst works, eventLog = [], relayConns = (\<lambda>k. unknownConn), acceptedConns = 0\<rparr>;
                    st = (case ping of
                            None \<Rightarrow> st
                          | Some e \<Rightarrow> logEvent (plainEvent\<lparr>evMessage := ''upstream ping failed; server-list pong will be empty'', evError := Some e\<rparr>) st);
                    st = st\<lparr>logBroken := logBroken st \<or> \<not> snd works\<rparr>
                in Inr (logEvent (plainEvent\<lparr>evMessage := ''transparent raknet mitm listening'', evData := ListenData (optListen opts) (optUpstream opts)\<rparr>) st))"

section \<open>Operations\<close>

fun side :: "direction \<Rightarrow> relay_conn \<Rightarrow> relay" where
  "side ToUpstream c = toUpstream c"
| "side ToClient c = toClient c"

fun setSide :: "direction \<Rightarrow> relay \<Rightarrow> relay_conn \<Rightarrow> relay_conn" where
  "setSide ToUpstream r c = c\<lparr>toUpstream := r\<rparr>"
| "setSide ToClient r c = c\<lparr>toClient := r\<rparr>"

definition setConn :: "nat \<Rightarrow> relay_conn \<Rightarrow> mitm \<Rightarrow> mitm" where
  "setConn k c st = st\<lparr>relayConns := (relayConns st)(k := c)\<rparr>"

text \<open>Sending an error on \<^verbatim>\<open>done\<close> ends the goroutine; the channel has room for both.\<close>

definition finish :: "nat \<Rightarrow> direction \<Rightarrow> io_error \<Rightarrow> mitm \<Rightarrow> mitm" where
  "finish k d e st =
     (let c = relayConns st k in
      setConn k ((setSide d ((side d c)\<lparr>relPC := Finished e\<rparr>) c)\<lparr>doneErrors := doneErrors c @ [e]\<rparr>) st)"

definition setPC :: "nat \<Rightarrow> direction \<Rightarrow> relay_pc \<Rightarrow> mitm \<Rightarrow> mitm" where
  "setPC k d pc st = (let c = relayConns st k in setConn k (setSide d ((side d c)\<lparr>relPC := pc\<rparr>) c) st)"

text \<open>After the payload of a read is written: the error of the read ends the goroutine, otherwise the loop goes on.\<close>

definition nextRound :: "nat \<Rightarrow> direction \<Rightarrow> io_error option \<Rightarrow> mitm \<Rightarrow> mitm" where
  "nextRound k d err st = (case err of None \<Rightarrow> setPC k d AtPoll st | Some e \<Rightarrow> finish k d e st)"

definition streamEvent :: "relay_conn \<Rightarrow> direction \<Rightarrow> bytes \<Rightarrow> event" where
  "streamEvent c d payload =
     \<lparr>evSession = connID c, evPhase = ''stream'', evDirection = Some d, evBytes = length payload,
      evSrc = (if d = ToUpstream then clientAddr c else upstreamAddr c), evDst = (if d = ToUpstream then upstreamAddr c else clientAddr c),
      evData = StreamData payload, evMessage = [], evError = None\<rparr>"

definition relayBuffer :: nat where
  "relayBuffer = 2 * 1024 * 1024"

definition relayRead :: "nat \<Rightarrow> direction \<Rightarrow> bytes \<Rightarrow> io_error option \<Rightarrow> mitm \<Rightarrow> mitm" where
  "relayRead k d payload err st =
     (if payload = [] then nextRound k d err st
      else
        let c = relayConns st k; r = side d c
        in setConn k (setSide d (r\<lparr>relPC := Writing payload err, relRead := relRead r @ [payload]\<rparr>) c)
             (logEvent (streamEvent c d payload) st))"

text \<open>One round of \<^verbatim>\<open>writeFull\<close>: \<open>n\<close> bytes were taken, with an error or without.\<close>

definition writeRound :: "nat \<Rightarrow> direction \<Rightarrow> nat \<Rightarrow> io_error option \<Rightarrow> bytes \<Rightarrow> io_error option \<Rightarrow> mitm \<Rightarrow> mitm" where
  "writeRound k d n failed rest err st =
     (let c = relayConns st k; r = side d c;
          st' = setConn k (setSide d (r\<lparr>relTaken := relTaken r @ take n rest\<rparr>) c) st
      in case failed of Some e \<Rightarrow> finish k d e st' | None \<Rightarrow> setPC k d (Writing (drop n rest) err) st')"

text \<open>The start of \<^verbatim>\<open>handleConn\<close>, which takes the next session ID, and its two ends.\<close>

definition addrString :: "string option \<Rightarrow> string" where
  "addrString address = (case address of None \<Rightarrow> [] | Some s \<Rightarrow> s)"

definition acceptConn :: "string option \<Rightarrow> mitm \<Rightarrow> mitm" where
  "acceptConn address st =
     (let n = nextSessionID st + 1
      in (setConn (acceptedConns st) (unknownConn\<lparr>phase := Dialing, connID := n, clientAddr := addrString address\<rparr>) st)
           \<lparr>nextSessionID := n, acceptedConns := acceptedConns st + 1\<rparr>)"

definition dialFailed :: "nat \<Rightarrow> io_error \<Rightarrow> mitm \<Rightarrow> mitm" where
  "dialFailed k e st =
     (let c = relayConns st k
      in setConn k (c\<lparr>phase := DialFailed\<rparr>)
           (logEvent (plainEvent\<lparr>evSession := connID c, evMessage := ''upstream dial failed'', evSrc := clientAddr c, evError := Some e\<rparr>) st))"

definition dialDone :: "nat \<Rightarrow> string option \<Rightarrow> mitm \<Rightarrow> mitm" where
  "dialDone k address st =
     (let c = relayConns st k
      in setConn k (c\<lparr>phase := Relaying, upstreamAddr := addrString address\<rparr>)
           (logEvent (plainEvent\<lparr>evSession := connID c, evMessage := ''relay connected'', evSrc := clientAddr c, evDst := addrString address\<rparr>) st))"

definition relayClosed :: "nat \<Rightarrow> io_error \<Rightarrow> io_error list \<Rightarrow> mitm \<Rightarrow> mitm" where
  "relayClosed k e es st =
     (let c = relayConns st k;
          quietly = (ctxDone st \<or> e = EOF \<or> e = NetClosed)
      in setConn k (c\<lparr>phase := RelayEnded, doneErrors := es\<rparr>)
           (logEvent (plainEvent\<lparr>evSession := connID c, evMessage := ''relay closed'', evError := (if quietly then None else Some e)\<rparr>) st))"

inductive mstep :: "mitm \<Rightarrow> mitm \<Rightarrow> bool" where
  interrupt: "mstep st (st\<lparr>ctxDone := True\<rparr>)"
| log_breaks: "mstep st (st\<lparr>logBroken := True\<rparr>)"
| accept: "mstep st (acceptConn address st)"
| accept_failed: "\<not> ctxDone st \<Longrightarrow> mstep st (logEvent (plainEvent\<lparr>evMessage := ''accept failed'', evError := Some e\<rparr>) st)"
| dial_failed: "phase (relayConns st k) = Dialing \<Longrightarrow> mstep st (dialFailed k e st)"
| dialed: "phase (relayConns st k) = Dialing \<Longrightarrow> mstep st (dialDone k address st)"
| poll: "phase (relayConns st k) \<in> {Relaying, RelayEnded} \<Longrightarrow> relPC (side d (relayConns st k)) = AtPoll \<Longrightarrow>
    mstep st (if ctxDone st then finish k d ContextDone st else setPC k d AtRead st)"
| read: "relPC (side d (relayConns st k)) = AtRead \<Longrightarrow> length payload \<le> relayBuffer \<Longrightarrow> mstep st (relayRead k d payload err st)"
| write_end: "relPC (side d (relayConns st k)) = Writing [] err \<Longrightarrow> mstep st (nextRound k d err st)"
| write_round: "relPC (side d (relayConns st k)) = Writing rest err \<Longrightarrow> rest \<noteq> [] \<Longrightarrow> n \<le> length rest \<Longrightarrow>
    mstep st (writeRound k d n failed rest err st)"
| closed: "phase (relayConns st k) = Relaying \<Longrightarrow> doneErrors (relayConns st k) = e # es \<Longrightarrow> mstep st (relayClosed k e es st)"

section \<open>The log is complete\<close>

definition payloads :: "u64 \<Rightarrow> direction \<Rightarrow> event list \<Rightarrow> bytes list" where
  "payloads s d log = [case evData ev of StreamData p \<Rightarrow> p | _ \<Rightarrow> []. ev \<leftarrow> log, evSession ev = s \<and> evDirection ev = Some d]"

definition pc_ok :: "relay \<Rightarrow> bool" where
  "pc_ok r \<longleftrightarrow> (case relPC r of
     AtPoll \<Rightarrow> relTaken r = concat (relRead r)
   | AtRead \<Rightarrow> relTaken r = concat (relRead r)
   | Writing rest err \<Rightarrow> relTaken r @ rest = concat (relRead r)
   | Finished e \<Rightarrow> prefix (relTaken r) (concat (relRead r)))"

definition conn_ok :: "bool \<Rightarrow> event list \<Rightarrow> relay_conn \<Rightarrow> bool" where
  "conn_ok broken log c \<longleftrightarrow> (\<forall>d. prefix (payloads (connID c) d log) (relRead (side d c)) \<and>
     (broken \<or> payloads (connID c) d log = relRead (side d c)) \<and> pc_ok (side d c))"

definition mitm_ok :: "mitm \<Rightarrow> bool" where
  "mitm_ok st \<longleftrightarrow> nextSessionID st = of_nat (acceptedConns st) \<and>
     (\<forall>k < acceptedConns st. connID (relayConns st k) = of_nat (Suc k) \<and> conn_ok (logBroken st) (eventLog st) (relayConns st k)) \<and>
     (\<forall>k \<ge> acceptedConns st. relayConns st k = unknownConn) \<and>
     (\<forall>ev \<in> set (eventLog st). evDirection ev \<noteq> None \<longrightarrow> (\<exists>k < acceptedConns st. evSession ev = of_nat (Suc k)))"

lemma pc_okD:
  "pc_ok r \<Longrightarrow> relPC r = AtPoll \<Longrightarrow> relTaken r = concat (relRead r)" "pc_ok r \<Longrightarrow> relPC r = AtRead \<Longrightarrow> relTaken r = concat (relRead r)"
  "pc_ok r \<Longrightarrow> relPC r = Writing rest err \<Longrightarrow> relTaken r @ rest = concat (relRead r)" "pc_ok r \<Longrightarrow> prefix (relTaken r) (concat (relRead r))"
  by (auto simp: pc_ok_def split: relay_pc.splits intro: prefixI [OF sym])

lemma conn_okD: "conn_ok broken log c \<Longrightarrow> prefix (payloads (connID c) d log) (relRead (side d c))" "conn_ok broken log c \<Longrightarrow> pc_ok (side d c)"
  "conn_ok broken log c \<Longrightarrow> \<not> broken \<Longrightarrow> payloads (connID c) d log = relRead (side d c)"
  by (simp_all add: conn_ok_def)

lemma payloads_append: "payloads s d (log @ [ev]) = payloads s d log @
    (if evSession ev = s \<and> evDirection ev = Some d then [case evData ev of StreamData p \<Rightarrow> p | _ \<Rightarrow> []] else [])"
  by (simp add: payloads_def)

lemma side_setSide [simp]: "side d (setSide d' r c) = (if d = d' then r else side d c)"
  by (cases d; cases d') simp_all

lemma setSide_fields [simp]: "connID (setSide d r c) = connID c" "phase (setSide d r c) = phase c"
  by (cases d; simp)+

lemma side_fields [simp]: "side d (c\<lparr>doneErrors := es\<rparr>) = side d c" "side d (c\<lparr>phase := ph\<rparr>) = side d c"
  "side d (c\<lparr>upstreamAddr := a\<rparr>) = side d c"
  by (cases d; simp)+

lemma conn_ok_fields [simp]: "conn_ok broken log (c\<lparr>doneErrors := es\<rparr>) = conn_ok broken log c" "conn_ok broken log (c\<lparr>phase := ph\<rparr>) = conn_ok broken log c"
  "conn_ok broken log (c\<lparr>upstreamAddr := a\<rparr>) = conn_ok broken log c"
  by (simp_all add: conn_ok_def)

lemma set_again [simp]: "setSide d r' (setSide d r c) = setSide d r' c" "setConn k c' (setConn k c st) = setConn k c' st"
  "relayConns (setConn k c st) k = c" "doneErrors (setSide d r c) = doneErrors c"
  by (cases d; simp add: setConn_def)+

lemma conn_ok_setSide: "conn_ok broken log c \<Longrightarrow> relRead r = relRead (side d c) \<Longrightarrow> pc_ok r \<Longrightarrow> conn_ok broken log (setSide d r c)"
  by (simp add: conn_ok_def)

text \<open>Events that are not about a stream, and changes of one connection that keep its contract.\<close>

lemma log_other_ok: "mitm_ok st \<Longrightarrow> evDirection ev = None \<Longrightarrow> mitm_ok (logEvent ev st)"
  by (auto simp: mitm_ok_def conn_ok_def logEvent_def payloads_append)

lemma logEvent_fields [simp]: "relayConns (logEvent ev st) = relayConns st" "ctxDone (logEvent ev st) = ctxDone st"
  "logBroken (logEvent ev st) = logBroken st"
  by (simp_all add: logEvent_def)

lemma plainEvent_stream [simp]: "evDirection plainEvent = None"
  by (simp add: plainEvent_def)

lemma set_conn_ok:
  assumes "mitm_ok st" and "relayConns st k \<noteq> unknownConn" and "connID c = connID (relayConns st k)" and "conn_ok (logBroken st) (eventLog st) c"
  shows "mitm_ok (setConn k c st)"
proof -
  have "k < acceptedConns st" using assms(1,2) by (meson mitm_ok_def not_le)
  then show ?thesis using assms by (auto simp: mitm_ok_def setConn_def)
qed

lemma mitm_ok_conn:
  assumes "mitm_ok st" and "relayConns st k \<noteq> unknownConn"
  shows "k < acceptedConns st" and "conn_ok (logBroken st) (eventLog st) (relayConns st k)" and "connID (relayConns st k) = of_nat (Suc k)"
proof -
  show "k < acceptedConns st" using assms by (meson mitm_ok_def not_le)
  then show "conn_ok (logBroken st) (eventLog st) (relayConns st k)" "connID (relayConns st k) = of_nat (Suc k)" using assms(1) by (auto simp: mitm_ok_def)
qed

lemma setSide_ok:
  assumes "mitm_ok st" and "relayConns st k \<noteq> unknownConn" and "relRead r = relRead (side d (relayConns st k))" and "pc_ok r"
  shows "mitm_ok (setConn k (setSide d r (relayConns st k)) st)" and "mitm_ok (setConn k ((setSide d r (relayConns st k))\<lparr>doneErrors := es\<rparr>) st)"
  using conn_ok_setSide [OF mitm_ok_conn(2) [OF assms(1,2)] assms(3,4)] by (simp_all add: set_conn_ok [OF assms(1,2)])

lemma finish_ok:
  assumes "mitm_ok st" and "relayConns st k \<noteq> unknownConn" and "prefix (relTaken (side d (relayConns st k))) (concat (relRead (side d (relayConns st k))))"
  shows "mitm_ok (finish k d e st)"
  using assms by (auto simp: finish_def Let_def pc_ok_def intro!: setSide_ok)

lemma setPC_ok:
  assumes "mitm_ok st" and "relayConns st k \<noteq> unknownConn" and "pc_ok ((side d (relayConns st k))\<lparr>relPC := pc\<rparr>)"
  shows "mitm_ok (setPC k d pc st)"
  using assms by (auto simp: setPC_def Let_def intro!: setSide_ok)

lemma nextRound_ok:
  assumes "mitm_ok st" and "relayConns st k \<noteq> unknownConn" and "relTaken (side d (relayConns st k)) = concat (relRead (side d (relayConns st k)))"
  shows "mitm_ok (nextRound k d err st)"
  using assms by (cases err) (auto simp: nextRound_def pc_ok_def intro!: setPC_ok finish_ok)

lemma known_conn:
  "relPC (side d c) \<noteq> AtPoll \<Longrightarrow> c \<noteq> unknownConn" "phase c \<noteq> Unknown \<Longrightarrow> c \<noteq> unknownConn"
  by (cases d; auto simp: unknownConn_def newRelay_def)+

lemma session_ids_differ:
  assumes "Suc i < 2 ^ 64" and "Suc j < 2 ^ 64" and "(of_nat (Suc i) :: u64) = of_nat (Suc j)"
  shows "i = j"
  using assms by (simp add: word_of_nat_eq_iff take_bit_nat_eq_self del: of_nat_Suc)

text \<open>A read: the event is logged under the session ID of the connection, which no other connection has.\<close>

lemma relayRead_ok:
  assumes "mitm_ok st" and "acceptedConns st < 2 ^ 64" and "relPC (side d (relayConns st k)) = AtRead"
  shows "mitm_ok (relayRead k d payload err st)"
proof -
  let ?c = "relayConns st k"
  have u: "?c \<noteq> unknownConn" by (rule known_conn(1) [of d]) (simp add: assms(3))
  note c = mitm_ok_conn [OF assms(1) u]
  have t: "relTaken (side d ?c) = concat (relRead (side d ?c))" using pc_okD(2) [OF conn_okD(2) [OF c(2)] assms(3)] .
  show ?thesis
  proof (cases "payload = []")
    case True
    then show ?thesis using nextRound_ok [OF assms(1) u t] by (simp add: relayRead_def)
  next
    case False
    have inj: "j = k" if "j < acceptedConns st" "(of_nat (Suc j) :: u64) = of_nat (Suc k)" for j
      using that c(1) assms(2) by (intro session_ids_differ) simp_all
    let ?log = "eventLog (logEvent (streamEvent ?c d payload) st)"
    have "conn_ok (logBroken st) ?log (setSide d ((side d ?c)\<lparr>relPC := Writing payload err, relRead := relRead (side d ?c) @ [payload]\<rparr>) ?c)"
      using c(2) t prefix_prefix [OF conn_okD(1) [OF c(2), of d], of "[payload]"]
      by (auto simp: conn_ok_def logEvent_def payloads_append streamEvent_def pc_ok_def simp del: side.simps)
    moreover have "conn_ok (logBroken st) ?log (relayConns st j)" if "j < acceptedConns st" "j \<noteq> k" for j
    proof -
      have "connID (relayConns st j) \<noteq> connID ?c" using inj [OF that(1)] that assms(1) c(3) by (auto simp: mitm_ok_def)
      then show ?thesis using that(1) assms(1) by (auto simp: mitm_ok_def conn_ok_def logEvent_def payloads_append streamEvent_def)
    qed
    ultimately show ?thesis
      using assms(1) c False by (auto simp: mitm_ok_def relayRead_def Let_def setConn_def logEvent_def streamEvent_def)
  qed
qed

lemma writeRound_ok:
  assumes "mitm_ok st" and "relPC (side d (relayConns st k)) = Writing rest err"
  shows "mitm_ok (writeRound k d n failed rest err st)"
proof -
  let ?c = "relayConns st k"
  have u: "?c \<noteq> unknownConn" by (rule known_conn(1) [of d]) (simp add: assms(2))
  note c = mitm_ok_conn [OF assms(1) u]
  have t: "relTaken (side d ?c) @ rest = concat (relRead (side d ?c))" using pc_okD(3) [OF conn_okD(2) [OF c(2)] assms(2)] .
  have "prefix (relTaken (side d ?c) @ take n rest) (relTaken (side d ?c) @ rest)" by (metis append_assoc append_take_drop_id prefixI)
  then show ?thesis using t
    by (cases failed) (auto simp: writeRound_def finish_def setPC_def Let_def pc_ok_def intro!: setSide_ok assms(1) u)
qed

lemma acceptConn_ok:
  assumes "mitm_ok st" and "Suc (acceptedConns st) < 2 ^ 64"
  shows "mitm_ok (acceptConn address st)"
proof -
  let ?n = "acceptedConns st"
  let ?c = "unknownConn\<lparr>phase := Dialing, connID := of_nat (Suc ?n), clientAddr := addrString address\<rparr>"
  have "\<not> (evSession ev = of_nat (Suc ?n) \<and> evDirection ev = Some d)" if "ev \<in> set (eventLog st)" for ev d
  proof
    assume e: "evSession ev = of_nat (Suc ?n) \<and> evDirection ev = Some d"
    have "\<forall>ev \<in> set (eventLog st). evDirection ev \<noteq> None \<longrightarrow> (\<exists>k < ?n. evSession ev = of_nat (Suc k))"
      using assms(1) unfolding mitm_ok_def by (elim conjE)
    then have "\<exists>k < ?n. evSession ev = of_nat (Suc k)" using that e by (metis option.discI)
    then obtain j where j: "j < ?n" "evSession ev = of_nat (Suc j)" by blast
    have "(of_nat (Suc j) :: u64) = of_nat (Suc ?n)" using e j(2) by metis
    then have "j = ?n" using j(1) assms(2) by (intro session_ids_differ) simp_all
    then show False using j(1) by simp
  qed
  then have "payloads (of_nat (Suc ?n)) d (eventLog st) = []" for d
    unfolding payloads_def by (auto simp: concat_eq_Nil_conv)
  moreover have "side d ?c = newRelay" for d by (cases d) (simp_all add: unknownConn_def)
  ultimately have "conn_ok (logBroken st) (eventLog st) ?c" by (simp add: conn_ok_def pc_ok_def newRelay_def del: of_nat_Suc)
  moreover have "nextSessionID st + 1 = of_nat (Suc ?n)" using assms(1) by (simp add: mitm_ok_def)
  ultimately show ?thesis
    using assms(1) by (auto simp: mitm_ok_def acceptConn_def Let_def setConn_def less_Suc_eq simp del: of_nat_Suc)
qed

lemma mstep_accepted: "mstep st st' \<Longrightarrow> acceptedConns st \<le> acceptedConns st'"
  by (induction rule: mstep.induct)
    (auto simp: acceptConn_def logEvent_def dialFailed_def dialDone_def finish_def setPC_def nextRound_def relayRead_def writeRound_def
      relayClosed_def setConn_def Let_def split: option.splits)

text \<open>An event that is not about a stream, together with a change of the phase of a connection.\<close>

lemma phase_ok:
  assumes "mitm_ok st" and "relayConns st k \<noteq> unknownConn" and "evDirection ev = None"
    and "conn_ok (logBroken st) (eventLog (logEvent ev st)) (relayConns st k) \<Longrightarrow> conn_ok (logBroken st) (eventLog (logEvent ev st)) c" and "connID c = connID (relayConns st k)"
  shows "mitm_ok (setConn k c (logEvent ev st))"
proof -
  have l: "mitm_ok (logEvent ev st)" by (rule log_other_ok [OF assms(1,3)])
  then have "conn_ok (logBroken st) (eventLog (logEvent ev st)) (relayConns st k)" using mitm_ok_conn(2) [OF l, of k] assms(2) by simp
  then show ?thesis using assms(2,4,5) by (intro set_conn_ok [OF l]) simp_all
qed

lemma mstep_ok:
  assumes "mstep st st'" and "mitm_ok st" and "acceptedConns st' < 2 ^ 64"
  shows "mitm_ok st'"
  using assms
proof (induction rule: mstep.induct)
  case (interrupt st)
  then show ?case by (simp add: mitm_ok_def)
next
  case (log_breaks st)
  then show ?case by (auto simp: mitm_ok_def conn_ok_def)
next
  case (accept st address)
  then show ?case by (intro acceptConn_ok) (simp_all add: acceptConn_def Let_def)
next
  case (accept_failed st e)
  then show ?case by (simp add: log_other_ok)
next
  case (dial_failed st k e)
  then show ?case unfolding dialFailed_def Let_def by (intro phase_ok known_conn(2)) simp_all
next
  case (dialed st k address)
  then show ?case unfolding dialDone_def Let_def by (intro phase_ok known_conn(2)) simp_all
next
  case (poll st k d)
  then have u: "relayConns st k \<noteq> unknownConn" by (intro known_conn(2)) auto
  have "relTaken (side d (relayConns st k)) = concat (relRead (side d (relayConns st k)))"
    using pc_okD(1) [OF conn_okD(2) [OF mitm_ok_conn(2) [OF poll.prems(1) u]] poll.hyps(2)] .
  then show ?case using finish_ok [OF poll.prems(1) u] setPC_ok [OF poll.prems(1) u] by (simp add: pc_ok_def)
next
  case (read d st k payload err)
  have "acceptedConns st \<le> acceptedConns (relayRead k d payload err st)" using mstep_accepted [OF mstep.read [OF read.hyps]] .
  then show ?case using read by (intro relayRead_ok) simp_all
next
  case (write_end d st k err)
  then have u: "relayConns st k \<noteq> unknownConn" by (intro known_conn(1) [of d]) simp
  have "relTaken (side d (relayConns st k)) = concat (relRead (side d (relayConns st k)))"
    using pc_okD(3) [OF conn_okD(2) [OF mitm_ok_conn(2) [OF write_end.prems(1) u]] write_end.hyps] by simp
  then show ?case by (rule nextRound_ok [OF write_end.prems(1) u])
next
  case (write_round d st k rest err n failed)
  then show ?case by (simp add: writeRound_ok)
next
  case (closed st k e es)
  then show ?case unfolding relayClosed_def Let_def by (intro phase_ok known_conn(2)) simp_all
qed

lemma msteps_ok: "mstep\<^sup>*\<^sup>* st st' \<Longrightarrow> mitm_ok st \<Longrightarrow> acceptedConns st' < 2 ^ 64 \<Longrightarrow> mitm_ok st'"
proof (induction rule: rtranclp_induct)
  case (step st1 st2)
  then show ?case using mstep_accepted [OF step.hyps(2)] mstep_ok by simp
qed

lemma mitmMain_ok: "mitmMain opened works listening ping args = Inr st \<Longrightarrow> mitm_ok st \<and> acceptedConns st = 0"
  by (auto simp: mitmMain_def Let_def mitm_ok_def logEvent_def plainEvent_def split: sum.splits flag_error.splits if_splits option.splits)

text \<open>
  C21. The proxy is transparent, and its log is faithful. However the goroutines of any number of connections interleave, for every
  connection and each of its directions: the payloads logged under its session ID are a prefix of the payloads that were read, in
  order, and exactly these as long as no write of the log has failed (after a failure nothing more is logged). Forwarding does
  not depend on the log: what the other side took is a prefix of the bytes read, and all of them whenever the goroutine
  is back at reading, so nothing is lost, repeated, reordered or mixed between connections before an error ends the copying.
\<close>

theorem relay_log_complete:
  assumes "mitmMain opened works listening ping args = Inr st0" and "mstep\<^sup>*\<^sup>* st0 st" and "acceptedConns st < 2 ^ 64" and "k < acceptedConns st"
    and "c = relayConns st k"
  shows "prefix (payloads (connID c) d (eventLog st)) (relRead (side d c)) \<and>
    (\<not> logBroken st \<longrightarrow> payloads (connID c) d (eventLog st) = relRead (side d c)) \<and>
    prefix (relTaken (side d c)) (concat (relRead (side d c))) \<and>
    (relPC (side d c) = AtPoll \<or> relPC (side d c) = AtRead \<longrightarrow> relTaken (side d c) = concat (relRead (side d c)))"
proof -
  have "mitm_ok st" using msteps_ok [OF assms(2) _ assms(3)] mitmMain_ok [OF assms(1)] by blast
  then have o: "conn_ok (logBroken st) (eventLog st) c" using assms(4,5) by (simp add: mitm_ok_def)
  note p = conn_okD(2) [OF o, of d]
  show ?thesis using conn_okD(1,3) [OF o] pc_okD(4) [OF p] pc_okD(1,2) [OF p] by blast
qed

text \<open>Witness of \<open>relay_log_complete\<close>: one connection that reads three bytes from the client, of which two were taken.\<close>

definition relayStart :: mitm where
  "relayStart = \<lparr>ctxDone = False, nextSessionID = 0, logBroken = False,
     eventLog = [plainEvent\<lparr>evMessage := ''transparent raknet mitm listening'', evData := ListenData ''0.0.0.0:19133'' ''127.0.0.1:19132''\<rparr>],
     relayConns = (\<lambda>k. unknownConn), acceptedConns = 0\<rparr>"

lemma mitmMain_sample: "mitmMain (True, True) (True, True) True None [] = Inr relayStart"
  by (simp add: mitmMain_def mitmOptions_def flagParse.simps flagValue_def openOutput_def relayStart_def logEvent_def)

definition relaySample :: mitm where
  "relaySample = writeRound 0 ToUpstream 2 None [1, 2, 3] None (relayRead 0 ToUpstream [1, 2, 3] None
     (setPC 0 ToUpstream AtRead (dialDone 0 (Some ''127.0.0.1:19132'') (acceptConn (Some ''10.0.0.2:4000'') relayStart))))"

lemma relaySample_reach: "mstep\<^sup>*\<^sup>* relayStart relaySample"
proof -
  let ?st1 = "acceptConn (Some ''10.0.0.2:4000'') relayStart"
  let ?st2 = "dialDone 0 (Some ''127.0.0.1:19132'') ?st1"
  let ?st3 = "setPC 0 ToUpstream AtRead ?st2"
  let ?st4 = "relayRead 0 ToUpstream [1, 2, 3] None ?st3"
  note sample = relayStart_def acceptConn_def dialDone_def setPC_def relayRead_def setConn_def logEvent_def unknownConn_def newRelay_def Let_def
  have "mstep relayStart ?st1" by (rule mstep.accept)
  moreover have "mstep ?st1 ?st2" by (rule mstep.dialed) (simp add: sample)
  moreover have "mstep ?st2 ?st3" using mstep.poll [of ?st2 0 ToUpstream] by (simp add: sample)
  moreover have "mstep ?st3 ?st4" by (rule mstep.read) (simp_all add: sample relayBuffer_def)
  moreover have "mstep ?st4 relaySample" unfolding relaySample_def by (rule mstep.write_round) (simp_all add: sample)
  ultimately show ?thesis by (meson rtranclp.rtrancl_into_rtrancl rtranclp.rtrancl_refl)
qed

theorem relay_log_complete_witness:
  "payloads 1 ToUpstream (eventLog relaySample) = [[1, 2, 3]] \<and> relTaken (side ToUpstream (relayConns relaySample 0)) = [1, 2] \<and>
   payloads 1 ToClient (eventLog relaySample) = []"
proof -
  have f: "acceptedConns relaySample = 1" "connID (relayConns relaySample 0) = 1" "relRead (side ToUpstream (relayConns relaySample 0)) = [[1, 2, 3]]"
    "relRead (side ToClient (relayConns relaySample 0)) = []" "relTaken (side ToUpstream (relayConns relaySample 0)) = [1, 2]" "\<not> logBroken relaySample"
    by (simp_all add: relaySample_def relayStart_def acceptConn_def dialDone_def setPC_def relayRead_def writeRound_def setConn_def logEvent_def
        unknownConn_def newRelay_def Let_def)
  show ?thesis
    using relay_log_complete [OF mitmMain_sample relaySample_reach _ _ refl, of 0 ToUpstream]
      relay_log_complete [OF mitmMain_sample relaySample_reach _ _ refl, of 0 ToClient] f by simp
qed

end
