(* ===== verification/Chunk_Type.thy ===== *)
theory Chunk_Type
  imports World
begin

text \<open>
  The type of chunks (\<^verbatim>\<open>internal/world/types.go\<close>): whatever sequence of edits a chunk goes through, it stays well formed,
  keeps its position and dimension, and every height inside its dimension indexes one of its sub-chunks, so no method leaves the slice.
\<close>

datatype chunk_edit =
    EditRuntimeID u8 int u8 u8 u32
  | EditBlock u8 int u8 u8 BlockState
  | EditBiome u8 int u8 u32
  | EditFillBiome u32

text \<open>A method that returns an error leaves the chunk as it was.\<close>

fun edit :: "nbt_encoder \<Rightarrow> chunk_edit \<Rightarrow> Chunk \<Rightarrow> Chunk" where
  "edit enc (EditRuntimeID x y z l v) c = (case SetRuntimeID x y z l v c of Inl e \<Rightarrow> c | Inr c' \<Rightarrow> c')"
| "edit enc (EditBlock x y z l s) c = (case SetBlock enc x y z l s c of Inl e \<Rightarrow> c | Inr c' \<Rightarrow> c')"
| "edit enc (EditBiome x y z b) c = (case SetBiomeID x y z b c of Inl e \<Rightarrow> c | Inr c' \<Rightarrow> c')"
| "edit enc (EditFillBiome b) c = FillBiomeID b c"

definition same_frame :: "Chunk \<Rightarrow> Chunk \<Rightarrow> bool" where
  "same_frame c c' \<longleftrightarrow> position c' = position c \<and> dimension c' = dimension c \<and> airRuntimeID c' = airRuntimeID c"

lemma SetRuntimeID_type: "SetRuntimeID x y z l v c = Inr c' \<Longrightarrow> chunk_ok c \<Longrightarrow> chunk_ok c' \<and> same_frame c c'"
  using blocks.invar_put [of c "(x, y, z, l)" v c'] SetRuntimeID_keeps [of x y z l v c c'] by (simp add: same_frame_def)

lemma biomes_type: "chunk_ok c \<Longrightarrow> chunk_ok (c\<lparr>biomeOverrides := m\<rparr>) \<and> same_frame c (c\<lparr>biomeOverrides := m\<rparr>)"
  "chunk_ok c \<Longrightarrow> chunk_ok (c\<lparr>defaultBiomeID := b, biomeOverrides := m\<rparr>) \<and> same_frame c (c\<lparr>defaultBiomeID := b, biomeOverrides := m\<rparr>)"
  by (simp_all add: chunk_ok_def chunk_shape_def same_frame_def)

lemma edit_type: "chunk_ok c \<Longrightarrow> chunk_ok (edit enc e c) \<and> same_frame c (edit enc e c)"
proof (cases e)
  case (EditBiome x y z b)
  assume "chunk_ok c"
  then show ?thesis using EditBiome biomes_type(1)
    by (auto simp: SetBiomeID_def Let_def same_frame_def split: option.split)
next
  case (EditFillBiome b)
  assume "chunk_ok c"
  then show ?thesis using EditFillBiome biomes_type(2) by (simp add: FillBiomeID_def)
qed (auto simp: SetBlock_def same_frame_def [of c c] dest: SetRuntimeID_type split: sum.split)

lemma edits_type: "chunk_ok c \<Longrightarrow> chunk_ok (fold (edit enc) es c) \<and> same_frame c (fold (edit enc) es c)"
proof (induction es arbitrary: c)
  case (Cons e es)
  then show ?case using edit_type [OF Cons.prems, of enc e] Cons.IH [of "edit enc e c"] by (simp add: same_frame_def)
qed (simp add: same_frame_def)

text \<open>
  C22. Chunks keep their type. A chunk created with any bounds of Go's \<^verbatim>\<open>int16\<close> and changed by any sequence of edits, failing ones included, is well
  formed (one sub-chunk per section of the dimension, no empty layer maps, no stored air), has the position, dimension and air of its
  creation, and the sub-chunk of every height in its dimension exists.
\<close>

theorem edits_keep_chunk_type:
  assumes "NewChunk enc pos d = Inr c0" and "in_i16 (dimMinY d)" and "in_i16 (dimMaxY d)" and "c = fold (edit enc) es c0"
  shows "chunk_ok c \<and> position c = pos \<and> dimension c = withDefaults d \<and> airRuntimeID c = airRuntimeID c0 \<and>
    (\<forall>y. inHeight c y \<longrightarrow> 0 \<le> SubIndex c y \<and> SubIndex c y < int (length (subChunks c)))"
proof -
  note n = NewChunk_ok(1-3) [OF assms(1-3)]
  have t: "chunk_ok c" "same_frame c0 c" using edits_type [OF n(1), of enc es] assms(4) by simp_all
  moreover have "chunk_shape c" using t(1) by (simp add: chunk_ok_def)
  ultimately show ?thesis using n SubIndex_range [of c] by (simp add: same_frame_def)
qed

text \<open>Witness of \<open>edits_keep_chunk_type\<close>: two edits inside the chunk and one outside.\<close>

theorem edits_keep_chunk_type_witness:
  "\<exists>c0. NewChunk sampleEncoder \<lparr>chunkX = 1, chunkZ = 2\<rparr> Overworld = Inr c0 \<and>
     chunk_ok (fold (edit sampleEncoder) [EditRuntimeID 1 2 3 0 7, EditBiome 1 2 3 9, EditRuntimeID 1 999 3 0 7] c0)"
proof -
  obtain c0 where c0: "NewChunk sampleEncoder \<lparr>chunkX = 1, chunkZ = 2\<rparr> Overworld = Inr c0"
    using NewChunk_total [OF sampleEncoder_compound] by blast
  have "in_i16 (dimMinY Overworld)" "in_i16 (dimMaxY Overworld)" by (simp_all add: Overworld_def)
  from edits_keep_chunk_type [OF c0 this refl] c0 show ?thesis by blast
qed

end
