(* ===== verification/Spec2Isabelle.thy ===== *)
theory Spec2Isabelle
  imports Prelude Command Runtime World Flat Inventory Storage Chunk_Publisher Resource_Pack Float32
    Handshake Decimal Protocol Server_State Inventory_Sync Player_Sync Default_Commands Session Frames
    Reachable Lifecycle Codec Wire Serving Config Motd Float64 Game_Server Player_Count Transport Console
    Ticks Flags Logging Startup Relay Chunk_Type
begin

text \<open>
  A verification library for the Bedrock server in \<^verbatim>\<open>src/internal\<close>, a Go program that speaks the
  Minecraft Bedrock protocol: clients connect, negotiate compression, log in, agree on an encryption
  key, download resource packs, join a flat world, and then move, chat, run commands and rearrange
  their inventories.

  \<^bold>\<open>Parts of the program and the theories that model them.\<close>

  \<^item> \<^verbatim>\<open>command/command.go\<close> (registry, parser and dispatcher of commands): \<open>Command\<close>. The registry is a
    record of two maps; \<open>Register\<close>, \<open>Lookup\<close>, \<open>Dispatch\<close>, \<open>splitArgs\<close> and the rest have the names of the code.
  \<^item> \<^verbatim>\<open>world/runtime.go\<close> (block states, their FNV hashes, biomes): \<open>Runtime\<close>.
  \<^item> \<^verbatim>\<open>world/types.go\<close> (dimensions, chunks as sparse maps of layers): \<open>World\<close>; \<^verbatim>\<open>world/flat.go\<close>: \<open>Flat\<close>.
  \<^item> \<^verbatim>\<open>server/mcpe_inventory.go\<close>: \<open>Inventory\<close> (slots, stack IDs, item stack requests) and
    \<open>Inventory_Sync\<close> (the packet handlers).
  \<^item> \<^verbatim>\<open>server/chunk_publisher.go\<close>: \<open>Storage\<close> (paletted storages and their decoder), \<open>Chunk_Publisher\<close>
    (payloads, height maps, which chunks are sent) and, for the sending loops, \<open>Session\<close>.
  \<^item> \<^verbatim>\<open>resourcepack/resourcepack.go\<close> (packs and the download queue): \<open>Resource_Pack\<close>.
  \<^item> \<^verbatim>\<open>server/mcpe_handshake.go\<close> (key agreement): \<open>Handshake\<close>.
  \<^item> \<^verbatim>\<open>server/mcpe_player_sync.go\<close>: \<open>Float32\<close> (angles) and \<open>Player_Sync\<close> (player state, movement, interaction).
  \<^item> \<^verbatim>\<open>server/mcpe_commands.go\<close>, \<^verbatim>\<open>mcpe_permissions.go\<close>: \<open>Default_Commands\<close>.
  \<^item> \<^verbatim>\<open>server/mcpe_session.go\<close>, \<^verbatim>\<open>mcpe_router.go\<close>, \<^verbatim>\<open>mcpe_login_flow.go\<close>, \<^verbatim>\<open>mcpe_login.go\<close>,
    \<^verbatim>\<open>mcpe_resourcepacks.go\<close>, \<^verbatim>\<open>mcpe_world_sync.go\<close>: \<open>Server_State\<close> (handler, clients, player table) and
    \<open>Session\<close> (the packet handlers and the router).
  \<^item> \<^verbatim>\<open>network/mcpe/codec.go\<close>: \<open>Codec\<close> (batches, compression, encryption); \<^verbatim>\<open>network/mcpe/session.go\<close>: \<open>Wire\<close>
    (packets on a connection) and \<open>Serving\<close> (the read loop around the session layer).
  \<^item> \<^verbatim>\<open>config/config.go\<close>: \<open>Config\<close>; \<^verbatim>\<open>network/raknet/motd.go\<close>: \<open>Motd\<close>; \<^verbatim>\<open>server/server.go\<close>,
    \<^verbatim>\<open>network/mcpe/server.go\<close>: \<open>Game_Server\<close> (construction, start, advertised player count, saved players, task queue and
    ticks), \<open>Player_Count\<close> (joins and leaves that overlap with updates of the ping answer), \<open>Ticks\<close> (ticks per second,
    with the rounding of \<open>Float64\<close>) and \<open>Console\<close> (the console reader).
  \<^item> \<^verbatim>\<open>network/raknet/server.go\<close>: \<open>Transport\<close> (accept loop, session goroutines and callers of \<^verbatim>\<open>Close\<close> as interleaved steps).
  \<^item> \<^verbatim>\<open>bootstrap\<close>, \<^verbatim>\<open>cmd/bds\<close>: \<open>Startup\<close>, with \<open>Flags\<close> (flags and paths of Go's library) and \<^verbatim>\<open>logging/logger.go\<close>: \<open>Logging\<close>.
  \<^item> \<^verbatim>\<open>cmd/mcpe-mitm\<close> (a proxy that logs the traffic of a server): \<open>Relay\<close>.
  \<^item> \<open>Prelude\<close> has the strings, maps and machine integers all components share, \<open>Decimal\<close> the
    conversions of \<^verbatim>\<open>strconv\<close>, \<open>Protocol\<close> the packets and the record \<open>proto\<close> of what is used of the
    protocol libraries.

  \<^bold>\<open>State and effects.\<close> A struct is a record, a Go map an association list with distinct keys, a
  fixed-width integer a word or an \<open>int\<close> with the wrap-around written out, a \<^verbatim>\<open>float32\<close> its bit pattern.
  An operation that may fail returns a sum or an option; a panic is a value too. The session layer
  keeps one handler and a store of clients indexed by addresses; an operation of it is an \<open>action\<close>,
  which returns an optional error and the state it leaves. A connection is the log of what was
  written to it, and each connection decides which of its writes fail.

  \<^bold>\<open>What the lemmas show.\<close>

  \<^item> \<open>Command\<close>: the registry invariant, what is found after a registration, that only permitted commands run,
    that every dispatch answers, which commands are announced, and that quoted arguments survive splitting.
  \<^item> \<open>World\<close>, \<open>Flat\<close>, \<open>Runtime\<close>: chunks behave like total functions from cells to blocks and biomes; the search for the highest block
    equals an exhaustive one; the
    generator fills exactly the configured strata; the spawn is on top of them; hashes do not depend
    on map order.
  \<^item> \<open>Storage\<close>, \<open>Chunk_Publisher\<close>: a decoder written from the format recovers every block from a payload; the
    height maps are right; exactly the square of the view radius is sent; where encoding does not return.
  \<^item> \<open>Inventory\<close>: the invariant of slots and stack IDs, conservation of items, that a rejected request has no
    effect, that predicted stack IDs resolve, and the aliasing bug that breaks conservation.
  \<^item> \<open>Resource_Pack\<close>: the queue refines byte streams; a client that follows the announcements completes
    its download.
  \<^item> \<open>Handshake\<close>: both sides derive the same key. \<open>Float32\<close>: the range of normalised angles.
  \<^item> \<open>Default_Commands\<close>: commands of players who are not operators change nothing.
  \<^item> \<open>Frames\<close>: contracts (locales) for actions that only send, interpreted for \<open>only_logs\<close>, \<open>quiet\<close> and
    \<open>delivers\<close>; \<open>Reachable\<close>: the step relation of the server and its invariant; \<open>Lifecycle\<close>: authenticated
    players only, unique runtime IDs, that a client following the protocol is spawned and that a
    leave is announced on connections that do not fail, and two gaps of the router.
  \<^item> \<open>Codec\<close>, \<open>Wire\<close>: what one side sends the other receives, through compression and encryption
    that are switched on during the session; so the log that stands for a connection in a reachable state is
    implemented by bytes, unless the client asked for the network settings twice. \<open>Serving\<close>: the read loop is a sequence of steps of \<open>Reachable\<close>, so its invariants
    hold whatever bytes arrive.
  \<^item> \<open>Config\<close>, \<open>Motd\<close>: written configurations load again; the fields of a ping answer can be told apart.
    \<open>Game_Server\<close>: if joins and leaves do not overlap, the advertised count is the size of the player table, joins minus
    leaves; \<open>Player_Count\<close>: when it is right under all interleavings, and a race that leaves it wrong. \<open>Console\<close>: after a stop
    line no later line is run and the server loop is ready to end in every round.
  \<^item> \<open>Transport\<close>: an invariant of all interleavings; when the call of \<^verbatim>\<open>Close\<close> that closed the server has returned, no session
    runs and every accepted connection was closed; \<^verbatim>\<open>Close\<close> can return although handlers wait until their connections are closed.
  \<^item> \<open>Startup\<close>: a server that is set up correctly starts under its configuration, and a second start on the files
    of the first gives the same server. \<open>Ticks\<close>: the reported ticks per second stay in range. \<open>Chunk_Type\<close>: edits keep chunks
    well formed. \<open>Relay\<close>: for all interleavings the log of the proxy is complete unless a log write fails, and what it forwards is unchanged.

  \<^bold>\<open>Interfaces.\<close> Third-party code is a parameter: the protocol library, login parsing, JSON web tokens,
  elliptic curves, SHA-256, UUIDs, NBT encoding, Unicode case tables, random numbers and contexts.
  Theorems that rely on it name what they use as hypotheses, and their witnesses instantiate it.

  \<^bold>\<open>Bounds.\<close> Runtime IDs are 64-bit counters; the invariant holds for fewer than \<open>2^64\<close> steps, which bounds
  the number of IDs taken. Chunk positions are computed in \<^verbatim>\<open>int32\<close>; the radius up to which they are right
  is part of the statement. No definition uses fuel except the sub-chunk layer loop, whose theorem
  states exactly when it returns. The loop that reads the packets of a batch and the loop that drains
  the task queue are partial functions: the first is proved to return on every input, the second for tasks that submit none. Session numbers of the
  proxy are 64-bit too, so its theorem is about fewer than \<open>2^64\<close> connections.

  \<^bold>\<open>Not modelled.\<close> The text of log lines; packet fields that are the same constant in every packet (among them the packet
  with structure data, which is a constant); data races: a packet handler is atomic here, while the code locks the player
  table only (\<open>Transport\<close>, \<open>Relay\<close> and \<open>Player_Count\<close> interleave at the granularity of locks and system calls); the read loop of the transport
  without a session handler, which no program uses; the memory and goroutine counts of the runtime, which are parameters of \<open>serverStats\<close>;
  interfaces and constructors of option structs, which have no behaviour.
\<close>

end
